(* ===== verification/Prelude.thy ===== *)
theory Prelude
  imports Main "HOL-Library.Word" "HOL-Library.Multiset" "HOL-Library.Monad_Syntax"
begin

text \<open>
  Shared vocabulary of the development.

  \<^item> The machine types of the C and C++ sources, and the conversions between them that the
    sources rely on: \<^verbatim>\<open>int\<close> is a mathematical integer whose representable range is
    \<open>in_i32\<close>, \<open>to_i32\<close> and \<open>to_u64\<close> are the implicit conversions to \<^verbatim>\<open>int\<close> and
    \<^verbatim>\<open>size_t\<close>, \<open>cdiv\<close> and \<open>crem\<close> are the truncating operators, undefined (\<open>None\<close>) for
    a zero divisor.
  \<^item> Checked access to a block of memory: \<open>rd\<close> and \<open>wr\<close> give \<open>None\<close> where the C program
    would read or write outside of the block, so a proof that an operation returns \<open>Some\<close> is
    a proof of its memory safety.
  \<^item> Loops whose body can fail: \<open>foldM\<close> over a list and \<open>for_range\<close> for
    \<^verbatim>\<open>for (int i = lo; i < hi; i++)\<close>.
  \<^item> Resource accounting over the history of calls a component makes to its environment:
    \<open>live\<close> is the multiset of resources acquired and not yet released.
\<close>

unbundle bit_operations_syntax

named_theorems mem_simps \<open>checked memory access\<close>
named_theorems cint_simps \<open>conversions and division of C integers\<close>

section \<open>Machine integers\<close>

type_synonym u8 = "8 word"
type_synonym u16 = "16 word"
type_synonym u32 = "32 word"
type_synonym u64 = "64 word"

definition in_i32 :: "int \<Rightarrow> bool" where
  "in_i32 n \<longleftrightarrow> - (2 ^ 31) \<le> n \<and> n < 2 ^ 31"

definition to_i32 :: "int \<Rightarrow> int" where
  "to_i32 n = (n + 2 ^ 31) mod 2 ^ 32 - 2 ^ 31"

definition to_u64 :: "int \<Rightarrow> int" where
  "to_u64 n = n mod 2 ^ 64"

definition cdiv :: "int \<Rightarrow> int \<Rightarrow> int option" where
  "cdiv a b = (if b = 0 then None else Some (sgn a * sgn b * (\<bar>a\<bar> div \<bar>b\<bar>)))"

definition crem :: "int \<Rightarrow> int \<Rightarrow> int option" where
  "crem a b = (if b = 0 then None else Some (sgn a * (\<bar>a\<bar> mod \<bar>b\<bar>)))"

lemma to_i32_id [cint_simps]: "in_i32 n \<Longrightarrow> to_i32 n = n"
  by (simp add: in_i32_def to_i32_def)

lemma to_i32_range: "in_i32 (to_i32 n)"
proof -
  have "0 \<le> (n + 2 ^ 31) mod 2 ^ 32" "(n + 2 ^ 31) mod 2 ^ 32 < (2 ^ 32 :: int)"
    by simp_all
  then show ?thesis
    by (simp add: in_i32_def to_i32_def)
qed

lemma to_u64_id [cint_simps]: "0 \<le> n \<Longrightarrow> n < 2 ^ 64 \<Longrightarrow> to_u64 n = n"
  by (simp add: to_u64_def)

lemma to_u64_neg: "in_i32 n \<Longrightarrow> n < 0 \<Longrightarrow> to_u64 n = n + 2 ^ 64"
proof -
  assume n: "in_i32 n" "n < 0"
  have "to_u64 n = (n + 2 ^ 64) mod 2 ^ 64"
    by (simp add: to_u64_def)
  also from n have "\<dots> = n + 2 ^ 64"
    by (intro mod_pos_pos_trivial) (simp_all add: in_i32_def)
  finally show ?thesis .
qed

lemma cdiv_pos [cint_simps]: "0 \<le> a \<Longrightarrow> 0 < b \<Longrightarrow> cdiv a b = Some (a div b)"
  by (cases "a = 0") (simp_all add: cdiv_def)

lemma crem_pos [cint_simps]: "0 \<le> a \<Longrightarrow> 0 < b \<Longrightarrow> crem a b = Some (a mod b)"
  by (cases "a = 0") (simp_all add: crem_def)

lemma crem_zero [cint_simps]: "crem a 0 = None"
  by (simp add: crem_def)

lemma cdiv_zero [cint_simps]: "cdiv a 0 = None"
  by (simp add: cdiv_def)

lemma narrow_add: "uint (ucast (x + y :: u32) :: u8) = (uint x + uint y) mod 256"
  by (simp add: unsigned_ucast_eq take_bit_eq_mod uint_word_ariths mod_mod_cancel)
lemma narrow_minus: "uint (ucast (x - y :: u32) :: u8) = (uint x - uint y) mod 256"
  by (simp add: unsigned_ucast_eq take_bit_eq_mod uint_word_ariths mod_mod_cancel)
lemma narrow_up: "uint (ucast (x :: u8) :: u32) = uint x"
  using unsigned_less [of x, where ?'a = int] by (simp add: unsigned_ucast_eq take_bit_int_eq_self)

section \<open>Checked memory\<close>

definition rd :: "'a list \<Rightarrow> int \<Rightarrow> 'a option" where
  "rd b i = (if 0 \<le> i \<and> i < int (length b) then Some (b ! nat i) else None)"

definition wr :: "'a list \<Rightarrow> int \<Rightarrow> 'a \<Rightarrow> 'a list option" where
  "wr b i v = (if 0 \<le> i \<and> i < int (length b) then Some (b[nat i := v]) else None)"

lemma rd_in [mem_simps]: "0 \<le> i \<Longrightarrow> i < int (length b) \<Longrightarrow> rd b i = Some (b ! nat i)"
  by (simp add: rd_def)

lemma wr_in [mem_simps]: "0 \<le> i \<Longrightarrow> i < int (length b) \<Longrightarrow> wr b i v = Some (b[nat i := v])"
  by (simp add: wr_def)

lemma rd_out [mem_simps]: "i < 0 \<or> int (length b) \<le> i \<Longrightarrow> rd b i = None"
  by (auto simp: rd_def)

lemma wr_out [mem_simps]: "i < 0 \<or> int (length b) \<le> i \<Longrightarrow> wr b i v = None"
  by (auto simp: wr_def)

lemma rd_Some_iff: "rd b i = Some x \<longleftrightarrow> 0 \<le> i \<and> i < int (length b) \<and> x = b ! nat i"
  by (auto simp: rd_def)

lemma wr_Some_iff: "wr b i v = Some b' \<longleftrightarrow> 0 \<le> i \<and> i < int (length b) \<and> b' = b[nat i := v]"
  by (auto simp: wr_def)

lemma wr_length: "wr b i v = Some b' \<Longrightarrow> length b' = length b"
  by (auto simp: wr_Some_iff)

section \<open>Loops\<close>

primrec foldM :: "('a \<Rightarrow> 's \<Rightarrow> 's option) \<Rightarrow> 'a list \<Rightarrow> 's \<Rightarrow> 's option" where
  "foldM f [] s = Some s"
| "foldM f (x # xs) s = Option.bind (f x s) (foldM f xs)"

definition for_range :: "int \<Rightarrow> int \<Rightarrow> (int \<Rightarrow> 's \<Rightarrow> 's option) \<Rightarrow> 's \<Rightarrow> 's option" where
  "for_range lo hi f s = foldM f [lo..hi - 1] s"

lemma foldM_append: "foldM f (xs @ ys) s = Option.bind (foldM f xs s) (foldM f ys)"
  by (induction xs arbitrary: s) (auto split: bind_splits)

lemma foldM_cong: "(\<And>x s. x \<in> set xs \<Longrightarrow> f x s = g x s) \<Longrightarrow> foldM f xs s = foldM g xs s"
  by (induction xs arbitrary: s) (auto split: bind_splits)

lemma foldM_skip: "(\<And>x. x \<in> set xs \<Longrightarrow> f x s = Some s) \<Longrightarrow> foldM f xs s = Some s"
  by (induction xs) auto

lemma foldM_fold: "foldM (\<lambda>x s. Some (f x s)) xs s = Some (fold f xs s)"
  by (induction xs arbitrary: s) auto

lemma foldM_inv:
  assumes "\<And>x s. x \<in> set xs \<Longrightarrow> P s \<Longrightarrow> \<exists>s'. f x s = Some s' \<and> P s'" and "P s"
  shows "\<exists>s'. foldM f xs s = Some s' \<and> P s'"
  using assms
proof (induction xs arbitrary: s)
  case Nil
  then show ?case by simp
next
  case (Cons x xs)
  from Cons.prems obtain s1 where "f x s = Some s1" "P s1"
    by (metis list.set_intros(1))
  moreover from Cons.prems(1) \<open>P s1\<close> have "\<exists>s'. foldM f xs s1 = Some s' \<and> P s'"
    by (intro Cons.IH) auto
  ultimately show ?case by simp
qed

lemma foldM_None_at:
  assumes "x \<in> set xs" and "\<And>s. f x s = None"
  shows "foldM f xs s = None"
  using assms(1)
proof (induction xs arbitrary: s)
  case (Cons y ys)
  show ?case
  proof (cases "x = y")
    case True
    then show ?thesis using assms(2) [of s] by simp
  next
    case False
    with Cons show ?thesis by (auto split: bind_splits)
  qed
qed simp

lemma for_range_empty [simp]: "hi \<le> lo \<Longrightarrow> for_range lo hi f s = Some s"
  by (simp add: for_range_def)

lemma for_range_first: "lo < hi \<Longrightarrow> for_range lo hi f s = Option.bind (f lo s) (for_range (lo + 1) hi f)"
  by (simp add: for_range_def upto_rec1 fun_eq_iff cong: option.case_cong)
    (cases "f lo s"; simp add: for_range_def)

lemma for_range_last: "lo \<le> hi \<Longrightarrow> for_range lo (hi + 1) f s = Option.bind (for_range lo hi f s) (f hi)"
proof -
  assume "lo \<le> hi"
  moreover have "foldM f [hi] x = f hi x" for x by (cases "f hi x") simp_all
  then have "foldM f [hi] = f hi" by blast
  ultimately show ?thesis by (simp add: for_range_def upto_rec2 foldM_append del: foldM.simps)
qed

lemma foldM_result:
  assumes "foldM f xs s = Some s'" and "P s" and "\<And>x s s'. f x s = Some s' \<Longrightarrow> P s \<Longrightarrow> P s'"
  shows "P s'"
  using assms(1,2) by (induction xs arbitrary: s) (auto split: bind_splits intro: assms(3))

section \<open>Resource accounting\<close>

text \<open>
  A component's calls to its environment are kept as a history, newest call first. A call can
  acquire resources (a handle, a descriptor, a mapping) and release some; \<open>live\<close> counts those
  acquired and not yet released.
\<close>

fun live :: "('e \<Rightarrow> 'r multiset) \<Rightarrow> ('e \<Rightarrow> 'r multiset) \<Rightarrow> 'e list \<Rightarrow> 'r multiset" where
  "live gain lose [] = {#}"
| "live gain lose (e # h) = live gain lose h - lose e + gain e"

text \<open>
  The contract under which the accounting of one kind of resource is meaningful: no call both
  acquires and releases it. Its client lemmas give the effect of the call patterns that the
  components use (neutral calls, acquire then release).
\<close>

locale accounting =
  fixes gain :: "'e \<Rightarrow> 'r multiset" and lose :: "'e \<Rightarrow> 'r multiset"
  assumes one_way: "gain e = {#} \<or> lose e = {#}"
begin

lemma live_neutral: "gain e = {#} \<Longrightarrow> lose e = {#} \<Longrightarrow> live gain lose (e # h) = live gain lose h"
  by simp

lemma live_acquire: "gain e = {#r#} \<Longrightarrow> live gain lose (e # h) = add_mset r (live gain lose h)"
  using one_way [of e] by simp

lemma live_release:
  "lose e = {#r#} \<Longrightarrow> live gain lose h = add_mset r m \<Longrightarrow> live gain lose (e # h) = m"
  using one_way [of e] by simp

lemma live_neutral_list:
  "(\<And>e. e \<in> set es \<Longrightarrow> gain e = {#} \<and> lose e = {#}) \<Longrightarrow>
   live gain lose (es @ h) = live gain lose h"
  by (induction es) auto

lemma live_paired:
  assumes "gain a = {#r#}" and "lose d = {#r#}"
    and "\<And>e. e \<in> set es \<Longrightarrow> gain e = {#} \<and> lose e = {#}"
  shows "live gain lose (d # es @ a # h) = live gain lose h"
proof -
  have "live gain lose (es @ a # h) = add_mset r (live gain lose h)"
    using assms(1,3) live_acquire live_neutral_list by metis
  with assms(2) show ?thesis by (rule live_release)
qed

end

end
