(* ===== verification/FifoSpec.thy ===== *)
theory FifoSpec
  imports Prelude
begin

text \<open>
  The contract of a bounded first-in first-out queue, as its clients (the UDP worker loops of
  \<^verbatim>\<open>CdrawNet\<close>) rely on it: an invariant, the list of queued elements in order, a capacity, an
  insertion that answers 1 or 0, and a removal that answers a default on the empty queue. \<open>None\<close>
  is an undefined execution, so the laws also promise that no operation runs into one.
  \<open>enq_all\<close> and \<open>deq_n\<close> are the client's runs of operations that the laws are lifted to.
\<close>

primrec enq_all :: "('a \<Rightarrow> 'q \<Rightarrow> (u8 \<times> 'q) option) \<Rightarrow> 'a list \<Rightarrow> 'q \<Rightarrow> 'q option" where
  "enq_all enq [] q = Some q"
| "enq_all enq (x # xs) q = Option.bind (enq x q) (\<lambda>(_, q'). enq_all enq xs q')"

primrec deq_n :: "('q \<Rightarrow> ('a \<times> 'q) option) \<Rightarrow> nat \<Rightarrow> 'q \<Rightarrow> ('a list \<times> 'q) option" where
  "deq_n deq 0 q = Some ([], q)"
| "deq_n deq (Suc n) q =
     Option.bind (deq q) (\<lambda>(x, q'). map_option (\<lambda>(xs, q''). (x # xs, q'')) (deq_n deq n q'))"

locale bounded_fifo =
  fixes inv :: "'q \<Rightarrow> bool"
    and contents :: "'q \<Rightarrow> 'a list"
    and cap :: "'q \<Rightarrow> nat"
    and enq :: "'a \<Rightarrow> 'q \<Rightarrow> (u8 \<times> 'q) option"
    and deq :: "'q \<Rightarrow> ('a \<times> 'q) option"
    and dflt :: 'a
  assumes enq_room: "inv q \<Longrightarrow> length (contents q) < cap q \<Longrightarrow>
      \<exists>q'. enq x q = Some (1, q') \<and> inv q' \<and> contents q' = contents q @ [x] \<and> cap q' = cap q"
    and enq_full: "inv q \<Longrightarrow> length (contents q) = cap q \<Longrightarrow> enq x q = Some (0, q)"
    and deq_some: "inv q \<Longrightarrow> contents q \<noteq> [] \<Longrightarrow>
      \<exists>q'. deq q = Some (hd (contents q), q') \<and> inv q' \<and> contents q' = tl (contents q) \<and> cap q' = cap q"
    and deq_empty: "inv q \<Longrightarrow> contents q = [] \<Longrightarrow> deq q = Some (dflt, q)"
    and within_cap: "inv q \<Longrightarrow> length (contents q) \<le> cap q"
begin

lemma enq_total: "inv q \<Longrightarrow> \<exists>r q'. enq x q = Some (r, q') \<and> inv q' \<and> cap q' = cap q
    \<and> contents q' = take (cap q) (contents q @ [x])
    \<and> r = (if length (contents q) < cap q then 1 else 0)"
proof (cases "length (contents q) < cap q")
  case True
  moreover assume "inv q"
  ultimately obtain q' where "enq x q = Some (1, q')" "inv q'"
    "contents q' = contents q @ [x]" "cap q' = cap q"
    using enq_room by blast
  with True show ?thesis by simp
next
  case False
  moreover assume "inv q"
  ultimately have "length (contents q) = cap q"
    using within_cap [of q] by simp
  with \<open>inv q\<close> show ?thesis by (simp add: enq_full)
qed

lemma enq_all_contents:
  "inv q \<Longrightarrow> \<exists>q'. enq_all enq xs q = Some q' \<and> inv q' \<and> cap q' = cap q
    \<and> contents q' = take (cap q) (contents q @ xs)"
proof (induction xs arbitrary: q)
  case Nil
  then show ?case using within_cap [of q] by simp
next
  case (Cons x xs)
  from enq_total [OF Cons.prems, of x] obtain r q1 where q1: "enq x q = Some (r, q1)" "inv q1"
    "cap q1 = cap q" "contents q1 = take (cap q) (contents q @ [x])" by blast
  from Cons.IH [OF q1(2)] obtain q2 where q2: "enq_all enq xs q1 = Some q2" "inv q2"
    "cap q2 = cap q1" "contents q2 = take (cap q1) (contents q1 @ xs)" by blast
  have "take (cap q) (take (cap q) (contents q @ [x]) @ xs) = take (cap q) (contents q @ x # xs)"
    using within_cap [OF Cons.prems] by (auto simp: min_def take_Cons')
  with q1 q2 show ?case by simp
qed

lemma deq_n_contents:
  "inv q \<Longrightarrow> n \<le> length (contents q) \<Longrightarrow>
   \<exists>q'. deq_n deq n q = Some (take n (contents q), q') \<and> inv q' \<and> cap q' = cap q
     \<and> contents q' = drop n (contents q)"
proof (induction n arbitrary: q)
  case 0
  then show ?case by simp
next
  case (Suc n)
  then have ne: "contents q \<noteq> []" by auto
  from deq_some [OF Suc.prems(1) ne] obtain q1 where q1: "deq q = Some (hd (contents q), q1)"
    "inv q1" "contents q1 = tl (contents q)" "cap q1 = cap q" by blast
  with Suc.prems(2) have "n \<le> length (contents q1)" by simp
  from Suc.IH [OF q1(2) this] obtain q2 where "deq_n deq n q1 = Some (take n (contents q1), q2)"
    "inv q2" "cap q2 = cap q1" "contents q2 = drop n (contents q1)" by blast
  with q1 ne show ?case by (simp add: take_Suc drop_Suc)
qed

lemma fifo_round_trip:
  assumes "inv q" and "contents q = []" and "length xs \<le> cap q"
  shows "\<exists>q1 q2. enq_all enq xs q = Some q1 \<and> deq_n deq (length xs) q1 = Some (xs, q2)
    \<and> inv q2 \<and> contents q2 = []"
proof -
  from enq_all_contents [OF assms(1), of xs] assms(2,3) obtain q1
    where q1: "enq_all enq xs q = Some q1" "inv q1" "contents q1 = xs" by auto
  from deq_n_contents [OF q1(2), of "length xs"] q1(3) obtain q2
    where "deq_n deq (length xs) q1 = Some (xs, q2)" "inv q2" "contents q2 = []" by auto
  with q1 show ?thesis by blast
qed

end

end
