(* ===== verification/CdrawQueue.thy ===== *)
theory CdrawQueue
  imports FifoSpec
begin

text \<open>
  The ring buffer \<^verbatim>\<open>CdrawQueue<T>\<close> of \<^verbatim>\<open>cdrawStruct/queue/CdrawQueue.h\<close>, one definition per
  method, with the mutex left out (theory \<open>QueueThreads\<close> adds it). The record is the class's
  fields; the array access is checked, \<open>None\<close> is an undefined execution or one that never
  returns. \<open>wf_queue\<close> is the representation invariant, \<open>contents\<close> the abstraction to the
  list of queued elements; each method is proved to be the list operation it stands for, and the
  class is an instance of the contract \<open>bounded_fifo\<close>.
\<close>

section \<open>The class and its methods\<close>

record 'a cqueue =
  q_data :: "'a list"
  q_head :: int
  q_tail :: int
  q_capacity :: int
  q_count :: int
  q_id :: u8

text \<open>
  The constructor: \<^verbatim>\<open>new T[size]\<close> throws for a negative size; its elements are whatever the
  allocation holds (\<open>mem\<close>).
\<close>

definition queue_new :: "(nat \<Rightarrow> 'a) \<Rightarrow> int \<Rightarrow> int \<Rightarrow> 'a cqueue option" where
  "queue_new mem size' ident =
     (if size' < 0 then None
      else Some \<lparr>q_data = map mem [0..<nat size'], q_head = 0, q_tail = 0,
                 q_capacity = size', q_count = 0, q_id = word_of_int ident\<rparr>)"

definition isEmpty :: "'a cqueue \<Rightarrow> bool" where
  "isEmpty q \<longleftrightarrow> q_count q = 0"

definition isFull :: "'a cqueue \<Rightarrow> bool" where
  "isFull q \<longleftrightarrow> q_count q = q_capacity q"

definition enqueue :: "'a \<Rightarrow> 'a cqueue \<Rightarrow> (u8 \<times> 'a cqueue) option" where
  "enqueue item q =
     (if isFull q then Some (0, q)
      else do {
        d \<leftarrow> wr (q_data q) (q_tail q) item;
        t \<leftarrow> crem (q_tail q + 1) (q_capacity q);
        Some (1, q\<lparr>q_data := d, q_tail := t, q_count := q_count q + 1\<rparr>)
      })"

text \<open>The three statements that every dequeuing method repeats for one element.\<close>

definition take_front :: "'a cqueue \<Rightarrow> ('a \<times> 'a cqueue) option" where
  "take_front q = do {
     item \<leftarrow> rd (q_data q) (q_head q);
     h \<leftarrow> crem (q_head q + 1) (q_capacity q);
     Some (item, q\<lparr>q_head := h, q_count := q_count q - 1\<rparr>)
   }"

definition dequeueNotBlock :: "'a::zero cqueue \<Rightarrow> ('a \<times> 'a cqueue) option" where
  "dequeueNotBlock q = (if isEmpty q then Some (0, q) else take_front q)"

text \<open>
  The waiting loop holds the lock, so no other method can run and the queue is the same at every
  test: the loop of a call on an empty queue does not end.
\<close>

partial_function (option) wait_nonempty :: "'a cqueue \<Rightarrow> 'a cqueue option" where
  "wait_nonempty q = (if isEmpty q then wait_nonempty q else Some q)"

definition dequeueBlock :: "'a cqueue \<Rightarrow> ('a \<times> 'a cqueue) option" where
  "dequeueBlock q = Option.bind (wait_nonempty q) take_front"

partial_function (option) dequeue_loop :: "'a cqueue \<Rightarrow> 'a list \<Rightarrow> ('a list \<times> 'a cqueue) option" where
  "dequeue_loop q allItem =
     (if isEmpty q then Some (allItem, q)
      else Option.bind (take_front q) (\<lambda>(item, q'). dequeue_loop q' (allItem @ [item])))"

definition dequeueAllNotBlock :: "'a cqueue \<Rightarrow> ('a list \<times> 'a cqueue) option" where
  "dequeueAllNotBlock q = (if isEmpty q then Some ([], q) else dequeue_loop q [])"

definition dequeueAllBlock :: "'a cqueue \<Rightarrow> ('a list \<times> 'a cqueue) option" where
  "dequeueAllBlock q = Option.bind (wait_nonempty q)
     (\<lambda>q'. if isEmpty q' then Some ([], q') else dequeue_loop q' [])"

definition clear :: "'a cqueue \<Rightarrow> 'a cqueue" where
  "clear q = q\<lparr>q_head := 0, q_tail := 0, q_count := 0\<rparr>"

section \<open>Invariant and abstraction\<close>

definition wf_queue :: "'a cqueue \<Rightarrow> bool" where
  "wf_queue q \<longleftrightarrow>
     0 \<le> q_capacity q \<and> int (length (q_data q)) = q_capacity q \<and>
     0 \<le> q_count q \<and> q_count q \<le> q_capacity q \<and>
     0 \<le> q_head q \<and> 0 \<le> q_tail q \<and>
     (if q_capacity q = 0 then q_head q = 0 \<and> q_tail q = 0
      else q_head q < q_capacity q \<and> q_tail q = (q_head q + q_count q) mod q_capacity q)"

definition slot :: "'a cqueue \<Rightarrow> nat \<Rightarrow> nat" where
  "slot q k = nat ((q_head q + int k) mod q_capacity q)"

definition contents :: "'a cqueue \<Rightarrow> 'a list" where
  "contents q = map (\<lambda>k. q_data q ! slot q k) [0..<nat (q_count q)]"

definition qcap :: "'a cqueue \<Rightarrow> nat" where
  "qcap q = nat (q_capacity q)"

lemma length_contents [simp]: "length (contents q) = nat (q_count q)"
  by (simp add: contents_def)

lemma isEmpty_contents: "wf_queue q \<Longrightarrow> isEmpty q \<longleftrightarrow> contents q = []"
  by (auto simp: wf_queue_def isEmpty_def simp flip: length_0_conv)

lemma isFull_contents: "wf_queue q \<Longrightarrow> isFull q \<longleftrightarrow> length (contents q) = qcap q"
  by (auto simp: wf_queue_def isFull_def qcap_def)

lemma slot_bound: "wf_queue q \<Longrightarrow> 0 < q_capacity q \<Longrightarrow> slot q k < length (q_data q)"
  by (simp add: wf_queue_def slot_def nat_less_iff)

text \<open>The slots of a full turn are distinct: a difference below the capacity is no multiple of it.\<close>

lemma slot_inj:
  assumes "0 < q_capacity q" and "j < k" and "int k < int j + q_capacity q"
  shows "slot q j \<noteq> slot q k"
proof
  assume "slot q j = slot q k"
  with assms(1) have "(q_head q + int j) mod q_capacity q = (q_head q + int k) mod q_capacity q"
    by (simp add: slot_def eq_nat_nat_iff)
  then have "q_capacity q dvd (int k - int j)"
    by (metis add_diff_cancel_left mod_eq_dvd_iff)
  with assms(2,3) show False
    by (simp add: zdvd_not_zless)
qed

lemma tail_slot: "wf_queue q \<Longrightarrow> 0 < q_capacity q \<Longrightarrow> nat (q_tail q) = slot q (nat (q_count q))"
  by (simp add: wf_queue_def slot_def)

section \<open>Every method is a list operation\<close>

lemma queue_new_wf:
  assumes "0 \<le> size'"
  shows "\<exists>q. queue_new mem size' ident = Some q \<and> wf_queue q \<and> contents q = [] \<and> qcap q = nat size'"
  using assms by (simp add: queue_new_def wf_queue_def contents_def qcap_def)

lemma mod_succ_add: "((h + 1) mod n + k) mod n = (h + (k + 1)) mod (n :: int)"
  by (metis mod_add_left_eq add.assoc add.commute)

lemma take_front_spec:
  assumes "wf_queue q" and "contents q \<noteq> []"
  shows "\<exists>q'. take_front q = Some (hd (contents q), q') \<and> wf_queue q'
    \<and> contents q' = tl (contents q) \<and> qcap q' = qcap q"
proof -
  let ?h = "(q_head q + 1) mod q_capacity q"
  let ?q' = "q\<lparr>q_head := ?h, q_count := q_count q - 1\<rparr>"
  from assms have pos: "0 < q_count q" "0 < q_capacity q"
    by (auto simp: wf_queue_def simp flip: length_0_conv)
  with assms(1) have head: "0 \<le> q_head q" "q_head q < int (length (q_data q))"
    by (auto simp: wf_queue_def)
  have "take_front q = Some (q_data q ! nat (q_head q), ?q')"
    using head pos by (simp add: take_front_def rd_in crem_pos)
  moreover have "hd (contents q) = q_data q ! nat (q_head q)"
    using pos head assms(1) by (simp add: contents_def hd_map slot_def wf_queue_def)
  moreover have "wf_queue ?q'"
    using assms(1) pos by (auto simp: wf_queue_def mod_succ_add)
  moreover have "contents ?q' = tl (contents q)"
  proof -
    have "slot ?q' k = slot q (Suc k)" for k
      by (simp add: slot_def mod_succ_add add.commute [of 1 "int k"])
    moreover have "nat (q_count q) = Suc (nat (q_count q - 1))"
      using pos by simp
    ultimately show ?thesis
      by (simp add: contents_def map_tl [symmetric] map_upt_Suc del: upt_Suc)
  qed
  ultimately show ?thesis by (simp add: qcap_def)
qed

lemma enqueue_room:
  assumes wf: "wf_queue q" and room: "length (contents q) < qcap q"
  shows "\<exists>q'. enqueue x q = Some (1, q') \<and> wf_queue q' \<and> contents q' = contents q @ [x]
    \<and> qcap q' = qcap q"
proof -
  let ?q' = "q\<lparr>q_data := (q_data q)[nat (q_tail q) := x],
    q_tail := (q_tail q + 1) mod q_capacity q, q_count := q_count q + 1\<rparr>"
  from assms have pos: "0 < q_capacity q" "0 \<le> q_count q" "q_count q < q_capacity q"
    by (auto simp: wf_queue_def qcap_def)
  with wf have tail: "0 \<le> q_tail q" "q_tail q < int (length (q_data q))"
    by (auto simp: wf_queue_def)
  have "enqueue x q = Some (1, ?q')"
    using pos tail by (simp add: enqueue_def isFull_def wr_in crem_pos)
  moreover have "wf_queue ?q'"
    using wf pos by (auto simp: wf_queue_def mod_add_left_eq add.assoc)
  moreover have "contents ?q' = contents q @ [x]"
  proof -
    have other: "q_data ?q' ! slot q k = q_data q ! slot q k" if "k < nat (q_count q)" for k
    proof -
      have "slot q k \<noteq> nat (q_tail q)"
        using slot_inj [of q k "nat (q_count q)"] tail_slot [OF wf] that pos by auto
      then show ?thesis by simp
    qed
    have last: "q_data ?q' ! slot q (nat (q_count q)) = x"
      using tail_slot [OF wf pos(1)] tail by simp
    have "slot ?q' = slot q"
      by (simp add: slot_def fun_eq_iff)
    moreover have "nat (q_count q + 1) = Suc (nat (q_count q))"
      using pos by simp
    ultimately show ?thesis
      using other last by (simp add: contents_def)
  qed
  ultimately show ?thesis by (simp add: qcap_def)
qed

lemma enqueue_full: "wf_queue q \<Longrightarrow> length (contents q) = qcap q \<Longrightarrow> enqueue x q = Some (0, q)"
  using isFull_contents [of q] by (simp add: enqueue_def)

lemma clear_wf: "wf_queue q \<Longrightarrow> wf_queue (clear q) \<and> contents (clear q) = [] \<and> qcap (clear q) = qcap q"
  by (auto simp: wf_queue_def clear_def contents_def qcap_def)

interpretation cq: bounded_fifo wf_queue contents qcap enqueue dequeueNotBlock "0 :: 'a::zero"
proof unfold_locales
  fix q :: "'a cqueue"
  assume wf: "wf_queue q"
  show "length (contents q) \<le> qcap q"
    using wf by (auto simp: wf_queue_def qcap_def)
  show "\<exists>q'. dequeueNotBlock q = Some (hd (contents q), q') \<and> wf_queue q'
    \<and> contents q' = tl (contents q) \<and> qcap q' = qcap q" if "contents q \<noteq> []"
    using take_front_spec [OF wf that] isEmpty_contents [OF wf] that
    by (simp add: dequeueNotBlock_def)
  show "dequeueNotBlock q = Some (0, q)" if "contents q = []"
    using isEmpty_contents [OF wf] that by (simp add: dequeueNotBlock_def)
qed (simp_all add: enqueue_room enqueue_full)

section \<open>The blocking and the draining methods\<close>

lemma wait_nonempty_returns: "\<not> isEmpty q \<Longrightarrow> wait_nonempty q = Some q"
  by (simp add: wait_nonempty.simps)

lemma wait_nonempty_result: "wait_nonempty q = Some q' \<Longrightarrow> \<not> isEmpty q"
proof (rule wait_nonempty.raw_induct [where P = "\<lambda>q q'. \<not> isEmpty q"])
  fix f :: "'a cqueue \<Rightarrow> 'a cqueue option" and q q'
  assume "\<And>q q'. f q = Some q' \<Longrightarrow> \<not> isEmpty q"
    and "(if isEmpty q then f q else Some q) = Some q'"
  then show "\<not> isEmpty q" by (auto split: if_splits)
qed

lemma wait_nonempty_diverges: "isEmpty q \<Longrightarrow> wait_nonempty q = None"
  using wait_nonempty_result by (cases "wait_nonempty q") auto

lemma dequeue_loop_all:
  "wf_queue q \<Longrightarrow> \<exists>q'. dequeue_loop q acc = Some (acc @ contents q, q') \<and> wf_queue q'
     \<and> contents q' = [] \<and> qcap q' = qcap q"
proof (induction "contents q" arbitrary: q acc)
  case Nil
  from Nil(1) isEmpty_contents [OF Nil(2)] have "isEmpty q" by simp
  with Nil show ?case by (simp add: dequeue_loop.simps)
next
  case (Cons x xs)
  from Cons(2) isEmpty_contents [OF Cons(3)] have ne: "\<not> isEmpty q" "contents q \<noteq> []" by auto
  from take_front_spec [OF Cons(3) ne(2)] Cons(2) [symmetric] obtain q1
    where q1: "take_front q = Some (x, q1)" "wf_queue q1" "contents q1 = xs" "qcap q1 = qcap q"
    by auto
  from Cons(1) [OF q1(3) [symmetric] q1(2), of "acc @ [x]"] obtain q2
    where "dequeue_loop q1 (acc @ [x]) = Some ((acc @ [x]) @ contents q1, q2)" "wf_queue q2"
      "contents q2 = []" "qcap q2 = qcap q1" by blast
  with q1 ne Cons(2) [symmetric] show ?case by (subst dequeue_loop.simps) simp
qed

lemma dequeueAllNotBlock_spec:
  assumes "wf_queue q"
  shows "\<exists>q'. dequeueAllNotBlock q = Some (contents q, q') \<and> wf_queue q' \<and> contents q' = []
    \<and> qcap q' = qcap q"
  using dequeue_loop_all [OF assms, of "[]"] isEmpty_contents [OF assms] assms
  by (cases "isEmpty q") (auto simp: dequeueAllNotBlock_def)

lemma dequeueBlock_empty: "wf_queue q \<Longrightarrow> contents q = [] \<Longrightarrow> dequeueBlock q = None"
  using isEmpty_contents [of q] by (simp add: dequeueBlock_def wait_nonempty_diverges)

lemma dequeueBlock_some:
  assumes "wf_queue q" and "contents q \<noteq> []"
  shows "\<exists>q'. dequeueBlock q = Some (hd (contents q), q') \<and> wf_queue q'
    \<and> contents q' = tl (contents q) \<and> qcap q' = qcap q"
  using take_front_spec [OF assms] isEmpty_contents [OF assms(1)] assms(2)
  by (simp add: dequeueBlock_def wait_nonempty_returns)

lemma dequeueAllBlock_spec:
  assumes "wf_queue q"
  shows "if contents q = [] then dequeueAllBlock q = None
    else \<exists>q'. dequeueAllBlock q = Some (contents q, q') \<and> wf_queue q' \<and> contents q' = []
      \<and> qcap q' = qcap q"
  using dequeue_loop_all [OF assms, of "[]"] isEmpty_contents [OF assms]
  by (auto simp: dequeueAllBlock_def wait_nonempty_returns wait_nonempty_diverges)

section \<open>Properties\<close>

text \<open>
  C1: The ring buffer implements a bounded list. On every well-formed queue, whatever the position
  of its head: \<^verbatim>\<open>enqueue\<close> appends and answers 1 while there is room, and answers 0 and changes
  nothing when full; \<^verbatim>\<open>dequeueNotBlock\<close> removes the oldest element, or answers 0 on the empty
  queue; \<^verbatim>\<open>dequeueAllNotBlock\<close> hands out all elements in order and leaves the queue empty;
  \<^verbatim>\<open>clear\<close> empties it. No access is out of the array, and the invariant and the capacity are
  kept.
\<close>

theorem queue_refines_list:
  assumes "wf_queue q"
  shows "\<exists>q1 q2 q3.
      enqueue x q = Some (if length (contents q) < qcap q then 1 else 0, q1)
    \<and> contents q1 = (if length (contents q) < qcap q then contents q @ [x] else contents q)
    \<and> dequeueNotBlock q = Some (if contents q = [] then 0 else hd (contents q), q2)
    \<and> contents q2 = tl (contents q)
    \<and> dequeueAllNotBlock q = Some (contents q, q3) \<and> contents q3 = []
    \<and> contents (clear q) = []
    \<and> (\<forall>q' \<in> {q1, q2, q3, clear q}. wf_queue q' \<and> qcap q' = qcap q)"
proof -
  from cq.enq_total [OF assms, of x] obtain q1 where
    "enqueue x q = Some (if length (contents q) < qcap q then 1 else 0, q1)" "wf_queue q1"
    "qcap q1 = qcap q" "contents q1 = take (qcap q) (contents q @ [x])" by blast
  moreover from this cq.within_cap [OF assms] have
    "contents q1 = (if length (contents q) < qcap q then contents q @ [x] else contents q)"
    by auto
  moreover obtain q2 where "dequeueNotBlock q = Some (if contents q = [] then 0 else hd (contents q), q2)"
    "contents q2 = tl (contents q)" "wf_queue q2" "qcap q2 = qcap q"
    using cq.deq_some [OF assms] cq.deq_empty [OF assms] assms by (cases "contents q = []") auto
  moreover obtain q3 where "dequeueAllNotBlock q = Some (contents q, q3)" "wf_queue q3"
    "contents q3 = []" "qcap q3 = qcap q"
    using dequeueAllNotBlock_spec [OF assms] by blast
  ultimately show ?thesis
    using clear_wf [OF assms] by (intro exI [of _ q1] exI [of _ q2] exI [of _ q3]) simp
qed

text \<open>
  A full queue keeps the oldest elements. Enqueuing any elements one after the other into a
  freshly constructed queue keeps the first \<^verbatim>\<open>size\<close> of them and drops the rest, and dequeuing
  gives them back in the order in which they were enqueued.
\<close>

theorem queue_keeps_oldest:
  assumes "queue_new mem size' ident = Some q" and "n = min (nat size') (length xs)"
  shows "\<exists>q1 q2. enq_all enqueue xs q = Some q1 \<and> contents q1 = take (nat size') xs
    \<and> deq_n dequeueNotBlock n q1 = Some (take (nat size') xs, q2) \<and> isEmpty q2"
proof -
  from assms(1) have q: "wf_queue q" "contents q = []" "qcap q = nat size'"
    using queue_new_wf [of size' mem ident] by (auto simp: queue_new_def split: if_splits)
  from cq.enq_all_contents [OF q(1), of xs] q obtain q1 where q1: "enq_all enqueue xs q = Some q1"
    "wf_queue q1" "contents q1 = take (nat size') xs" by auto
  have "take n xs = take (nat size') xs"
    using assms(2) by (simp add: min_def)
  with cq.deq_n_contents [OF q1(2), of n] q1(3) assms(2) obtain q2 where
    "deq_n dequeueNotBlock n q1 = Some (take (nat size') xs, q2)" "wf_queue q2" "contents q2 = []"
    by auto
  with q1 show ?thesis using isEmpty_contents by blast
qed

text \<open>
  C32: The blocking methods return exactly when the queue is not empty at the call, and then do what
  the non-blocking ones do. On the empty queue their loop tests the same empty queue for ever.
\<close>

theorem blocking_dequeue_returns_iff:
  assumes "wf_queue q"
  shows "(dequeueBlock q \<noteq> None \<longleftrightarrow> contents q \<noteq> []) \<and> (dequeueAllBlock q \<noteq> None \<longleftrightarrow> contents q \<noteq> [])
    \<and> (contents q \<noteq> [] \<longrightarrow> dequeueBlock q = dequeueNotBlock q
          \<and> dequeueAllBlock q = dequeueAllNotBlock q)"
proof (cases "contents q = []")
  case True
  with dequeueBlock_empty [OF assms] dequeueAllBlock_spec [OF assms] show ?thesis by simp
next
  case False
  with isEmpty_contents [OF assms] have "\<not> isEmpty q" by simp
  then have "dequeueBlock q = dequeueNotBlock q" "dequeueAllBlock q = dequeueAllNotBlock q"
    by (simp_all add: dequeueBlock_def dequeueNotBlock_def dequeueAllBlock_def
        dequeueAllNotBlock_def wait_nonempty_returns)
  moreover have "dequeueBlock q \<noteq> None" "dequeueAllBlock q \<noteq> None"
    using dequeueBlock_some [OF assms] dequeueAllBlock_spec [OF assms] False by auto
  ultimately show ?thesis using False by simp
qed

section \<open>Witnesses\<close>

text \<open>A queue of capacity three whose two elements wrap around the end of the array.\<close>

definition q_wrapped :: "int cqueue" where
  "q_wrapped = \<lparr>q_data = [8, 9, 7], q_head = 2, q_tail = 1, q_capacity = 3, q_count = 2, q_id = 0\<rparr>"

lemma q_wrapped_ok: "wf_queue q_wrapped" "contents q_wrapped = [7, 8]"
  by (simp_all add: q_wrapped_def wf_queue_def contents_def slot_def upt_rec)

theorem queue_refines_list_witness:
  "\<exists>q1. enqueue 5 q_wrapped = Some (1, q1) \<and> contents q1 = [7, 8, 5]"
  using queue_refines_list [OF q_wrapped_ok(1), of 5] q_wrapped_ok(2)
  by (auto simp: qcap_def q_wrapped_def)

theorem queue_keeps_oldest_witness:
  "\<exists>q q1 q2. queue_new (\<lambda>_. 0) 2 1 = Some q \<and> enq_all enqueue [4, 5, 6] q = Some q1
    \<and> contents q1 = [4, 5 :: int] \<and> deq_n dequeueNotBlock 2 q1 = Some ([4, 5], q2) \<and> isEmpty q2"
proof -
  obtain q where q: "queue_new (\<lambda>_. 0 :: int) 2 1 = Some q"
    by (simp add: queue_new_def)
  show ?thesis
    using q queue_keeps_oldest [OF q, of 2 "[4, 5, 6]"] by (simp add: eval_nat_numeral)
qed

theorem blocking_dequeue_returns_iff_witness:
  "dequeueBlock q_wrapped = dequeueNotBlock q_wrapped \<and> dequeueBlock q_wrapped \<noteq> None"
  using blocking_dequeue_returns_iff [OF q_wrapped_ok(1)] q_wrapped_ok(2)
  by (metis list.distinct(1))

end
