(* ===== verification/QueueThreads.thy ===== *)
theory QueueThreads
  imports CdrawQueue
begin

text \<open>
  \<^verbatim>\<open>CdrawQueue\<close> as threads share it. The methods that change the queue start with a
  \<^verbatim>\<open>std::lock_guard\<close> on \<^verbatim>\<open>mtx_\<close>, so such a call first waits for the mutex, then runs its body
  holding it, then releases it. The waiting loop of the two blocking methods is inside the guarded
  region: it tests, sleeps and tests again while it holds the mutex. \<^verbatim>\<open>isEmpty\<close> and \<^verbatim>\<open>isFull\<close> are
  public and take no lock: a thread in one of them reads \<^verbatim>\<open>count_\<close> at any time. When another thread is
  about to write \<^verbatim>\<open>count_\<close> at that time there is a data race, and no behaviour is defined from there.

  A step of the system is one thread moving; any number of threads may be anywhere in a call. Two
  ghost fields record the elements accepted, and the elements that left the queue, each with the mark
  whether it was handed out or discarded by \<^verbatim>\<open>clear\<close>.

  Shown: mutual exclusion, first-in first-out order, absence of undefined behaviour other than that
  data race under every interleaving, and that the data race is there; and that a blocking method which
  finds the queue empty blocks every other thread for ever, since nobody can take the mutex it sleeps
  with.
\<close>

datatype 'a qcall =
    Enqueue 'a
  | DequeueNotBlock
  | DequeueBlock
  | DequeueAllNotBlock
  | DequeueAllBlock
  | Clear

datatype 'a tstate = Idle | Waiting "'a qcall" | Inside "'a qcall" | Reading

record 'a qsys =
  sq :: "'a cqueue"
  mtx :: "nat option"
  thr :: "nat \<Rightarrow> 'a tstate"
  ins :: "'a list"
  gone :: "(bool \<times> 'a) list"

fun blocking :: "'a qcall \<Rightarrow> bool" where
  "blocking DequeueBlock = True"
| "blocking DequeueAllBlock = True"
| "blocking _ = False"

fun_cases blockingE: "blocking c"

text \<open>The methods whose body writes \<^verbatim>\<open>count_\<close> in a given state.\<close>

fun writes_count :: "'a qcall \<Rightarrow> 'a cqueue \<Rightarrow> bool" where
  "writes_count (Enqueue x) q \<longleftrightarrow> \<not> isFull q"
| "writes_count Clear q \<longleftrightarrow> True"
| "writes_count _ q \<longleftrightarrow> \<not> isEmpty q"

definition race :: "'a qsys \<Rightarrow> bool" where
  "race s \<longleftrightarrow> (\<exists>i j c. thr s i = Reading \<and> thr s j = Inside c \<and> writes_count c (sq s))"

text \<open>
  The body of a method, with the elements it accepts and the elements that leave: handed out to the
  caller, or discarded.
\<close>

abbreviation handed_out :: "'a list \<Rightarrow> (bool \<times> 'a) list" where
  "handed_out \<equiv> map (Pair True)"

abbreviation discarded :: "'a list \<Rightarrow> (bool \<times> 'a) list" where
  "discarded \<equiv> map (Pair False)"

fun run_call :: "'a::zero qcall \<Rightarrow> 'a cqueue \<Rightarrow> ('a cqueue \<times> 'a list \<times> (bool \<times> 'a) list) option" where
  "run_call (Enqueue x) q = map_option (\<lambda>(r, q'). (q', if r = 1 then [x] else [], [])) (enqueue x q)"
| "run_call DequeueNotBlock q =
     map_option (\<lambda>(x, q'). (q', [], if isEmpty q then [] else handed_out [x])) (dequeueNotBlock q)"
| "run_call DequeueBlock q = map_option (\<lambda>(x, q'). (q', [], handed_out [x])) (dequeueBlock q)"
| "run_call DequeueAllNotBlock q = map_option (\<lambda>(xs, q'). (q', [], handed_out xs)) (dequeueAllNotBlock q)"
| "run_call DequeueAllBlock q = map_option (\<lambda>(xs, q'). (q', [], handed_out xs)) (dequeueAllBlock q)"
| "run_call Clear q = Some (clear q, [], discarded (contents q))"

inductive qstep :: "'a::zero qsys \<Rightarrow> 'a qsys \<Rightarrow> bool" where
  call: "\<not> race s \<Longrightarrow> thr s i = Idle \<Longrightarrow> qstep s (s\<lparr>thr := (thr s)(i := Waiting c)\<rparr>)"
| lock: "\<not> race s \<Longrightarrow> thr s i = Waiting c \<Longrightarrow> mtx s = None \<Longrightarrow>
     qstep s (s\<lparr>mtx := Some i, thr := (thr s)(i := Inside c)\<rparr>)"
| sleep: "\<not> race s \<Longrightarrow> thr s i = Inside c \<Longrightarrow> blocking c \<Longrightarrow> isEmpty (sq s) \<Longrightarrow> qstep s s"
| body: "\<not> race s \<Longrightarrow> thr s i = Inside c \<Longrightarrow> run_call c (sq s) = Some (q', xs, ys) \<Longrightarrow>
     qstep s (s\<lparr>sq := q', mtx := None, thr := (thr s)(i := Idle), ins := ins s @ xs,
       gone := gone s @ ys\<rparr>)"
| look: "\<not> race s \<Longrightarrow> thr s i = Idle \<Longrightarrow> qstep s (s\<lparr>thr := (thr s)(i := Reading)\<rparr>)"
| looked: "\<not> race s \<Longrightarrow> thr s i = Reading \<Longrightarrow> qstep s (s\<lparr>thr := (thr s)(i := Idle)\<rparr>)"

definition sys_init :: "'a cqueue \<Rightarrow> 'a qsys" where
  "sys_init q = \<lparr>sq = q, mtx = None, thr = (\<lambda>_. Idle), ins = [], gone = []\<rparr>"

definition sys_inv :: "nat \<Rightarrow> 'a qsys \<Rightarrow> bool" where
  "sys_inv n s \<longleftrightarrow> wf_queue (sq s) \<and> qcap (sq s) = n \<and>
     (\<forall>i. mtx s = Some i \<longleftrightarrow> (\<exists>c. thr s i = Inside c)) \<and> map snd (gone s) @ contents (sq s) = ins s"

text \<open>
  Every body that is not asleep on the empty queue completes, and keeps the invariant, the
  capacity and the order of the elements.
\<close>

lemma run_call_spec:
  assumes wf: "wf_queue q" and go: "\<not> (blocking c \<and> isEmpty q)"
  shows "\<exists>q' xs ys. run_call c q = Some (q', xs, ys) \<and> wf_queue q' \<and> qcap q' = qcap q
    \<and> contents q @ xs = map snd ys @ contents q'"
proof (cases c)
  case (Enqueue x)
  show ?thesis
    using cq.enq_room [OF wf, of x] cq.enq_full [OF wf, of x] cq.within_cap [OF wf] wf Enqueue
    by (cases "length (contents q) = qcap q") auto
next
  case DequeueNotBlock
  show ?thesis
    using cq.deq_some [OF wf] cq.deq_empty [OF wf] isEmpty_contents [OF wf] wf DequeueNotBlock
    by (cases "isEmpty q") auto
next
  case DequeueBlock
  then show ?thesis
    using go dequeueBlock_some [OF wf] isEmpty_contents [OF wf] by auto
next
  case DequeueAllNotBlock
  then show ?thesis
    using dequeueAllNotBlock_spec [OF wf] by (auto simp: comp_def)
next
  case DequeueAllBlock
  then show ?thesis
    using go dequeueAllBlock_spec [OF wf] isEmpty_contents [OF wf] by (auto simp: comp_def)
next
  case Clear
  then show ?thesis
    using clear_wf [OF wf] by (simp add: comp_def)
qed

lemma run_call_asleep: "wf_queue q \<Longrightarrow> blocking c \<Longrightarrow> isEmpty q \<Longrightarrow> run_call c q = None"
  using dequeueBlock_empty [of q] dequeueAllBlock_spec [of q] isEmpty_contents [of q]
  by (auto elim: blockingE)

lemma sys_inv_init: "wf_queue q \<Longrightarrow> contents q = [] \<Longrightarrow> sys_inv (qcap q) (sys_init q)"
  by (simp add: sys_inv_def sys_init_def)

lemma sys_inv_step: "qstep s t \<Longrightarrow> sys_inv n s \<Longrightarrow> sys_inv n t"
proof (induction rule: qstep.induct)
  case (body s i c q' xs ys)
  then have wf: "wf_queue (sq s)" by (simp add: sys_inv_def)
  have "\<not> (blocking c \<and> isEmpty (sq s))"
    using run_call_asleep [OF wf] body.hyps(3) by auto
  from run_call_spec [OF wf this] body.hyps(3)
  have "wf_queue q'" "qcap q' = qcap (sq s)" "contents (sq s) @ xs = map snd ys @ contents q'" by auto
  moreover have "thr s j = Inside d \<Longrightarrow> j = i" for j d
    using body by (metis option.inject sys_inv_def)
  moreover have "map snd (gone s) @ map snd ys @ contents q' = ins s @ xs"
    using body.prems calculation(3) by (metis append.assoc sys_inv_def)
  ultimately show ?case
    using body.prems by (auto simp: sys_inv_def)
qed (auto simp: sys_inv_def)

lemma sys_inv_steps: "qstep\<^sup>*\<^sup>* s t \<Longrightarrow> sys_inv n s \<Longrightarrow> sys_inv n t"
  by (induction rule: rtranclp_induct) (auto intro: sys_inv_step)

text \<open>A thread asleep in a blocking method on the empty queue: nothing it waits for can happen.\<close>

definition asleep :: "nat \<Rightarrow> 'a qcall \<Rightarrow> 'a cqueue \<Rightarrow> 'a qsys \<Rightarrow> bool" where
  "asleep i c q s \<longleftrightarrow> thr s i = Inside c \<and> blocking c \<and> isEmpty q \<and> sq s = q"

lemma asleep_step: "qstep s t \<Longrightarrow> sys_inv n s \<Longrightarrow> asleep i c q s \<Longrightarrow> asleep i c q t"
proof (induction rule: qstep.induct)
  case (body s j d q' xs ys)
  then have "j = i"
    by (metis asleep_def option.inject sys_inv_def)
  with body have "run_call c q = Some (q', xs, ys)"
    by (auto simp: asleep_def)
  with body.prems run_call_asleep [of q c] show ?case
    by (auto simp: asleep_def sys_inv_def)
qed (auto simp: asleep_def sys_inv_def)

lemma asleep_steps: "qstep\<^sup>*\<^sup>* s t \<Longrightarrow> sys_inv n s \<Longrightarrow> asleep i c q s \<Longrightarrow> asleep i c q t"
proof (induction rule: rtranclp_induct)
  case (step t u)
  then show ?case using asleep_step sys_inv_steps by blast
qed

text \<open>Nobody but a sleeper keeps the mutex from a thread that waits for it.\<close>

lemma no_race: "\<forall>i. thr s i \<noteq> Reading \<Longrightarrow> \<not> race s" "\<forall>j c. thr s j \<noteq> Inside c \<Longrightarrow> \<not> race s"
  by (auto simp: race_def)

lemma waiting_gets_in:
  assumes inv: "sys_inv n s" and wait: "thr s i = Waiting c" and calm: "\<not> race s"
    and awake: "\<forall>j d. \<not> asleep j d (sq s) s"
  shows "\<exists>t. qstep\<^sup>*\<^sup>* s t \<and> thr t i = Inside c"
proof (cases "mtx s")
  case None
  from qstep.lock [OF calm wait None] show ?thesis
    by (intro exI conjI, rule r_into_rtranclp) simp_all
next
  case (Some j)
  with inv obtain d where d: "thr s j = Inside d" and wf: "wf_queue (sq s)" by (auto simp: sys_inv_def)
  with awake have "\<not> (blocking d \<and> isEmpty (sq s))" by (auto simp: asleep_def)
  from run_call_spec [OF wf this] obtain q' xs ys where "run_call d (sq s) = Some (q', xs, ys)" by blast
  from qstep.body [OF calm d this] obtain t where t: "qstep s t" "mtx t = None" "thr t = (thr s)(j := Idle)" by force
  have "\<not> race t"
    using inv sys_inv_step [OF t(1) inv] t(2) by (intro no_race(2)) (auto simp: sys_inv_def)
  moreover have "thr t i = Waiting c" using t(3) wait d by auto
  ultimately have "qstep\<^sup>*\<^sup>* s (t\<lparr>mtx := Some i, thr := (thr t)(i := Inside c)\<rparr>)"
    using t(1) qstep.lock [of t i c] t(2) by (meson r_into_rtranclp rtranclp.rtrancl_into_rtrancl)
  moreover have "thr (t\<lparr>mtx := Some i, thr := (thr t)(i := Inside c)\<rparr>) i = Inside c" by simp
  ultimately show ?thesis by blast
qed


section \<open>Properties\<close>

text \<open>
  Mutual exclusion. In every state that threads reach by calling the methods of one queue, at
  most one thread is inside a guarded region.
\<close>

theorem queue_mutual_exclusion:
  assumes "wf_queue q" and "contents q = []" and "qstep\<^sup>*\<^sup>* (sys_init q) s"
    and "thr s i = Inside c" and "thr s j = Inside d"
  shows "i = j"
proof -
  from assms(1-3) have "sys_inv (qcap q) s"
    using sys_inv_init sys_inv_steps by blast
  with assms(4,5) show ?thesis
    unfolding sys_inv_def by (metis option.inject)
qed

text \<open>
  C2: First-in first-out order under every interleaving. Whatever calls the threads make and however
  they interleave, the elements that left the queue, handed out or discarded by \<^verbatim>\<open>clear\<close>, followed by
  those still queued are exactly the elements accepted, in the order of acceptance; the capacity is
  never exceeded; and a thread inside a guarded region can complete its body, unless it sleeps in a
  blocking method on the empty queue. Such a sleeper, and a data race with \<^verbatim>\<open>isEmpty\<close> or
  \<^verbatim>\<open>isFull\<close>, are the only things that can keep a thread that waits for the mutex from getting it.
\<close>

theorem queue_fifo_interleaved:
  assumes "wf_queue q" and "contents q = []" and "qstep\<^sup>*\<^sup>* (sys_init q) s"
  shows "map snd (gone s) @ contents (sq s) = ins s \<and> length (contents (sq s)) \<le> qcap q
    \<and> (\<forall>i c. thr s i = Inside c \<longrightarrow>
        (blocking c \<and> isEmpty (sq s)) \<or> run_call c (sq s) \<noteq> None)
    \<and> (\<forall>i c. thr s i = Waiting c \<longrightarrow> race s \<or>
        (\<exists>j d. thr s j = Inside d \<and> blocking d \<and> isEmpty (sq s)) \<or> (\<exists>t. qstep\<^sup>*\<^sup>* s t \<and> thr t i = Inside c))"
proof -
  from assms have inv: "sys_inv (qcap q) s"
    using sys_inv_init sys_inv_steps by blast
  then have wf: "wf_queue (sq s)" and "qcap (sq s) = qcap q" by (simp_all add: sys_inv_def)
  moreover from this have "length (contents (sq s)) \<le> qcap q"
    using cq.within_cap [OF wf] by simp
  moreover have "(blocking c \<and> isEmpty (sq s)) \<or> run_call c (sq s) \<noteq> None" for c
    using run_call_spec [OF wf] by fastforce
  moreover have "race s \<or> (\<exists>j d. thr s j = Inside d \<and> blocking d \<and> isEmpty (sq s)) \<or> (\<exists>t. qstep\<^sup>*\<^sup>* s t \<and> thr t i = Inside c)"
    if "thr s i = Waiting c" for i c
    using waiting_gets_in [OF inv that] by (auto simp: asleep_def)
  ultimately show ?thesis
    using inv by (simp add: sys_inv_def)
qed


text \<open>
  C3: A blocking dequeue on the empty queue never returns and stops every other thread. Once a
  thread is inside \<^verbatim>\<open>dequeueBlock\<close> or \<^verbatim>\<open>dequeueAllBlock\<close> with the queue empty, then in every state
  reachable from there it is still inside the same call, the queue is still empty, and nothing has
  been accepted: the sleeping thread holds the mutex that a producer needs.
\<close>

theorem queue_blocking_deadlock:
  assumes "wf_queue q" and "contents q = []" and "qstep\<^sup>*\<^sup>* (sys_init q) s"
    and "thr s i = Inside c" and "blocking c" and "isEmpty (sq s)"
    and "qstep\<^sup>*\<^sup>* s t"
  shows "thr t i = Inside c \<and> isEmpty (sq t) \<and> mtx t = Some i \<and> ins t = map snd (gone t)"
proof -
  from assms have inv: "sys_inv (qcap q) s" and "asleep i c (sq s) s"
    using sys_inv_init sys_inv_steps by (blast, simp add: asleep_def)
  with assms(7) have "asleep i c (sq s) t" and inv': "sys_inv (qcap q) t"
    using asleep_steps sys_inv_steps by (blast, blast)
  then show ?thesis
    using isEmpty_contents [of "sq t"] by (auto simp: asleep_def sys_inv_def)
qed

section \<open>Witnesses\<close>

definition q3 :: "int cqueue" where
  "q3 = \<lparr>q_data = [0, 0, 0], q_head = 0, q_tail = 0, q_capacity = 3, q_count = 0, q_id = 1\<rparr>"

lemma q3_ok: "wf_queue q3" "contents q3 = []" "isEmpty q3"
  by (simp_all add: q3_def wf_queue_def contents_def isEmpty_def)

text \<open>Thread 0 is inside a blocking dequeue of the empty queue, thread 1 waits to enqueue.\<close>

definition stuck :: "int qsys" where
  "stuck = \<lparr>sq = q3, mtx = Some 0,
     thr = (\<lambda>_. Idle)(0 := Inside DequeueBlock, 1 := Waiting (Enqueue 5)), ins = [], gone = []\<rparr>"

lemma stuck_reachable: "qstep\<^sup>*\<^sup>* (sys_init q3) stuck"
proof -
  let ?s1 = "(sys_init q3)\<lparr>thr := (\<lambda>_. Idle)(0 := Waiting DequeueBlock)\<rparr>"
  let ?s2 = "?s1\<lparr>mtx := Some 0, thr := (\<lambda>_. Idle)(0 := Inside DequeueBlock)\<rparr>"
  have calm: "\<not> race (sys_init q3)" "\<not> race ?s1" "\<not> race ?s2"
    by (rule no_race(1), simp add: sys_init_def)+
  have s1: "qstep (sys_init q3) ?s1"
    using qstep.call [OF calm(1), of 0 DequeueBlock] by (simp add: sys_init_def)
  have s2: "qstep ?s1 ?s2"
    using qstep.lock [OF calm(2), of 0 DequeueBlock] by (simp add: sys_init_def)
  have s3: "qstep ?s2 stuck"
    using qstep.call [OF calm(3), of 1 "Enqueue 5"] by (simp add: sys_init_def stuck_def)
  have "qstep\<^sup>*\<^sup>* (sys_init q3) ?s2"
    using r_into_rtranclp [of qstep, OF s1] s2 by (rule rtranclp.rtrancl_into_rtrancl)
  then show ?thesis using s3 by (rule rtranclp.rtrancl_into_rtrancl)
qed

lemma stuck_now: "thr stuck 0 = Inside DequeueBlock" "blocking DequeueBlock" "isEmpty (sq stuck)"
  using q3_ok(3) by (simp_all add: stuck_def)

text \<open>A further step: thread 2 starts a call while thread 0 sleeps.\<close>

definition stuck' :: "int qsys" where
  "stuck' = stuck\<lparr>thr := (thr stuck)(2 := Waiting Clear)\<rparr>"

lemma stuck_continues: "qstep\<^sup>*\<^sup>* stuck stuck'"
proof (rule r_into_rtranclp)
  show "qstep stuck stuck'"
    using qstep.call [of stuck 2 Clear] no_race(1) [of stuck] by (simp add: stuck_def stuck'_def)
qed

theorem queue_mutual_exclusion_witness:
  "{j. \<exists>c. thr stuck j = Inside c} = {0}"
  using queue_mutual_exclusion [OF q3_ok(1,2) stuck_reachable stuck_now(1)] stuck_now(1) by auto

theorem queue_fifo_interleaved_witness:
  "map snd (gone stuck) @ contents (sq stuck) = ins stuck \<and> length (contents (sq stuck)) \<le> qcap q3"
  using queue_fifo_interleaved [OF q3_ok(1,2) stuck_reachable] by blast


theorem queue_blocking_deadlock_witness:
  "thr stuck' 0 = Inside DequeueBlock \<and> isEmpty (sq stuck') \<and> mtx stuck' = Some 0"
  using queue_blocking_deadlock [OF q3_ok(1,2) stuck_reachable stuck_now stuck_continues] by blast

end
