(* ===== verification/CFormat.thy ===== *)
theory CFormat
  imports Prelude
begin

text \<open>
  The conversions of \<^verbatim>\<open>printf\<close> that the sources use: \<^verbatim>\<open>%u\<close> and \<^verbatim>\<open>%d\<close> (decimal),
  \<^verbatim>\<open>%02x\<close> and \<^verbatim>\<open>%08x\<close> (padded hexadecimal), and \<^verbatim>\<open>snprintf\<close> itself, which keeps one
  character less than the size of its buffer and returns the length of the whole text.

  Shown: how long each conversion can be, which is what the callers size their buffers by.
\<close>

definition digit :: "nat \<Rightarrow> char" where
  "digit d = ''0123456789abcdef'' ! d"

function digits :: "nat \<Rightarrow> nat \<Rightarrow> string" where
  "digits base n = (if base < 2 \<or> n < base then [digit n] else digits base (n div base) @ [digit (n mod base)])"
  by auto
termination
  by (relation "measure snd") auto

declare digits.simps [simp del]

definition dec :: "int \<Rightarrow> string" where
  "dec n = (if n < 0 then CHR ''-'' # digits 10 (nat (- n)) else digits 10 (nat n))"

definition hex :: "nat \<Rightarrow> nat \<Rightarrow> string" where
  "hex w n = (let s = digits 16 n in replicate (w - length s) (CHR ''0'') @ s)"

text \<open>The buffer after \<^verbatim>\<open>snprintf(buf, size, ...)\<close> with formatted text \<open>s\<close>, and the result.\<close>

definition snprintf :: "nat \<Rightarrow> string \<Rightarrow> string \<times> nat" where
  "snprintf sz s = (take (sz - 1) s, length s)"

lemma digits_length:
  "2 \<le> base \<Longrightarrow> 0 < k \<Longrightarrow> n < base ^ k \<Longrightarrow> length (digits base n) \<le> k"
proof (induction base n arbitrary: k rule: digits.induct)
  case (1 base n)
  show ?case
  proof (cases "n < base")
    case True
    then show ?thesis using "1.prems" by (simp add: digits.simps)
  next
    case False
    then have "k \<noteq> 1" using "1.prems" by auto
    then obtain k' where k: "k = Suc k'" "0 < k'" using "1.prems" by (cases k) auto
    have "n div base < base ^ k'" using "1.prems" k by (simp add: less_mult_imp_div_less mult.commute)
    with "1.IH" [of k'] False "1.prems" k show ?thesis by (subst digits.simps) simp
  qed
qed

lemma digits_not_Nil [simp]: "digits base n \<noteq> []"
  by (subst digits.simps) simp

text \<open>The digits are those of the number: reading them back gives it.\<close>

definition digit_value :: "char \<Rightarrow> nat" where
  "digit_value c = length (takeWhile (\<lambda>d. d \<noteq> c) ''0123456789abcdef'')"

definition number_of :: "nat \<Rightarrow> string \<Rightarrow> nat" where
  "number_of base s = foldl (\<lambda>n c. n * base + digit_value c) 0 s"

lemma digit_value_digit: "d < 16 \<Longrightarrow> digit_value (digit d) = d"
proof -
  have "\<forall>d \<in> set [0..<16]. digit_value (digit d) = d" by code_simp
  then show "d < 16 \<Longrightarrow> digit_value (digit d) = d" by simp
qed

lemma number_of_digits: "2 \<le> base \<Longrightarrow> base \<le> 16 \<Longrightarrow> number_of base (digits base n) = n"
proof (induction base n rule: digits.induct)
  case (1 base n)
  show ?case
  proof (cases "n < base")
    case True
    with "1.prems" show ?thesis by (simp add: digits.simps number_of_def digit_value_digit)
  next
    case False
    have "n mod base < 16" using "1.prems" by (meson less_le_trans mod_less_divisor zero_less_numeral)
    with False "1.prems" "1.IH" show ?thesis
      by (subst digits.simps) (simp add: number_of_def digit_value_digit div_mult_mod_eq)
  qed
qed

lemma number_of_zeros: "number_of base (replicate k (CHR ''0'') @ s) = number_of base s"
proof -
  have "digit_value (CHR ''0'') = 0" by code_simp
  then have "foldl (\<lambda>n c. n * base + digit_value c) 0 (replicate k (CHR ''0'')) = 0"
    by (induction k) simp_all
  then show ?thesis by (simp add: number_of_def)
qed

lemma number_of_hex: "number_of 16 (hex w n) = n"
  by (simp add: hex_def Let_def number_of_zeros number_of_digits)

lemma hex_length: "n < 16 ^ w \<Longrightarrow> 0 < w \<Longrightarrow> length (hex w n) = w"
  using digits_length [of 16 w n] by (simp add: hex_def Let_def)

lemma dec_length: "0 \<le> n \<Longrightarrow> n < 10 ^ k \<Longrightarrow> 0 < k \<Longrightarrow> length (dec n) \<le> k"
  using digits_length [of 10 k "nat n"] by (simp add: dec_def nat_less_iff)

lemma snprintf_fits: "length s < sz \<Longrightarrow> snprintf sz s = (s, length s)"
  by (simp add: snprintf_def)

lemma snprintf_length: "0 < sz \<Longrightarrow> length (fst (snprintf sz s)) < sz"
  by (auto simp: snprintf_def min_def)

end
