(* ===== verification/CommonTool.thy ===== *)
theory CommonTool
  imports CFormat
begin

text \<open>
  The helpers of \<^verbatim>\<open>cdrawTools/common/CommonTool.h\<close>: the checksum, the assertion macro and the
  progress bar, whose terminal line is the result of the function. The data pointer is a block of
  bytes, \<open>None\<close> an access outside of it. Shown: the checksum is the byte sum modulo 256 over
  exactly the half-open range, it is defined exactly when the range lies in the block, and it
  detects every change of a single byte of the range; a checksum kept in a wider type than a byte
  matches only if it is itself below 256. The progress bar has 70 cells for every value from 0 to 1.
\<close>

definition get_check_sum_uint8 :: "u8 list \<Rightarrow> u32 \<Rightarrow> u32 \<Rightarrow> u8 option" where
  "get_check_sum_uint8 data start end' =
     foldM (\<lambda>i sum. map_option (\<lambda>x. sum + x) (rd data (int i))) [unat start..<unat end'] 0"

text \<open>The template's type parameter is the width of \<open>original_sum\<close>.\<close>

definition cmp_check_sum :: "'w::len word \<Rightarrow> u8 list \<Rightarrow> u32 \<Rightarrow> u32 \<Rightarrow> bool option" where
  "cmp_check_sum original_sum data start end' =
     map_option (\<lambda>sum. original_sum = ucast sum) (get_check_sum_uint8 data start end')"

text \<open>The macro \<^verbatim>\<open>CDRAW_ASSERT\<close>: a failed assertion stays in an empty loop.\<close>

partial_function (option) spin :: "unit \<Rightarrow> unit option" where
  "spin u = spin u"

definition CDRAW_ASSERT :: "bool \<Rightarrow> unit option" where
  "CDRAW_ASSERT expr = (if \<not> expr then spin () else Some ())"

lemma spin_result: "spin u = Some x \<Longrightarrow> False"
  by (rule spin.raw_induct [where P = "\<lambda>u x. False"]) auto

lemma spin_None: "spin u = None"
  using spin_result by (cases "spin u") auto

text \<open>An assertion is passed exactly when it holds.\<close>

lemma assert_passes: "CDRAW_ASSERT expr = Some () \<longleftrightarrow> expr"
  by (simp add: CDRAW_ASSERT_def spin_None)

text \<open>
  The progress bar. A finite \<^verbatim>\<open>float\<close> is \<open>m * 2 ^ e\<close>, where \<open>m\<close> has at most 24 bits. The product with
  the \<^verbatim>\<open>int\<close> 70 is rounded to 24 bits, to the nearest and in a tie to the even value, which is
  \<open>float_round\<close> on its magnitude; the product with the \<^verbatim>\<open>double\<close> 100.0 is exact. A conversion to
  \<^verbatim>\<open>int\<close> cuts towards zero and is undefined when the result is out of range.
\<close>

definition float_round :: "nat \<Rightarrow> nat" where
  "float_round n =
     (let ulp = 2 ^ (length (digits 2 n) - 24); q = n div ulp; r = n mod ulp
      in (if 2 * r > ulp \<or> 2 * r = ulp \<and> odd q then q + 1 else q) * ulp)"

definition to_int :: "int \<Rightarrow> int \<Rightarrow> int option" where
  "to_int m e =
     (let n = sgn m * (if 0 \<le> e then \<bar>m\<bar> * 2 ^ nat e else \<bar>m\<bar> div 2 ^ nat (- e))
      in if in_i32 n then Some n else None)"

definition printProgress :: "int \<Rightarrow> int \<Rightarrow> string option" where
  "printProgress m e =
     (let barWidth = 70
      in do {
        pos \<leftarrow> to_int (sgn m * int (float_round (nat (barWidth * \<bar>m\<bar>)))) e;
        let bar = map (\<lambda>i. if i < pos then CHR ''='' else if i = pos then CHR ''>'' else CHR '' '') [0..barWidth - 1];
        percent \<leftarrow> to_int (m * 100) e;
        Some (''['' @ bar @ ''] '' @ dec percent @ '' %'' @ [CHR 0x0D])
      })"

section \<open>The checksum loop\<close>

lemma check_sum_loop:
  "n \<le> length data \<Longrightarrow>
   foldM (\<lambda>i sum. map_option (\<lambda>x. sum + x) (rd data (int i))) [m..<n] (s :: u8)
     = Some (s + (\<Sum>i\<leftarrow>[m..<n]. data ! i))"
proof (induction n)
  case (Suc n)
  then show ?case
    by (cases "m \<le> n") (simp_all add: foldM_append rd_in add.assoc)
qed simp

lemma check_sum_in:
  "unat end' \<le> length data \<Longrightarrow>
   get_check_sum_uint8 data start end' = Some (\<Sum>i\<leftarrow>[unat start..<unat end']. data ! i)"
  by (simp add: get_check_sum_uint8_def check_sum_loop)

lemma check_sum_out:
  assumes "start < end'" and "length data < unat end'"
  shows "get_check_sum_uint8 data start end' = None"
proof -
  have "unat end' - 1 \<in> set [unat start..<unat end']"
    using assms by (simp add: word_less_nat_alt)
  moreover have "rd data (int (unat end' - 1)) = None"
  proof (intro rd_out disjI2)
    have "length data \<le> unat end' - 1" using assms(2) by arith
    then show "int (length data) \<le> int (unat end' - 1)" by (simp only: of_nat_le_iff)
  qed
  ultimately show ?thesis
    unfolding get_check_sum_uint8_def by (intro foldM_None_at) auto
qed

lemma unat_sum_list: "unat (sum_list xs :: 'w::len word) = (\<Sum>x\<leftarrow>xs. unat x) mod 2 ^ LENGTH('w)"
proof (induction xs)
  case (Cons x xs)
  then show ?case by (simp add: unat_word_ariths(1) mod_simps)
qed simp

lemma sum_list_update_word:
  "k < length xs \<Longrightarrow> sum_list (xs[k := v]) = sum_list xs - xs ! k + (v :: 'w::len word)"
  by (induction xs arbitrary: k) (auto simp: algebra_simps split: nat.split)

lemma ucast_u8_inj:
  assumes "8 \<le> LENGTH('w::len)" and "ucast (a :: u8) = (ucast b :: 'w word)"
  shows "a = b"
proof -
  have "unat (ucast c :: 'w word) = unat c" for c :: u8
  proof -
    have "unat c < 2 ^ 8" using unsigned_less [of c] by simp
    also have "(2 :: nat) ^ 8 \<le> 2 ^ LENGTH('w)" using assms(1) by (intro power_increasing) auto
    finally show ?thesis by (simp add: unsigned_ucast_eq take_bit_nat_eq_self)
  qed
  with assms(2) show ?thesis by (metis word_unat_eq_iff)
qed

lemma range_as_take_drop:
  "n \<le> length data \<Longrightarrow> map ((!) data) [m..<n] = drop m (take n data)"
  by (rule nth_equalityI) auto

section \<open>The progress bar\<close>

lemma float_round_exact: "2 ^ (length (digits 2 n) - 24) dvd n \<Longrightarrow> float_round n = n"
  by (auto simp: float_round_def Let_def)

lemma float_round_error:
  assumes "n < 2 ^ 31"
  shows "n \<le> float_round n + 64" and "float_round n \<le> n + 64"
proof -
  define u :: nat where "u = 2 ^ (length (digits 2 n) - 24)"
  have "length (digits 2 n) \<le> 31" using assms by (intro digits_length) simp_all
  then have "u \<le> 2 ^ 7" unfolding u_def by (intro power_increasing) simp_all
  then have u: "u \<le> 128" by simp
  have "0 < u" by (simp add: u_def)
  then have r: "n mod u < u" by simp
  have n: "n = n div u * u + n mod u" by simp
  have "float_round n = n div u * u \<and> 2 * (n mod u) \<le> u \<or> float_round n = n div u * u + u \<and> u \<le> 2 * (n mod u)"
    by (simp add: float_round_def Let_def u_def [symmetric])
  then show "n \<le> float_round n + 64" "float_round n \<le> n + 64"
    using u r n by linarith+
qed


lemma bar_cells:
  "map (\<lambda>i. if i < int n then a else if i = int n then b else c) [0..69]
     = take 70 (replicate n a @ b # replicate (69 - n) c)"
  by (rule nth_equalityI) (auto simp: nth_append nth_Cons')

lemma float_round_power: "float_round (70 * 2 ^ k) = 70 * 2 ^ k"
proof (rule float_round_exact)
  have "(70 * 2 ^ k :: nat) < 2 ^ (k + 7)" by (simp add: power_add)
  then have "length (digits 2 (70 * 2 ^ k)) - 24 \<le> k"
    using digits_length [of 2 "k + 7" "70 * 2 ^ k"] by simp
  then show "2 ^ (length (digits 2 (70 * 2 ^ k)) - 24) dvd (70 * 2 ^ k :: nat)"
    by (intro dvd_mult le_imp_power_dvd)
qed

lemma to_int_nonneg: "n div 2 ^ k < 2 ^ 31 \<Longrightarrow> to_int (int n) (- int k) = Some (int (n div 2 ^ k))"
proof -
  assume a: "n div 2 ^ k < 2 ^ 31"
  have d: "int n div 2 ^ k = int (n div 2 ^ k)" by (simp add: zdiv_int)
  have "int (n div 2 ^ k) < 2 ^ 31" using a by (simp flip: of_nat_less_iff)
  with d show ?thesis by (cases "n = 0"; cases "k = 0") (auto simp: to_int_def in_i32_def Let_def)
qed

section \<open>Properties\<close>

text \<open>
  The checksum is the sum of the bytes of the half-open range, modulo 256, and it is computed
  without reading outside of the data exactly when the range is empty or ends within the data.
\<close>

theorem check_sum_is_byte_sum:
  "get_check_sum_uint8 data start end' =
     (if end' \<le> start then Some 0
      else if length data < unat end' then None
      else Some (word_of_nat ((\<Sum>x\<leftarrow>drop (unat start) (take (unat end') data). unat x) mod 256)))"
proof (cases "end' \<le> start")
  case True
  then show ?thesis by (simp add: get_check_sum_uint8_def word_le_nat_alt)
next
  case False
  have "sum_list xs = word_of_nat ((\<Sum>x\<leftarrow>xs. unat x) mod 256)" for xs :: "u8 list"
  proof -
    have "sum_list xs = word_of_nat (unat (sum_list xs))" by simp
    then show ?thesis by (simp only: unat_sum_list) simp
  qed
  then show ?thesis
    using False check_sum_in [of end' data start] check_sum_out [of start end' data]
    by (auto simp: range_as_take_drop)
qed

text \<open>
  C33: The checksum comparison detects every change of one byte in the range: if the data had the
  recorded checksum and one byte of the range is replaced by another value, the comparison with
  the recorded checksum answers false, for every type the checksum is kept in.
\<close>

theorem check_sum_detects_one_byte:
  fixes original_sum :: "'w::len word"
  assumes "8 \<le> LENGTH('w)"
    and "cmp_check_sum original_sum data start end' = Some True"
    and "unat start \<le> k" and "k < unat end'" and "v \<noteq> data ! k"
  shows "cmp_check_sum original_sum (data[k := v]) start end' = Some False"
proof -
  have "start < end'" using assms(3,4) by (simp add: word_less_nat_alt)
  with assms(2) check_sum_out [of start end' data] have len: "unat end' \<le> length data"
    by (force simp: cmp_check_sum_def)
  let ?r = "drop (unat start) (take (unat end') data)"
  have upd: "drop (unat start) (take (unat end') (data[k := v])) = ?r[k - unat start := v]"
    using assms(3,4) by (simp add: take_update_swap drop_update_swap)
  have "?r ! (k - unat start) = data ! k"
    using assms(3,4) len by simp
  then have "sum_list (?r[k - unat start := v]) \<noteq> sum_list ?r"
    using assms(3-5) len by (simp add: sum_list_update_word)
  moreover have "original_sum = ucast (sum_list ?r)"
    using assms(2) len by (simp add: cmp_check_sum_def check_sum_in range_as_take_drop)
  ultimately show ?thesis
    using ucast_u8_inj [OF assms(1)] len upd by (auto simp: cmp_check_sum_def check_sum_in range_as_take_drop)
qed

text \<open>
  The progress bar. For every \<^verbatim>\<open>float\<close> between 0 and 1 the conversions are defined and the line has
  70 cells between its brackets: first \<open>n\<close> bars, as many as the rounded product with 70 says, then
  the head and blanks, where the bar is full, without a head, for the value 1 only; and the
  percentage is cut down to an integer.
\<close>

theorem progress_bar:
  assumes "m \<le> 2 ^ k" and "m < 2 ^ 24"
  shows "\<exists>n \<le> 70. (n = 70 \<longleftrightarrow> m = 2 ^ k) \<and> n * 2 ^ k \<le> 70 * m + 64 \<and> 70 * m < (n + 1) * 2 ^ k + 64
    \<and> printProgress (int m) (- int k) = Some (''['' @ take 70 (replicate n (CHR ''='') @ CHR ''>'' # replicate (69 - n) (CHR '' ''))
         @ ''] '' @ dec (int (100 * m div 2 ^ k)) @ '' %'' @ [CHR 0x0D])"
proof -
  define r where "r = float_round (70 * m)"
  define n where "n = r div 2 ^ k"
  have "70 * m < 2 ^ 31" using assms(2) by simp
  then have r: "70 * m \<le> r + 64" "r \<le> 70 * m + 64"
    using float_round_error [of "70 * m"] by (simp_all add: r_def)
  have n: "n * 2 ^ k \<le> r" "r < (n + 1) * 2 ^ k"
    by (simp_all add: n_def dividend_less_div_times)
  have full: "n = 70" if "m = 2 ^ k"
    using that float_round_power [of k] by (simp add: n_def r_def)
  have part: "n < 70" if "m \<noteq> 2 ^ k"
  proof -
    have "m + 1 \<le> 2 ^ k" using that assms(1) by simp
    then have "70 * m + 64 < 70 * 2 ^ k" by linarith
    then show ?thesis using r(2) by (simp add: n_def div_less_iff_less_mult)
  qed
  have pct: "100 * m div 2 ^ k \<le> 100"
    using assms(1) by (simp add: div_le_mono [of "100 * m" "100 * 2 ^ k" "2 ^ k", simplified])
  have "sgn (int m) * int r = int r"
    by (cases "m = 0") (simp_all add: r_def float_round_def Let_def)
  moreover have "to_int (int r) (- int k) = Some (int n)"
    unfolding n_def using full part by (intro to_int_nonneg) (cases "m = 2 ^ k"; simp add: n_def)
  moreover have "nat (70 * \<bar>int m\<bar>) = 70 * m" by simp
  ultimately have pos: "to_int (sgn (int m) * int (float_round (nat (70 * \<bar>int m\<bar>)))) (- int k) = Some (int n)"
    by (simp only: r_def)
  have percent: "to_int (int m * 100) (- int k) = Some (int (100 * m div 2 ^ k))"
    using to_int_nonneg [of "100 * m" k] pct by (simp add: mult.commute)
  have "printProgress (int m) (- int k) = Some (''['' @ take 70 (replicate n (CHR ''='') @ CHR ''>'' # replicate (69 - n) (CHR '' ''))
         @ ''] '' @ dec (int (100 * m div 2 ^ k)) @ '' %'' @ [CHR 0x0D])"
    unfolding printProgress_def Let_def pos percent by (simp add: bar_cells)
  then show ?thesis
    using full part r n by (intro exI [of _ n]) (cases "m = 2 ^ k"; auto)
qed

section \<open>Witnesses\<close>

theorem check_sum_detects_one_byte_witness:
  "cmp_check_sum (0x2C :: u16) [1, 200, 100, 255] 1 3 = Some True
   \<and> cmp_check_sum (0x2C :: u16) ([1, 200, 100, 255][2 := 101]) 1 3 = Some False"
proof -
  have "cmp_check_sum (0x2C :: u16) [1, 200, 100, 255] 1 3 = Some True"
    by code_simp
  then show ?thesis
    using check_sum_detects_one_byte [of "0x2C :: u16" "[1, 200, 100, 255]" 1 3 2 101] by simp
qed

theorem progress_bar_witness:
  "\<exists>n \<le> 70. (n = 70 \<longleftrightarrow> False) \<and> n * 8 \<le> 414
     \<and> printProgress 5 (- 3) = Some (''['' @ take 70 (replicate n (CHR ''='') @ CHR ''>'' # replicate (69 - n) (CHR '' ''))
         @ ''] '' @ dec 62 @ '' %'' @ [CHR 0x0D])"
proof -
  from progress_bar [of 5 3] obtain n where "n \<le> 70" "n = 70 \<longleftrightarrow> 5 = (2 :: nat) ^ 3" "n * 2 ^ 3 \<le> 70 * 5 + 64"
    "printProgress (int 5) (- int 3) = Some (''['' @ take 70 (replicate n (CHR ''='') @ CHR ''>'' # replicate (69 - n) (CHR '' ''))
         @ ''] '' @ dec (int (100 * 5 div 2 ^ 3)) @ '' %'' @ [CHR 0x0D])" by auto
  then show ?thesis by (intro exI [of _ n]) simp
qed

end
