(* ===== verification/CdrawTime.thy ===== *)
theory CdrawTime
  imports Prelude
begin

text \<open>
  The stopwatch \<^verbatim>\<open>CdrawTime\<close> of \<^verbatim>\<open>cdrawTools/runTime\<close>. Time points are nanoseconds since the
  epoch; the reading of \<^verbatim>\<open>std::chrono::system_clock\<close> at the call is the argument \<open>now\<close>, and a
  default-constructed time point is the epoch. Results are milliseconds, truncated towards zero as
  \<^verbatim>\<open>duration_cast\<close> does. The \<^verbatim>\<open>print\<close> flag only selects logging and is left out.
\<close>

record ctime =
  current_time :: int
  last_time :: int

definition to_ms :: "int \<Rightarrow> int" where
  "to_ms ns = the (cdiv ns 1000000)"

definition time_new :: "int \<Rightarrow> ctime" where
  "time_new now = \<lparr>current_time = now, last_time = 0\<rparr>"

definition getCurrentTime :: "bool \<Rightarrow> bool \<Rightarrow> int \<Rightarrow> ctime \<Rightarrow> int \<times> ctime" where
  "getCurrentTime updateNow updateLast now t =
     (let t1 = (if updateLast then t\<lparr>last_time := current_time t\<rparr> else t);
          t2 = (if updateNow then t1\<lparr>current_time := now\<rparr> else t1)
      in (to_ms (current_time t2), t2))"

definition getTimeDiff :: "bool \<Rightarrow> bool \<Rightarrow> int \<Rightarrow> ctime \<Rightarrow> int \<times> ctime" where
  "getTimeDiff updateNow updateLast now t =
     (let t1 = (if updateNow then t\<lparr>current_time := now\<rparr> else t);
          tmp_last = last_time t1;
          t2 = (if updateLast then t1\<lparr>last_time := current_time t1\<rparr> else t1)
      in (to_ms (current_time t2 - tmp_last), t2))"

text \<open>A lap loop: one call with the default flags for each clock reading.\<close>

fun laps :: "int list \<Rightarrow> ctime \<Rightarrow> int list \<times> ctime" where
  "laps [] t = ([], t)"
| "laps (now # ns) t =
     (let (d, t1) = getTimeDiff True True now t; (ds, t2) = laps ns t1 in (d # ds, t2))"

lemma to_ms_nonneg: "0 \<le> ns \<Longrightarrow> to_ms ns = ns div 1000000"
  by (simp add: to_ms_def cdiv_pos)

lemma getTimeDiff_default:
  "getTimeDiff True True now t = (to_ms (now - last_time t), \<lparr>current_time = now, last_time = now\<rparr>)"
  by (simp add: getTimeDiff_def)

lemma lap_step:
  fixes s d n total now t0 :: int
  assumes "1000000 * s \<le> total - now" and "total - now \<le> 1000000 * s + 999999 * n"
    and "1000000 * d \<le> now - t0" and "now - t0 \<le> 1000000 * d + 999999"
  shows "1000000 * (d + s) \<le> total - t0 \<and> total - t0 \<le> 1000000 * (d + s) + 999999 * (n + 1)"
  using assms unfolding distrib_left by auto

lemma laps_drift:
  assumes "sorted (last_time t # ns)"
  shows "let total = last (last_time t # ns) - last_time t; ms = sum_list (fst (laps ns t))
    in 1000000 * ms \<le> total \<and> total \<le> 1000000 * ms + 999999 * int (length ns)"
  using assms
proof (induction ns arbitrary: t)
  case (Cons now ns)
  let ?t = "\<lparr>current_time = now, last_time = now\<rparr>"
  from Cons.prems have step: "0 \<le> now - last_time t" and "sorted (last_time ?t # ns)" by auto
  from Cons.IH [OF this(2)] have IH: "1000000 * sum_list (fst (laps ns ?t)) \<le> last (now # ns) - now"
    "last (now # ns) - now \<le> 1000000 * sum_list (fst (laps ns ?t)) + 999999 * int (length ns)"
    by (simp_all add: Let_def)
  define d where "d = (now - last_time t) div 1000000"
  have d: "1000000 * d \<le> now - last_time t" "now - last_time t \<le> 1000000 * d + 999999"
    using mult_div_mod_eq [of 1000000 "now - last_time t"] pos_mod_bound [of 1000000 "now - last_time t"]
      pos_mod_sign [of 1000000 "now - last_time t"] unfolding d_def by linarith+
  have sum: "sum_list (fst (laps (now # ns) t)) = d + sum_list (fst (laps ns ?t))"
    using step by (simp add: getTimeDiff_default to_ms_nonneg d_def Let_def split: prod.split)
  have "last (last_time t # now # ns) = last (now # ns)" "int (length (now # ns)) = int (length ns) + 1"
    by simp_all
  then show ?case
    unfolding Let_def sum by (simp only:) (rule lap_step [OF IH d])
qed simp

section \<open>Properties\<close>

text \<open>
  C34: Lap times do not accumulate errors beyond truncation. Calling \<^verbatim>\<open>getTimeDiff\<close> with its default
  flags at a nondecreasing sequence of clock readings, the milliseconds returned add up to the time
  elapsed between the first and the last reading, less than one millisecond per call being lost to
  truncation and none gained.
\<close>

theorem lap_times_add_up:
  assumes "sorted (now # ns)"
  shows "let t = snd (getTimeDiff True True now t0); elapsed = last (now # ns) - now;
      ms = sum_list (fst (laps ns t))
    in 1000000 * ms \<le> elapsed \<and> elapsed \<le> 1000000 * ms + 999999 * int (length ns)"
  using laps_drift [of "snd (getTimeDiff True True now t0)" ns] assms
  by (simp add: getTimeDiff_default)

text \<open>
  The first difference of a fresh stopwatch is not a difference: the constructor reads the
  clock into \<^verbatim>\<open>current_time_\<close> only and \<^verbatim>\<open>last_time_\<close> is the epoch, so the first call of
  \<^verbatim>\<open>getTimeDiff\<close> returns the milliseconds since the epoch, while a call of \<^verbatim>\<open>getCurrentTime\<close>
  before it makes it the time since construction.
\<close>

theorem first_time_diff:
  "fst (getTimeDiff True True now (time_new start)) = to_ms now
   \<and> fst (getTimeDiff True True now (snd (getCurrentTime True True mid (time_new start))))
       = to_ms (now - start)"
  by (simp add: getTimeDiff_def getCurrentTime_def time_new_def Let_def)

section \<open>Witnesses\<close>

theorem lap_times_add_up_witness:
  "fst (laps [3500000, 6100000] (snd (getTimeDiff True True 1000000 (time_new 0)))) = [2, 2]
   \<and> 1000000 * (4 :: int) \<le> 6100000 - 1000000"
  using lap_times_add_up [of 1000000 "[3500000, 6100000]" "time_new 0"]
  by (simp add: getTimeDiff_default to_ms_nonneg)

end
