(* ===== verification/Canvas.thy ===== *)
theory Canvas
  imports Prelude
begin

text \<open>
  What a drawing loop does to a block of pixels. A painting is a partial map from cells to the
  values written there; \<open>overlay\<close> applies it to a block, and \<open>paints f g n\<close> says that on every
  block of \<open>n\<close> cells the step \<open>f\<close> is defined and has the effect of the painting \<open>g\<close>. Sequencing
  is map addition, a loop is described by the cells some iteration writes (\<open>paints_foldM\<close>), and a
  loop nest over the rows and columns of an image whose body writes its own cell only by the value
  of each pixel (\<open>paints_grid\<close>).
\<close>

definition chk32 :: "int \<Rightarrow> int option" where
  "chk32 n = (if in_i32 n then Some n else None)"

text \<open>A write at an index computed in \<^verbatim>\<open>int\<close>: undefined when the computation overflows.\<close>

definition wr_at :: "'a list \<Rightarrow> int \<Rightarrow> 'a \<Rightarrow> 'a list option" where
  "wr_at b n v = Option.bind (chk32 n) (\<lambda>i. wr b i v)"

definition rd_at :: "'a list \<Rightarrow> int \<Rightarrow> 'a option" where
  "rd_at b n = Option.bind (chk32 n) (rd b)"

definition overlay :: "(nat \<rightharpoonup> 'a) \<Rightarrow> 'a list \<Rightarrow> 'a list" where
  "overlay g b = map (\<lambda>k. case g k of None \<Rightarrow> b ! k | Some v \<Rightarrow> v) [0..<length b]"

definition paints :: "('a list \<Rightarrow> 'a list option) \<Rightarrow> (nat \<rightharpoonup> 'a) \<Rightarrow> nat \<Rightarrow> bool" where
  "paints f g n \<longleftrightarrow> (\<forall>b. length b = n \<longrightarrow> f b = Some (overlay g b))"

lemma length_overlay [simp]: "length (overlay g b) = length b"
  by (simp add: overlay_def)

lemma nth_overlay [simp]:
  "k < length b \<Longrightarrow> overlay g b ! k = (case g k of None \<Rightarrow> b ! k | Some v \<Rightarrow> v)"
  by (auto simp: overlay_def split: option.split)

lemma overlay_cong: "(\<And>k. k < length b \<Longrightarrow> g k = h k) \<Longrightarrow> overlay g b = overlay h b"
  by (auto intro: nth_equalityI)

lemma overlay_empty [simp]: "overlay Map.empty b = b"
  by (auto intro: nth_equalityI)

lemma overlay_overlay: "overlay h (overlay g b) = overlay (g ++ h) b"
  by (rule nth_equalityI) (auto simp: map_add_def split: option.split)

lemma overlay_single: "k < length b \<Longrightarrow> overlay [k \<mapsto> v] b = b[k := v]"
  by (rule nth_equalityI) (auto simp: nth_list_update)

lemma paintsD: "paints f g n \<Longrightarrow> length b = n \<Longrightarrow> f b = Some (overlay g b)"
  by (simp add: paints_def)

lemma paints_cong: "paints f g n \<Longrightarrow> (\<And>k. k < n \<Longrightarrow> g k = h k) \<Longrightarrow> paints f h n"
  unfolding paints_def by (metis overlay_cong)

lemma paints_skip: "paints Some Map.empty n"
  by (simp add: paints_def)

lemma paints_skip': "paints (\<lambda>b. Some b) Map.empty n"
  by (simp add: paints_def)

lemma paints_wr_at:
  "0 \<le> i \<Longrightarrow> i < int n \<Longrightarrow> n \<le> 2 ^ 31 \<Longrightarrow> paints (\<lambda>b. wr_at b i v) [nat i \<mapsto> v] n"
  by (auto simp: paints_def wr_at_def chk32_def in_i32_def wr_in overlay_single nat_less_iff)

lemma paints_bind:
  "paints f g n \<Longrightarrow> paints f' g' n \<Longrightarrow> paints (\<lambda>b. Option.bind (f b) f') (g ++ g') n"
  by (simp add: paints_def overlay_overlay)

lemma paints_if:
  "(c \<Longrightarrow> paints f g n) \<Longrightarrow> (\<not> c \<Longrightarrow> paints f' g' n) \<Longrightarrow>
   paints (\<lambda>b. if c then f b else f' b) (if c then g else g') n"
  by (simp add: paints_def)

text \<open>
  A loop: the painting whose cells are those written by some iteration. That \<open>h\<close> is a map says
  that iterations which write the same cell write the same value.
\<close>

lemma paints_foldM:
  assumes "\<And>x. x \<in> set xs \<Longrightarrow> paints (f x) (g x) n"
    and "\<And>k v. k < n \<Longrightarrow> h k = Some v \<longleftrightarrow> (\<exists>x \<in> set xs. g x k = Some v)"
  shows "paints (foldM f xs) h n"
  using assms
proof (induction xs arbitrary: h)
  case Nil
  then have none: "h k = None" if "k < n" for k
    using that by (cases "h k") auto
  have "paints Some h n"
    by (rule paints_cong [OF paints_skip]) (simp add: none)
  then show ?case by (simp add: paints_def)
next
  case (Cons x xs)
  define h' where "h' k = (if \<exists>y \<in> set xs. g y k \<noteq> None then h k else None)" for k
  have iff: "h' k = Some v \<longleftrightarrow> (\<exists>y \<in> set xs. g y k = Some v)" if "k < n" for k v
    using Cons.prems(2) [OF that] unfolding h'_def by (auto, metis option.inject)
  have "paints (foldM f xs) h' n"
    using Cons.prems(1) iff by (intro Cons.IH) auto
  moreover have "paints (f x) (g x) n" using Cons.prems(1) by simp
  ultimately have "paints (\<lambda>b. Option.bind (f x b) (foldM f xs)) (g x ++ h') n"
    by (intro paints_bind)
  moreover have "(g x ++ h') k = h k" if "k < n" for k
  proof (cases "h' k")
    case None
    then have "g y k \<noteq> Some v" if "y \<in> set xs" for y v
      using iff [OF \<open>k < n\<close>] that by auto
    then have "h k = Some v \<longleftrightarrow> g x k = Some v" for v
      using Cons.prems(2) [OF \<open>k < n\<close>] by auto
    then have "h k = g x k" by (metis not_None_eq)
    with None show ?thesis by (simp add: map_add_def)
  next
    case (Some v)
    then have "h k = Some v" by (auto simp: h'_def split: if_splits)
    with Some show ?thesis by (simp add: map_add_def)
  qed
  ultimately show ?case
    unfolding foldM.simps by (rule paints_cong)
qed

lemma paints_for_range:
  assumes "\<And>i. lo \<le> i \<Longrightarrow> i < hi \<Longrightarrow> paints (f i) (g i) n"
    and "\<And>k v. k < n \<Longrightarrow> h k = Some v \<longleftrightarrow> (\<exists>i. lo \<le> i \<and> i < hi \<and> g i k = Some v)"
  shows "paints (for_range lo hi f) h n"
proof -
  have "paints (foldM f [lo..hi - 1]) h n"
    by (rule paints_foldM [where g = g]) (use assms in \<open>auto simp: Bex_def\<close>)
  then show ?thesis by (simp add: paints_def for_range_def)
qed

section \<open>Images in row-major order\<close>

text \<open>The images of the drawing code have less than 2^31 pixels.\<close>

definition image_ok :: "int \<Rightarrow> int \<Rightarrow> bool" where
  "image_ok iw ih \<longleftrightarrow> 0 \<le> iw \<and> 0 \<le> ih \<and> iw < 2 ^ 31 \<and> ih < 2 ^ 31 \<and> iw * ih < 2 ^ 31"

lemma cell_iff:
  assumes "0 \<le> i" and "0 \<le> j" and "j < (w :: int)"
  shows "nat (i * w + j) = k \<longleftrightarrow> int k div w = i \<and> int k mod w = j"
proof
  assume "nat (i * w + j) = k"
  moreover have "0 \<le> i * w" using assms by simp
  ultimately have "int k = i * w + j" using assms(2) by auto
  with assms show "int k div w = i \<and> int k mod w = j" by simp
next
  assume "int k div w = i \<and> int k mod w = j"
  then have "i * w + j = int k" using div_mult_mod_eq [of "int k" w] by simp
  then show "nat (i * w + j) = k" by simp
qed

lemma cell_bound:
  assumes "0 \<le> i" "i < h" and "0 \<le> j" "j < (w :: int)"
  shows "0 \<le> i * w + j \<and> i * w + j < w * h"
proof -
  have "i * w + j < (i + 1) * w" using assms by (simp add: distrib_right)
  also have "\<dots> \<le> h * w" using assms by (intro mult_right_mono) auto
  finally show ?thesis using assms by (simp add: mult.commute)
qed

lemma row_of_cell:
  assumes "int k < w * h" and "0 \<le> (w :: int)" and "0 \<le> h"
  shows "0 < w \<and> 0 \<le> int k div w \<and> int k div w < h \<and> 0 \<le> int k mod w \<and> int k mod w < w"
proof -
  have "w \<noteq> 0" using assms by auto
  then have w: "0 < w" using assms by simp
  moreover have "int k div w < h"
  proof (rule ccontr)
    assume "\<not> int k div w < h"
    with w have "h * w \<le> int k div w * w" by (intro mult_right_mono) auto
    also have "\<dots> \<le> int k" using div_mult_mod_eq [of "int k" w] pos_mod_sign [OF w, of "int k"] by linarith
    finally show False using assms(1) by (simp add: mult.commute)
  qed
  ultimately show ?thesis by (simp add: pos_imp_zdiv_nonneg_iff)
qed

definition pixels :: "int \<Rightarrow> int \<Rightarrow> (int \<Rightarrow> int \<Rightarrow> 'a option) \<Rightarrow> nat \<rightharpoonup> 'a" where
  "pixels w h val k = (if int k < w * h then val (int k div w) (int k mod w) else None)"

definition at_cell :: "nat \<Rightarrow> 'a option \<Rightarrow> nat \<rightharpoonup> 'a" where
  "at_cell c v = (\<lambda>k. if k = c then v else None)"

lemma at_cell_None [simp]: "at_cell c None = Map.empty"
  by (simp add: at_cell_def)

lemma at_cell_Some: "at_cell c (Some v) = [c \<mapsto> v]"
  by (auto simp: at_cell_def)

lemma at_cell_iff:
  "0 \<le> i \<Longrightarrow> 0 \<le> j \<Longrightarrow> j < w \<Longrightarrow>
   at_cell (nat (i * w + j)) v k = (if int k div w = i \<and> int k mod w = j then v else None)"
  using cell_iff [of i j w k] by (auto simp: at_cell_def)

lemma paints_grid:
  assumes body: "\<And>i j. 0 \<le> i \<Longrightarrow> i < h \<Longrightarrow> 0 \<le> j \<Longrightarrow> j < w \<Longrightarrow>
      paints (body i j) (at_cell (nat (i * w + j)) (val i j)) n"
    and "0 \<le> w" and "0 \<le> h" and n: "int n = w * h"
  shows "paints (for_range 0 h (\<lambda>i. for_range 0 w (body i))) (pixels w h val) n"
proof (rule paints_for_range)
  fix i :: int
  assume i: "0 \<le> i" "i < h"
  show "paints (for_range 0 w (body i)) (\<lambda>k. if int k div w = i then val i (int k mod w) else None) n"
  proof (rule paints_for_range)
    fix j :: int
    assume "0 \<le> j" "j < w"
    with i show "paints (body i j) (at_cell (nat (i * w + j)) (val i j)) n" by (rule body)
  next
    fix k v
    assume "k < n"
    with n have "0 < w" "0 \<le> int k mod w" "int k mod w < w"
      using row_of_cell [of k w h] assms by auto
    then show "((if int k div w = i then val i (int k mod w) else None) = Some v) =
        (\<exists>j. 0 \<le> j \<and> j < w \<and> at_cell (nat (i * w + j)) (val i j) k = Some v)"
      using i(1) by (auto simp: at_cell_iff cong: conj_cong split: if_splits)
  qed
next
  fix k v
  assume "k < n"
  with n row_of_cell [of k w h] assms
  show "(pixels w h val k = Some v) =
    (\<exists>i. 0 \<le> i \<and> i < h \<and> (if int k div w = i then val i (int k mod w) else None) = Some v)"
    by (auto simp: pixels_def)
qed

end
