(* ===== verification/OsdDraw.thy ===== *)
theory OsdDraw
  imports Canvas
begin

text \<open>
  The three shape generators of \<^verbatim>\<open>cdrawTools/OSD/COSD_OpenCL.cpp\<close>: \<^verbatim>\<open>draw_cross\<close>, \<^verbatim>\<open>draw_box\<close>
  and \<^verbatim>\<open>draw_yaw_rule\<close>. Each clamps its dimensions to the image, allocates a block of
  \<^verbatim>\<open>width * height\<close> bytes with \<^verbatim>\<open>malloc\<close> and writes pixels in a loop nest. The contents of the
  fresh block are unspecified: byte \<open>k\<close> is \<open>mem k\<close>, an argument. \<open>None\<close> is a write outside of
  the block, an \<^verbatim>\<open>int\<close> overflow or a division by zero. \<open>iw\<close> and \<open>ih\<close> are \<^verbatim>\<open>img_width_\<close> and
  \<^verbatim>\<open>img_height_\<close>, of type \<^verbatim>\<open>size_t\<close>.

  For each generator, the loop nest is proved to be the overlay of an explicit picture.
\<close>

section \<open>Clamping\<close>

text \<open>
  \<^verbatim>\<open>if (d > this->img_)\<close> compares an \<^verbatim>\<open>int\<close> with a \<^verbatim>\<open>size_t\<close>: the \<^verbatim>\<open>int\<close> is converted to
  unsigned first, and the assignment converts back.
\<close>

definition clamp_above :: "int \<Rightarrow> int \<Rightarrow> int" where
  "clamp_above img d = (if to_u64 d > img then to_i32 img else d)"

definition clamp_below :: "int \<Rightarrow> int" where
  "clamp_below d = (if d \<le> 0 then 0 else d)"

definition clamp_dim :: "int \<Rightarrow> int \<Rightarrow> int" where
  "clamp_dim img d = clamp_below (clamp_above img d)"

definition malloc_bytes :: "(nat \<Rightarrow> u8) \<Rightarrow> int \<Rightarrow> int \<Rightarrow> u8 list" where
  "malloc_bytes mem w h = map mem [0..<nat (w * h)]"

section \<open>The generators\<close>

definition draw_cross :: "int \<Rightarrow> int \<Rightarrow> (nat \<Rightarrow> u8) \<Rightarrow> int \<Rightarrow> int \<Rightarrow> u8 list option" where
  "draw_cross iw ih mem cross_width cross_height =
     (let w = clamp_above iw (clamp_dim iw cross_width);
          h = clamp_above ih (clamp_dim ih cross_height)
      in for_range 0 h (\<lambda>i. for_range 0 w (\<lambda>j cross_buf.
           if j = w div 2 \<or> i = h div 2 then wr_at cross_buf (i * w + j) 0xFF else Some cross_buf))
         (malloc_bytes mem w h))"

definition draw_box :: "int \<Rightarrow> int \<Rightarrow> (nat \<Rightarrow> u8) \<Rightarrow> int \<Rightarrow> int \<Rightarrow> int \<Rightarrow> int \<Rightarrow> u8 list option" where
  "draw_box iw ih mem box_width box_height pound_width type =
     (let w = clamp_dim iw box_width; h = clamp_dim ih box_height; p = clamp_below pound_width
      in for_range 0 h (\<lambda>i. for_range 0 w (\<lambda>j cross_buf.
           if j \<le> 0 + p \<or> i \<le> 0 + p \<or> j \<ge> w - 1 - p \<or> i \<ge> h - 1 - p then
             if type = 1 \<and> (j mod 20 > 10 \<or> i mod 20 > 10) \<and>
                (j mod 20 > 10 \<and> i \<le> 0 + p \<or> i mod 20 > 10 \<and> j \<le> 0 + p \<or>
                 j mod 20 > 10 \<and> i \<ge> h - 1 - p \<or> i mod 20 > 10 \<and> j \<ge> w - 1 - p)
             then Some cross_buf
             else do {
               b \<leftarrow> wr_at cross_buf (i * w + j) 0xFF;
               if j = 0 \<or> i = 0 \<or> j = w - 1 \<or> i = h - 1 then wr_at b (i * w + j) 0x01 else Some b
             }
           else Some cross_buf))
         (malloc_bytes mem w h))"

definition yaw_side :: "int \<Rightarrow> int \<Rightarrow> int \<Rightarrow> int \<Rightarrow> u8 list \<Rightarrow> u8 list option" where
  "yaw_side w h i j b =
     (if j \<le> 0 + 2 \<or> j \<ge> w - 1 - 2 \<or> i \<ge> h - 1 - 2 then wr_at b (i * w + j) 0xFF else Some b)"

definition yaw_middle :: "int \<Rightarrow> int \<Rightarrow> int \<Rightarrow> u8 list \<Rightarrow> u8 list option" where
  "yaw_middle w i j b =
     (if j \<le> w div 2 - 1 + 2 \<and> j \<ge> w div 2 - 1 - 2 then do {
        b1 \<leftarrow> wr_at b (i * w + j - 1) 0xFF;
        b2 \<leftarrow> wr_at b1 (i * w + j) 0xFF;
        wr_at b2 (i * w + j + 1) 0xFF
      } else Some b)"

text \<open>
  The division marks. The disjunction \<^verbatim>\<open>j < rule_width / 2 || j >= rule_width / 2\<close> in front of
  the remainder always holds, so the remainder is always computed.
\<close>

definition yaw_tick :: "int \<Rightarrow> int \<Rightarrow> int \<Rightarrow> int \<Rightarrow> int \<Rightarrow> int \<Rightarrow> u8 list \<Rightarrow> u8 list option" where
  "yaw_tick w h part_num part_width i j b =
     (if part_num > 1 then
        if j < w div 2 \<or> j \<ge> w div 2 then do {
          r \<leftarrow> crem j part_width;
          if r = 0 \<and> j \<noteq> 0 \<and> j \<noteq> w - 1 then do {
            area \<leftarrow> chk32 (w * h);
            b1 \<leftarrow> (if i * w + j - 1 < area then wr_at b (i * w + j - 1) 0xFF else Some b);
            b2 \<leftarrow> (if i * w + j < area then wr_at b1 (i * w + j) 0xFF else Some b1);
            if i * w + j + 1 < area then wr_at b2 (i * w + j + 1) 0xFF else Some b2
          } else Some b
        } else Some b
      else Some b)"

definition yaw_body :: "int \<Rightarrow> int \<Rightarrow> int \<Rightarrow> int \<Rightarrow> int \<Rightarrow> int \<Rightarrow> u8 list \<Rightarrow> u8 list option" where
  "yaw_body w h part_num part_width i j b = do {
     b1 \<leftarrow> yaw_side w h i j b;
     b2 \<leftarrow> yaw_middle w i j b1;
     yaw_tick w h part_num part_width i j b2
   }"

definition draw_yaw_rule :: "int \<Rightarrow> int \<Rightarrow> (nat \<Rightarrow> u8) \<Rightarrow> int \<Rightarrow> int \<Rightarrow> int \<Rightarrow> u8 list option" where
  "draw_yaw_rule iw ih mem rule_width rule_height part_num =
     (let w = clamp_dim iw rule_width; h = clamp_dim ih rule_height;
          parts = (if part_num \<le> 0 then 2 else part_num)
      in do {
        part_width \<leftarrow> cdiv (w div 2) parts;
        for_range 0 h (\<lambda>i. for_range 0 w (yaw_body w h parts part_width i)) (malloc_bytes mem w h)
      })"

section \<open>Clamping, characterised\<close>

lemma clamp_dim_nonneg: "0 \<le> clamp_dim img d"
  by (simp add: clamp_dim_def clamp_below_def)

text \<open>A negative dimension is a huge \<^verbatim>\<open>size_t\<close>, so it is clamped to the image, not to zero.\<close>

lemma clamp_dim_eq:
  assumes "in_i32 d" and "0 \<le> img" and "img < 2 ^ 31"
  shows "clamp_dim img d = (if d < 0 then img else min d img)"
proof (cases "d < 0")
  case True
  then have "to_u64 d > img"
    using assms by (simp add: to_u64_neg in_i32_def)
  with assms True show ?thesis
    by (simp add: clamp_dim_def clamp_above_def clamp_below_def to_i32_id in_i32_def)
next
  case False
  then have "to_u64 d = d" using assms by (simp add: to_u64_id in_i32_def)
  with assms False show ?thesis
    by (auto simp: clamp_dim_def clamp_above_def clamp_below_def to_i32_id in_i32_def)
qed

lemma clamp_above_clamped:
  assumes "in_i32 d" and "0 \<le> img" and "img < 2 ^ 31"
  shows "clamp_above img (clamp_dim img d) = clamp_dim img d"
proof -
  have "0 \<le> clamp_dim img d" "clamp_dim img d \<le> img"
    using assms by (auto simp: clamp_dim_eq)
  with assms show ?thesis by (simp add: clamp_above_def to_u64_id)
qed

lemma length_malloc [simp]: "length (malloc_bytes mem w h) = nat (w * h)"
  by (simp add: malloc_bytes_def)

section \<open>The pictures\<close>

definition cross_pixel :: "int \<Rightarrow> int \<Rightarrow> int \<Rightarrow> int \<Rightarrow> u8 option" where
  "cross_pixel w h r c = (if c = w div 2 \<or> r = h div 2 then Some 0xFF else None)"

text \<open>
  A frame of \<open>p + 1\<close> pixels on each side, its outermost line in 1, the rest in 255. In the dashed
  style the columns 11 to 19 of every 20 are left out of the horizontal sides and the same rows
  out of the vertical sides.
\<close>

definition box_pixel :: "int \<Rightarrow> int \<Rightarrow> int \<Rightarrow> int \<Rightarrow> int \<Rightarrow> int \<Rightarrow> u8 option" where
  "box_pixel w h p type r c =
     (let horizontal = r \<le> p \<or> r \<ge> h - 1 - p;
          vertical = c \<le> p \<or> c \<ge> w - 1 - p;
          gap = type = 1 \<and> (c mod 20 > 10 \<and> horizontal \<or> r mod 20 > 10 \<and> vertical)
      in if \<not> (horizontal \<or> vertical) \<or> gap then None
         else if r = 0 \<or> r = h - 1 \<or> c = 0 \<or> c = w - 1 then Some 1 else Some 0xFF)"

text \<open>
  A rule: three pixels on the left, the right and the bottom side, seven columns in the middle,
  and, when there are parts, three columns around every multiple of the part width.
\<close>

definition yaw_pixel :: "int \<Rightarrow> int \<Rightarrow> int \<Rightarrow> int \<Rightarrow> int \<Rightarrow> u8 option" where
  "yaw_pixel w h parts r c =
     (if c \<le> 2 \<or> c \<ge> w - 3 \<or> r \<ge> h - 3 \<or>
         w div 2 - 4 \<le> c \<and> c \<le> w div 2 + 2 \<or>
         parts > 1 \<and> (\<exists>j \<in> {c - 1, c, c + 1}. 0 < j \<and> j < w - 1 \<and> (w div 2 div parts) dvd j)
      then Some 0xFF else None)"

section \<open>Painting lemmas\<close>

lemma clamped_area:
  assumes "image_ok iw ih" and "in_i32 dw" and "in_i32 dh"
  shows "clamp_dim iw dw * clamp_dim ih dh < 2 ^ 31"
proof -
  have "clamp_dim iw dw * clamp_dim ih dh \<le> iw * ih"
    using assms by (intro mult_mono) (auto simp: image_ok_def clamp_dim_eq)
  then show ?thesis using assms(1) by (simp add: image_ok_def)
qed

lemma paints_pixel:
  assumes "0 \<le> i" "i < h" "0 \<le> j" "j < w" and "int n = w * h" "w * h < 2 ^ 31"
  shows "paints (\<lambda>b. wr_at b (i * w + j) v) (at_cell (nat (i * w + j)) (Some v)) n"
  unfolding at_cell_Some using assms cell_bound [of i h j w]
  by (intro paints_wr_at) auto

text \<open>Pictures in one colour: \<open>ink w P\<close> paints 255 on the pixels \<open>P\<close> of an image of width \<open>w\<close>.\<close>

definition ink :: "int \<Rightarrow> (int \<Rightarrow> int \<Rightarrow> bool) \<Rightarrow> nat \<rightharpoonup> u8" where
  "ink w P = (\<lambda>k. if P (int k div w) (int k mod w) then Some 0xFF else None)"

lemma paints_ink:
  assumes "0 \<le> i" "i < h" "0 \<le> j" "j < w" and "int n = w * h" "w * h < 2 ^ 31"
  shows "paints (\<lambda>b. wr_at b (i * w + j) 0xFF) (ink w (\<lambda>r c. r = i \<and> c = j)) n"
  by (rule paints_cong [OF paints_pixel [OF assms]])
    (use assms in \<open>simp add: at_cell_iff ink_def\<close>)

lemma paints_ink_bind:
  "paints f (ink w P) n \<Longrightarrow> paints f' (ink w Q) n \<Longrightarrow>
   paints (\<lambda>b. Option.bind (f b) f') (ink w (\<lambda>r c. P r c \<or> Q r c)) n"
  by (drule (1) paints_bind, erule paints_cong) (auto simp: ink_def map_add_def)

lemma paints_ink_when:
  "(c \<Longrightarrow> paints f (ink w P) n) \<Longrightarrow>
   paints (\<lambda>b. if c then f b else Some b) (ink w (\<lambda>r k. c \<and> P r k)) n"
  by (cases c) (auto simp: paints_def ink_def overlay_cong [where h = Map.empty])

lemma paints_ink_range:
  assumes "\<And>i. lo \<le> i \<Longrightarrow> i < hi \<Longrightarrow> paints (f i) (ink w (P i)) n"
  shows "paints (for_range lo hi f) (ink w (\<lambda>r c. \<exists>i. lo \<le> i \<and> i < hi \<and> P i r c)) n"
  by (rule paints_for_range [where g = "\<lambda>i. ink w (P i)"]) (use assms in \<open>auto simp: ink_def\<close>)

section \<open>The rule\<close>

definition side_mark :: "int \<Rightarrow> int \<Rightarrow> int \<Rightarrow> int \<Rightarrow> bool" where
  "side_mark w h i j \<longleftrightarrow> j \<le> 2 \<or> j \<ge> w - 3 \<or> i \<ge> h - 3"

definition middle_mark :: "int \<Rightarrow> int \<Rightarrow> bool" where
  "middle_mark w j \<longleftrightarrow> w div 2 - 3 \<le> j \<and> j \<le> w div 2 + 1"

definition tick_mark :: "int \<Rightarrow> int \<Rightarrow> int \<Rightarrow> bool" where
  "tick_mark w parts j \<longleftrightarrow> parts > 1 \<and> j mod (w div 2 div parts) = 0 \<and> j \<noteq> 0 \<and> j \<noteq> w - 1"

lemma paints_three:
  assumes "0 \<le> i" "i < h" "1 \<le> j" "j + 1 < w" and "int n = w * h" "w * h < 2 ^ 31"
  shows "paints (\<lambda>b. Option.bind (wr_at b (i * w + j - 1) 0xFF) (\<lambda>b1.
       Option.bind (wr_at b1 (i * w + j) 0xFF) (\<lambda>b2. wr_at b2 (i * w + j + 1) 0xFF)))
     (ink w (\<lambda>r c. r = i \<and> j - 1 \<le> c \<and> c \<le> j + 1)) n"
proof -
  have one: "paints (\<lambda>b. wr_at b (i * w + m) 0xFF) (ink w (\<lambda>r c. r = i \<and> c = m)) n"
    if "j - 1 \<le> m" "m \<le> j + 1" for m
    using that assms by (intro paints_ink) auto
  have "paints (\<lambda>b. Option.bind (wr_at b (i * w + (j - 1)) 0xFF) (\<lambda>b1.
       Option.bind (wr_at b1 (i * w + j) 0xFF) (\<lambda>b2. wr_at b2 (i * w + (j + 1)) 0xFF)))
     (ink w (\<lambda>r c. r = i \<and> c = j - 1 \<or> r = i \<and> c = j \<or> r = i \<and> c = j + 1)) n"
    by (intro paints_ink_bind one) auto
  then show ?thesis
    by (simp add: add.assoc add_diff_eq) (erule paints_cong, auto simp: ink_def)
qed

lemma paints_yaw_body:
  assumes "0 \<le> i" "i < h" "0 \<le> j" "j < w" and "int n = w * h" "w * h < 2 ^ 31" and "8 \<le> w"
    and parts: "parts > 1 \<longrightarrow> 0 < w div 2 div parts"
  shows "paints (yaw_body w h parts (w div 2 div parts) i j)
    (ink w (\<lambda>r c. r = i \<and> (side_mark w h i j \<and> c = j
       \<or> (middle_mark w j \<or> tick_mark w parts j) \<and> j - 1 \<le> c \<and> c \<le> j + 1))) n"
proof -
  have side: "paints (yaw_side w h i j) (ink w (\<lambda>r c. side_mark w h i j \<and> r = i \<and> c = j)) n"
    unfolding yaw_side_def side_mark_def
    using paints_ink_when [OF paints_ink, OF assms(1-6)] by simp
  have middle: "paints (yaw_middle w i j)
      (ink w (\<lambda>r c. middle_mark w j \<and> r = i \<and> j - 1 \<le> c \<and> c \<le> j + 1)) n"
    unfolding yaw_middle_def middle_mark_def
    using assms by (intro paints_cong [OF paints_ink_when [OF paints_three]]) (auto simp: ink_def)
  have tick: "paints (yaw_tick w h parts (w div 2 div parts) i j)
      (ink w (\<lambda>r c. tick_mark w parts j \<and> r = i \<and> j - 1 \<le> c \<and> c \<le> j + 1)) n"
  proof (cases "tick_mark w parts j")
    case True
    with assms have j: "1 \<le> j" "j + 1 < w" by (auto simp: tick_mark_def)
    have "i * w + j - 1 < w * h" "i * w + j < w * h" "i * w + j + 1 < w * h"
      using cell_bound [of i h "j + 1" w] assms j by auto
    moreover have "chk32 (w * h) = Some (w * h)"
      using assms(5,6) by (simp add: chk32_def in_i32_def flip: assms(5))
    ultimately have "yaw_tick w h parts (w div 2 div parts) i j =
      (\<lambda>b. Option.bind (wr_at b (i * w + j - 1) 0xFF) (\<lambda>b1.
         Option.bind (wr_at b1 (i * w + j) 0xFF) (\<lambda>b2. wr_at b2 (i * w + j + 1) 0xFF)))"
      using True parts assms(3) by (auto simp: fun_eq_iff yaw_tick_def tick_mark_def crem_pos)
    then show ?thesis
      using paints_three [OF assms(1,2) j assms(5,6)] True by simp
  next
    case False
    then have "yaw_tick w h parts (w div 2 div parts) i j = Some"
      using parts assms(3) by (auto simp: fun_eq_iff yaw_tick_def tick_mark_def crem_pos)
    with False show ?thesis
      by (simp add: paints_cong [OF paints_skip] ink_def)
  qed
  show ?thesis
    unfolding yaw_body_def
    by (rule paints_cong [OF paints_ink_bind [OF side paints_ink_bind [OF middle tick]]])
      (auto simp: ink_def)
qed

lemma mark_around:
  "(\<exists>j. 0 \<le> j \<and> j < w \<and> Q j \<and> j - 1 \<le> c \<and> c \<le> j + 1) \<longleftrightarrow>
   (\<exists>j \<in> {c - 1, c, c + 1 :: int}. 0 \<le> j \<and> j < w \<and> Q j)"
proof
  assume "\<exists>j. 0 \<le> j \<and> j < w \<and> Q j \<and> j - 1 \<le> c \<and> c \<le> j + 1"
  then obtain j where j: "0 \<le> j" "j < w" "Q j" "j - 1 \<le> c" "c \<le> j + 1" by blast
  then have "j = c - 1 \<or> j = c \<or> j = c + 1" by arith
  with j show "\<exists>j \<in> {c - 1, c, c + 1}. 0 \<le> j \<and> j < w \<and> Q j" by auto
qed force

lemma middle_around:
  assumes "8 \<le> w"
  shows "(\<exists>j \<in> {c - 1, c, c + 1}. 0 \<le> j \<and> j < w \<and> middle_mark w j) \<longleftrightarrow>
    w div 2 - 4 \<le> c \<and> c \<le> w div 2 + 2"
proof -
  have "4 \<le> w div 2" "w div 2 + 4 \<le> w" using assms by auto
  then show ?thesis unfolding middle_mark_def by simp arith
qed

lemma tick_around:
  "(\<exists>j \<in> S. 0 \<le> j \<and> j < w \<and> tick_mark w parts j) \<longleftrightarrow>
   parts > 1 \<and> (\<exists>j \<in> S. 0 < j \<and> j < w - 1 \<and> (w div 2 div parts) dvd j)"
proof -
  have "0 \<le> j \<and> j < w \<and> tick_mark w parts j \<longleftrightarrow>
      parts > 1 \<and> 0 < j \<and> j < w - 1 \<and> (w div 2 div parts) dvd j" for j
    unfolding tick_mark_def dvd_eq_mod_eq_0 by linarith
  then show ?thesis by blast
qed

lemma yaw_marks:
  assumes "8 \<le> w" and "0 \<le> r" "r < h" "0 \<le> c" "c < w"
  shows "(\<exists>i. 0 \<le> i \<and> i < h \<and> (\<exists>j. 0 \<le> j \<and> j < w \<and> r = i \<and> (side_mark w h i j \<and> c = j
       \<or> (middle_mark w j \<or> tick_mark w parts j) \<and> j - 1 \<le> c \<and> c \<le> j + 1)))
     \<longleftrightarrow> yaw_pixel w h parts r c = Some 0xFF" (is "?L \<longleftrightarrow> _")
proof -
  have "?L \<longleftrightarrow> (\<exists>j. 0 \<le> j \<and> j < w \<and> (side_mark w h r j \<and> c = j
       \<or> (middle_mark w j \<or> tick_mark w parts j) \<and> j - 1 \<le> c \<and> c \<le> j + 1))"
    using assms(2,3) by blast
  also have "\<dots> \<longleftrightarrow> side_mark w h r c
      \<or> (\<exists>j. 0 \<le> j \<and> j < w \<and> middle_mark w j \<and> j - 1 \<le> c \<and> c \<le> j + 1)
      \<or> (\<exists>j. 0 \<le> j \<and> j < w \<and> tick_mark w parts j \<and> j - 1 \<le> c \<and> c \<le> j + 1)"
    using assms(4,5) by blast
  also have "\<dots> \<longleftrightarrow> yaw_pixel w h parts r c = Some 0xFF"
    unfolding mark_around middle_around [OF assms(1)] tick_around side_mark_def yaw_pixel_def
    by simp
  finally show ?thesis .
qed

lemma yaw_body_undefined:
  assumes "0 < w" "0 < h" and "w \<le> 7 \<or> part_width = 0 \<and> parts > 1"
  shows "yaw_body w h parts part_width 0 0 b = None"
proof (cases "w \<le> 7")
  case True
  with assms have "0 \<le> w div 2 - 1 + 2" "w div 2 - 1 - 2 \<le> 0" by auto
  then have "yaw_middle w 0 0 b' = None" for b'
    by (simp add: yaw_middle_def wr_at_def chk32_def in_i32_def wr_out)
  then show ?thesis by (auto simp: yaw_body_def split: bind_splits)
next
  case False
  with assms have "yaw_tick w h parts part_width 0 0 b' = None" for b'
    using less_le_not_le [of 0 "w div 2"] by (auto simp: yaw_tick_def crem_zero)
  then show ?thesis by (auto simp: yaw_body_def split: bind_splits)
qed

section \<open>Properties\<close>

text \<open>
  The cross. Every write of \<^verbatim>\<open>draw_cross\<close> falls inside the block it allocates, and the block
  returned has 255 on the middle row and the middle column of the clamped size, and the bytes that
  \<^verbatim>\<open>malloc\<close> left there everywhere else.
\<close>

theorem cross_picture:
  assumes "image_ok iw ih" and "in_i32 cross_width" and "in_i32 cross_height"
  defines "w \<equiv> clamp_dim iw cross_width" and "h \<equiv> clamp_dim ih cross_height"
  shows "draw_cross iw ih mem cross_width cross_height
    = Some (overlay (pixels w h (cross_pixel w h)) (malloc_bytes mem w h))"
proof -
  have dims: "0 \<le> w" "0 \<le> h" "w * h < 2 ^ 31"
    using clamped_area [OF assms(1-3)] by (simp_all add: w_def h_def clamp_dim_nonneg)
  have again: "clamp_above iw w = w" "clamp_above ih h = h"
    using assms(1-3) by (simp_all add: w_def h_def clamp_above_clamped image_ok_def)
  have "paints (for_range 0 h (\<lambda>i. for_range 0 w (\<lambda>j cross_buf.
      if j = w div 2 \<or> i = h div 2 then wr_at cross_buf (i * w + j) 0xFF else Some cross_buf)))
    (pixels w h (cross_pixel w h)) (nat (w * h))"
  proof (rule paints_grid)
    fix i j assume ij: "0 \<le> i" "i < h" "0 \<le> j" "j < w"
    then show "paints (\<lambda>b. if j = w div 2 \<or> i = h div 2 then wr_at b (i * w + j) 0xFF else Some b)
        (at_cell (nat (i * w + j)) (cross_pixel w h i j)) (nat (w * h))"
      using paints_pixel [of i h j w "nat (w * h)" "0xFF"] dims paints_skip'
      by (cases "j = w div 2 \<or> i = h div 2") (auto simp: cross_pixel_def)
  qed (use dims in auto)
  from paintsD [OF this, of "malloc_bytes mem w h"] show ?thesis
    unfolding draw_cross_def Let_def w_def [symmetric] h_def [symmetric] again by simp
qed

text \<open>
  C31: The box. Every write of \<^verbatim>\<open>draw_box\<close> falls inside the block it allocates, and the block
  returned is the frame \<open>box_pixel\<close>: \<^verbatim>\<open>pound_width + 1\<close> pixels on each side, the outermost line in 1,
  the others in 255, the dashed style leaving its gaps out; the bytes that \<^verbatim>\<open>malloc\<close> left there are
  in the gaps and inside the frame.
\<close>

theorem box_picture:
  assumes "image_ok iw ih" and "in_i32 box_width" and "in_i32 box_height"
  defines "w \<equiv> clamp_dim iw box_width" and "h \<equiv> clamp_dim ih box_height"
  shows "draw_box iw ih mem box_width box_height pound_width type
    = Some (overlay (pixels w h (box_pixel w h (max 0 pound_width) type)) (malloc_bytes mem w h))"
proof -
  let ?p = "max 0 pound_width"
  have p: "clamp_below pound_width = ?p" by (simp add: clamp_below_def)
  have dims: "0 \<le> w" "0 \<le> h" "w * h < 2 ^ 31"
    using clamped_area [OF assms(1-3)] by (simp_all add: w_def h_def clamp_dim_nonneg)
  let ?body = "\<lambda>i j (cross_buf :: u8 list).
    if j \<le> 0 + ?p \<or> i \<le> 0 + ?p \<or> j \<ge> w - 1 - ?p \<or> i \<ge> h - 1 - ?p then
      if type = 1 \<and> (j mod 20 > 10 \<or> i mod 20 > 10) \<and>
         (j mod 20 > 10 \<and> i \<le> 0 + ?p \<or> i mod 20 > 10 \<and> j \<le> 0 + ?p \<or>
          j mod 20 > 10 \<and> i \<ge> h - 1 - ?p \<or> i mod 20 > 10 \<and> j \<ge> w - 1 - ?p)
      then Some cross_buf
      else Option.bind (wr_at cross_buf (i * w + j) 0xFF) (\<lambda>b.
        if j = 0 \<or> i = 0 \<or> j = w - 1 \<or> i = h - 1 then wr_at b (i * w + j) 0x01 else Some b)
    else Some cross_buf"
  have "paints (for_range 0 h (\<lambda>i. for_range 0 w (?body i)))
    (pixels w h (box_pixel w h ?p type)) (nat (w * h))"
  proof (rule paints_grid)
    fix i j assume ij: "0 \<le> i" "i < h" "0 \<le> j" "j < w"
    let ?c = "nat (i * w + j)" and ?edge = "j = 0 \<or> i = 0 \<or> j = w - 1 \<or> i = h - 1"
    have px: "paints (\<lambda>b. wr_at b (i * w + j) v) (at_cell ?c (Some v)) (nat (w * h))" for v
      using ij dims by (intro paints_pixel) auto
    have "paints (\<lambda>b. if ?edge then wr_at b (i * w + j) 1 else Some b)
        (at_cell ?c (if ?edge then Some 1 else None)) (nat (w * h))"
      using px [of 1] paints_skip' by auto
    from paints_bind [OF px [of "0xFF"] this]
    have inked: "paints (\<lambda>b. Option.bind (wr_at b (i * w + j) 0xFF) (\<lambda>b.
          if ?edge then wr_at b (i * w + j) 1 else Some b))
        (at_cell ?c (Some (if ?edge then 1 else 0xFF))) (nat (w * h))"
      by (rule paints_cong) (simp add: at_cell_def map_add_def)
    show "paints (?body i j) (at_cell ?c (box_pixel w h ?p type i j)) (nat (w * h))"
    proof (cases "box_pixel w h ?p type i j")
      case None
      then have "?body i j = Some"
        by (auto simp: box_pixel_def fun_eq_iff Let_def split: if_splits)
      then show ?thesis unfolding None by (simp only: at_cell_None paints_skip)
    next
      case (Some v)
      then have "?body i j = (\<lambda>b. Option.bind (wr_at b (i * w + j) 0xFF) (\<lambda>b.
          if ?edge then wr_at b (i * w + j) 1 else Some b))"
        and "v = (if ?edge then 1 else 0xFF)"
        by (auto simp: box_pixel_def fun_eq_iff Let_def split: if_splits)
      with inked Some show ?thesis by (simp only:)
    qed
  qed (use dims in auto)
  from paintsD [OF this, of "malloc_bytes mem w h"] show ?thesis
    unfolding draw_box_def Let_def w_def [symmetric] h_def [symmetric] p by simp
qed

text \<open>
  C30: The rule, on every size. For a rule of at least 8 columns that is cut into parts of at least
  one column (or not cut at all), every write of \<^verbatim>\<open>draw_yaw_rule\<close> falls inside the block it
  allocates and the block has 255 exactly on the marks of \<open>yaw_pixel\<close>. A narrower rule writes
  before the start of the block, and one with more parts than half its columns divides by zero;
  a rule without pixels does neither.
\<close>

theorem yaw_rule_picture:
  fixes part_num :: int
  assumes "image_ok iw ih" and "in_i32 rule_width" and "in_i32 rule_height"
  defines "w \<equiv> clamp_dim iw rule_width" and "h \<equiv> clamp_dim ih rule_height"
    and "parts \<equiv> if part_num \<le> 0 then 2 else part_num"
  shows "draw_yaw_rule iw ih mem rule_width rule_height part_num
    = (if 0 < w * h \<and> (w \<le> 7 \<or> parts > 1 \<and> w div 2 < parts) then None
       else Some (overlay (pixels w h (yaw_pixel w h parts)) (malloc_bytes mem w h)))"
proof -
  let ?pw = "w div 2 div parts"
  have dims: "0 \<le> w" "0 \<le> h" "w * h < 2 ^ 31" and parts: "0 < parts"
    using clamped_area [OF assms(1-3)] by (simp_all add: w_def h_def parts_def clamp_dim_nonneg)
  have run: "draw_yaw_rule iw ih mem rule_width rule_height part_num
    = for_range 0 h (\<lambda>i. for_range 0 w (yaw_body w h parts ?pw i)) (malloc_bytes mem w h)"
    using dims parts unfolding draw_yaw_rule_def Let_def w_def [symmetric] h_def [symmetric]
      parts_def [symmetric] by (simp add: cdiv_pos)
  consider "w * h = 0" | "0 < w" "0 < h" "w \<le> 7 \<or> parts > 1 \<and> w div 2 < parts"
    | "0 < w" "0 < h" "8 \<le> w" "parts > 1 \<longrightarrow> parts \<le> w div 2"
    using dims by fastforce
  then show ?thesis
  proof cases
    case 1
    then have "for_range 0 h (\<lambda>i. for_range 0 w (yaw_body w h parts ?pw i)) [] = Some []"
      by (auto simp: for_range_def intro: foldM_skip)
    with 1 show ?thesis unfolding run malloc_bytes_def overlay_def 1 by simp
  next
    case 2
    then have "?pw = 0 \<and> parts > 1 \<or> w \<le> 7" by (auto simp: div_pos_pos_trivial)
    with 2 show ?thesis
      by (auto simp: run for_range_first yaw_body_undefined)
  next
    case 3
    have "paints (for_range 0 h (\<lambda>i. for_range 0 w (yaw_body w h parts ?pw i)))
      (pixels w h (yaw_pixel w h parts)) (nat (w * h))"
    proof (rule paints_cong [OF paints_ink_range [OF paints_ink_range [OF paints_yaw_body]]])
      fix k assume "k < nat (w * h)"
      then have k: "int k < w * h" by simp
      from yaw_marks [OF 3(3), of "int k div w" h "int k mod w" parts] row_of_cell [OF k] dims 3
      show "ink w (\<lambda>r c. \<exists>i. 0 \<le> i \<and> i < h \<and> (\<exists>j. 0 \<le> j \<and> j < w \<and> r = i \<and> (side_mark w h i j \<and> c = j
         \<or> (middle_mark w j \<or> tick_mark w parts j) \<and> j - 1 \<le> c \<and> c \<le> j + 1))) k
        = pixels w h (yaw_pixel w h parts) k"
        using k by (auto simp: ink_def pixels_def yaw_pixel_def)
    qed (use dims 3 in \<open>auto simp: pos_imp_zdiv_pos_iff\<close>)
    from paintsD [OF this, of "malloc_bytes mem w h"] 3 show ?thesis
      by (auto simp: run)
  qed
qed

section \<open>Witnesses\<close>

theorem cross_picture_witness:
  "draw_cross 640 480 (\<lambda>_. 7) 3 3 = Some [7, 0xFF, 7, 0xFF, 0xFF, 0xFF, 7, 0xFF, 7]"
  using cross_picture [of 640 480 3 3 "\<lambda>_. 7"]
  by (simp add: image_ok_def in_i32_def clamp_dim_eq overlay_def pixels_def cross_pixel_def
      malloc_bytes_def upt_rec)

text \<open>A negative width draws over the whole image.\<close>

theorem box_picture_witness:
  "draw_box 5 480 (\<lambda>_. 7) (- 3) 3 (- 1) 0 = Some [1, 1, 1, 1, 1, 1, 7, 7, 7, 1, 1, 1, 1, 1, 1]"
  using box_picture [of 5 480 "- 3" 3 "\<lambda>_. 7" "- 1" 0]
  by (simp add: image_ok_def in_i32_def clamp_dim_eq overlay_def pixels_def box_pixel_def
      malloc_bytes_def upt_rec)

theorem yaw_rule_picture_witness:
  "draw_yaw_rule 640 480 (\<lambda>_. 7) 12 1 1 = Some (replicate 12 0xFF)
   \<and> draw_yaw_rule 640 480 (\<lambda>_. 7) 20 10 11 = None
   \<and> draw_yaw_rule 640 480 (\<lambda>_. 7) 7 10 1 = None"
  using yaw_rule_picture [of 640 480 12 1 "\<lambda>_. 7" 1]
    yaw_rule_picture [of 640 480 20 10 "\<lambda>_. 7" 11]
    yaw_rule_picture [of 640 480 7 10 "\<lambda>_. 7" 1]
  by (simp add: image_ok_def in_i32_def clamp_dim_eq overlay_def pixels_def yaw_pixel_def
      malloc_bytes_def upt_rec eval_nat_numeral)

end
