(* ===== verification/OsdFont.thy ===== *)
theory OsdFont
  imports Canvas
begin

text \<open>
  The font slots of \<^verbatim>\<open>cdrawTools/OSD/COSD_OpenCL.cpp\<close>: the array of 30 \<^verbatim>\<open>sFontAttr\<close> records that
  \<^verbatim>\<open>create_font_add_array\<close> fills in, from a bitmap of the caller or from a glyph that FreeType
  renders, \<^verbatim>\<open>init_by_json\<close>, and the copy of a slot's bitmap into an image,
  \<^verbatim>\<open>copyBitmapToImage\<close>. A pointer to bytes is the block it points to, the null pointer the empty
  block. FreeType is the parameter \<open>glyph\<close>: width, rows and bitmap of a character at a pixel size.
  \<open>None\<close> is an access outside of a block or of the array, or an \<^verbatim>\<open>int\<close> overflow.

  Shown: the copy is the clipped picture of the bitmap, and exactly when it is undefined; a slot
  that is filled in keeps the invariant under which its copy is defined.
\<close>

section \<open>Slots\<close>

record font_slot =
  f_id :: int
  f_used :: bool
  f_select :: u32
  f_r :: int
  f_c :: int
  f_buf :: "u8 list"
  f_size :: int
  f_width :: int
  f_rows :: int
  f_font_size :: u8

type_synonym freetype = "u8 \<Rightarrow> u32 \<Rightarrow> int \<times> int \<times> u8 list"

definition FONT_ARRAY_SIZE :: nat where
  "FONT_ARRAY_SIZE = 30"

text \<open>A slot after \<^verbatim>\<open>memset(this->fontAttr_array_, 0, ...)\<close>.\<close>

definition zero_slot :: font_slot where
  "zero_slot = \<lparr>f_id = 0, f_used = False, f_select = 0, f_r = 0, f_c = 0, f_buf = [], f_size = 0,
     f_width = 0, f_rows = 0, f_font_size = 0\<rparr>"

record osd =
  img_width :: int
  img_height :: int
  buffer_size :: int
  image_buffer :: "u8 list"
  all_font_buffer :: "u8 list"
  slots :: "font_slot list"

text \<open>
  The sizes are products of \<^verbatim>\<open>size_t\<close> values, modulo 2 to the 64; the \<^verbatim>\<open>int\<close> \<open>deeping\<close> is converted
  first. The two allocations are taken to succeed.
\<close>

definition osd_new :: "int \<Rightarrow> int \<Rightarrow> int \<Rightarrow> osd" where
  "osd_new imgWidth imgHeight deeping =
     (let buffer_sz = to_u64 (to_u64 (imgHeight * imgWidth) * to_u64 deeping);
          font_sz = to_u64 (imgWidth * imgHeight)
      in \<lparr>img_width = imgWidth, img_height = imgHeight, buffer_size = buffer_sz,
          image_buffer = replicate (nat buffer_sz) 0, all_font_buffer = replicate (nat font_sz) 0,
          slots = replicate FONT_ARRAY_SIZE zero_slot\<rparr>)"

definition set_slot :: "int \<Rightarrow> (font_slot \<Rightarrow> font_slot option) \<Rightarrow> osd \<Rightarrow> osd option" where
  "set_slot i f d = do {
     s \<leftarrow> rd (slots d) i;
     s' \<leftarrow> f s;
     ss \<leftarrow> wr (slots d) i s';
     Some (d\<lparr>slots := ss\<rparr>)
   }"

text \<open>
  \<^verbatim>\<open>memcpy\<close> from a block of the caller: undefined when the block is shorter than the count.
\<close>

definition memcpy_from :: "u8 list \<Rightarrow> int \<Rightarrow> u8 list option" where
  "memcpy_from src n = (if 0 \<le> n \<and> n \<le> int (length src) then Some (take (nat n) src) else None)"

definition create_font_add_array ::
  "freetype \<Rightarrow> int \<Rightarrow> int \<Rightarrow> int \<Rightarrow> int \<Rightarrow> u8 \<Rightarrow> u8 list \<Rightarrow> u32 \<Rightarrow> u32 \<Rightarrow> osd \<Rightarrow> osd option" where
  "create_font_add_array glyph ident font_select r_position c_position font_size buf font_width font_rows d =
     set_slot ident (\<lambda>s.
       let s1 = s\<lparr>f_used := True, f_id := ident, f_select := word_of_int font_select,
                  f_r := r_position, f_c := c_position, f_font_size := font_size\<rparr>
       in if font_select = 0 then
            let fw = (if uint font_width > img_width d then img_width d mod 2 ^ 32 else uint font_width);
                fr = (if uint font_rows > img_height d then img_height d mod 2 ^ 32 else uint font_rows)
            in Some (s1\<lparr>f_width := fw, f_rows := fr, f_buf := buf\<rparr>)
          else
            let (bw, br, bytes) = glyph font_size (f_select s1)
            in map_option (\<lambda>b. s1\<lparr>f_width := bw, f_rows := br, f_size := bw * br mod 2 ^ 32, f_buf := b\<rparr>)
                 (memcpy_from bytes (bw * br mod 2 ^ 32))) d"

text \<open>One record of \<^verbatim>\<open>osdJSONArray\<close>, as \<^verbatim>\<open>init_by_json\<close> finds it in the parameter file.\<close>

record osd_json =
  j_id :: u32
  j_used :: u8
  j_select :: u32
  j_r :: u32
  j_c :: u32
  j_font_size :: u8

definition json_slot :: "osd_json \<Rightarrow> font_slot \<Rightarrow> font_slot" where
  "json_slot j s = s\<lparr>f_id := sint (j_id j), f_used := (j_used j \<noteq> 0), f_select := j_select j,
     f_r := sint (j_r j), f_c := sint (j_c j), f_font_size := j_font_size j\<rparr>"

definition init_by_json :: "(nat \<Rightarrow> osd_json) \<Rightarrow> osd \<Rightarrow> osd option" where
  "init_by_json osdJSONs d =
     foldM (\<lambda>i. set_slot (int i) (\<lambda>s. Some (json_slot (osdJSONs i) s))) [0..<FONT_ARRAY_SIZE] d"

section \<open>Copying a bitmap\<close>

text \<open>\<open>mul_add a b c\<close> is \<^verbatim>\<open>a * b + c\<close> in \<^verbatim>\<open>int\<close>.\<close>

definition mul_add :: "int \<Rightarrow> int \<Rightarrow> int \<Rightarrow> int option" where
  "mul_add a b c = do { p \<leftarrow> chk32 (a * b); chk32 (p + c) }"

definition copy_pixel :: "u8 list \<Rightarrow> int \<Rightarrow> int \<Rightarrow> int \<Rightarrow> int \<Rightarrow> int \<Rightarrow> int \<Rightarrow> u8 list \<Rightarrow> u8 list option" where
  "copy_pixel bitmap bitmapWidth r_position c_position imageWidth row col img = do {
     imageIndex \<leftarrow> mul_add row imageWidth col;
     bitmapIndex \<leftarrow> mul_add (row - r_position) bitmapWidth (col - c_position);
     v \<leftarrow> rd bitmap bitmapIndex;
     wr img imageIndex v
   }"

definition copyBitmapToImage ::
  "u8 list \<Rightarrow> u8 list \<Rightarrow> int \<Rightarrow> int \<Rightarrow> int \<Rightarrow> int \<Rightarrow> int \<Rightarrow> int \<Rightarrow> u8 list option" where
  "copyBitmapToImage bitmap img bitmapWidth bitmapHeight r_position c_position imageWidth imageHeight = do {
     maxRow0 \<leftarrow> chk32 (r_position + bitmapHeight);
     maxCol0 \<leftarrow> chk32 (c_position + bitmapWidth);
     let maxRow = (if maxRow0 > imageHeight then imageHeight else maxRow0);
         maxCol = (if maxCol0 > imageWidth then imageWidth else maxCol0)
     in for_range r_position maxRow (\<lambda>row. for_range c_position maxCol (\<lambda>col.
          copy_pixel bitmap bitmapWidth r_position c_position imageWidth row col)) img
   }"

text \<open>
  The copy of the used slots: the loop of \<^verbatim>\<open>process_font\<close> over the slot array. The slot's unsigned
  sizes and the image's \<^verbatim>\<open>size_t\<close> dimensions are converted to the \<^verbatim>\<open>int\<close> parameters.
\<close>

definition copy_slot :: "int \<Rightarrow> int \<Rightarrow> font_slot \<Rightarrow> u8 list \<Rightarrow> u8 list option" where
  "copy_slot iw ih s img =
     (if \<not> f_used s then Some img
      else copyBitmapToImage (f_buf s) img (to_i32 (f_width s)) (to_i32 (f_rows s))
             (f_r s) (f_c s) (to_i32 iw) (to_i32 ih))"

definition draw_slots :: "osd \<Rightarrow> osd option" where
  "draw_slots d = map_option (\<lambda>b. d\<lparr>all_font_buffer := b\<rparr>)
     (foldM (copy_slot (img_width d) (img_height d)) (slots d)
       (replicate (nat (to_u64 (img_width d * img_height d))) 0))"

section \<open>The copy, characterised\<close>

text \<open>
  The cells in reading order from column \<open>c\<close>: cell \<open>k\<close> is \<open>span_col\<close> cells after the start of
  row \<open>span_row\<close>. For \<open>0 \<le> c\<close> a copy clipped to the image stays within its rows; for a
  negative \<open>c\<close> it starts in the row above.
\<close>

definition span_row :: "int \<Rightarrow> int \<Rightarrow> nat \<Rightarrow> int" where
  "span_row w c k = (int k - c) div w"

definition span_col :: "int \<Rightarrow> int \<Rightarrow> nat \<Rightarrow> int" where
  "span_col w c k = (int k - c) mod w"

definition blit :: "u8 list \<Rightarrow> int \<Rightarrow> int \<Rightarrow> int \<Rightarrow> int \<Rightarrow> int \<Rightarrow> int \<Rightarrow> nat \<rightharpoonup> u8" where
  "blit bitmap bw bh r c iw ih k =
     (if r \<le> span_row iw c k \<and> span_row iw c k < min (r + bh) ih \<and> span_col iw c k < min (c + bw) iw - c
      then Some (bitmap ! nat ((span_row iw c k - r) * bw + span_col iw c k)) else None)"

lemma span_iff:
  assumes "c \<le> col" "col < c + w" "0 \<le> row * w + col"
  shows "nat (row * w + col) = k \<longleftrightarrow> span_row w c k = row \<and> span_col w c k = col - c"
proof
  assume "nat (row * w + col) = k"
  with assms(3) have "int k - c = row * w + (col - c)" by auto
  with assms(1,2) show "span_row w c k = row \<and> span_col w c k = col - c"
    unfolding span_row_def span_col_def by (simp only:) simp
next
  assume "span_row w c k = row \<and> span_col w c k = col - c"
  then have "int k - c = row * w + (col - c)"
    using div_mult_mod_eq [of "int k - c" w] by (simp add: span_row_def span_col_def)
  then show "nat (row * w + col) = k" by simp
qed

lemma hit_iff: "[a \<mapsto> x] k = Some v \<longleftrightarrow> a = k \<and> v = x"
  by auto

lemma mul_add_in:
  assumes "0 \<le> a" "a < h" "0 \<le> c" "c < b" "b * h < 2 ^ 31"
  shows "mul_add a b c = Some (a * b + c)"
proof -
  have "0 \<le> a * b" using assms by simp
  moreover have "0 \<le> a * b + c" "a * b + c < 2 ^ 31" using cell_bound [of a h c b] assms by auto
  ultimately have "in_i32 (a * b)" "in_i32 (a * b + c)" using assms(3) unfolding in_i32_def by linarith+
  then show ?thesis by (simp add: mul_add_def chk32_def)
qed

lemma paints_copy_pixel:
  assumes image: "0 \<le> row" "row < ih" "col < iw" "0 \<le> row * iw + col" "int n = iw * ih"
      "iw * ih < 2 ^ 31" "- iw < col"
    and bitmap: "r \<le> row" "row < r + bh" "c \<le> col" "col < c + bw"
      "bw * bh \<le> int (length bitmap)" "bw * bh < 2 ^ 31"
  shows "paints (copy_pixel bitmap bw r c iw row col)
    [nat (row * iw + col) \<mapsto> bitmap ! nat ((row - r) * bw + (col - c))] n"
proof -
  have "row * iw \<le> (ih - 1) * iw" using image by (intro mult_right_mono) auto
  also have "\<dots> = iw * ih - iw" by (simp add: algebra_simps)
  finally have up: "row * iw \<le> iw * ih - iw" .
  moreover have "0 \<le> row * iw" using image by simp
  ultimately have "in_i32 (row * iw)" "in_i32 (row * iw + col)"
    using image(3,4,6,7) unfolding in_i32_def by linarith+
  then have m1: "mul_add row iw col = Some (row * iw + col)"
    by (simp add: mul_add_def chk32_def)
  have n: "row * iw + col < int n" using up image(3,5) by linarith
  have m2: "mul_add (row - r) bw (col - c) = Some ((row - r) * bw + (col - c))"
    using bitmap by (intro mul_add_in [of _ bh]) auto
  have b: "0 \<le> (row - r) * bw + (col - c)" "(row - r) * bw + (col - c) < int (length bitmap)"
    using cell_bound [of "row - r" bh "col - c" bw] bitmap by auto
  show ?thesis
    using image n b by (auto simp: paints_def copy_pixel_def m1 m2 rd_in wr_in overlay_single nat_less_iff)
qed

lemma paints_copy:
  assumes "0 \<le> iw" "0 \<le> ih" "int n = iw * ih" "iw * ih < 2 ^ 31"
    and "0 \<le> r" "0 \<le> r * iw + c" "0 \<le> c \<or> bw \<le> iw \<and> - iw < c"
    and "bw * bh \<le> int (length bitmap)" "bw * bh < 2 ^ 31"
  shows "paints (for_range r (min (r + bh) ih) (\<lambda>row. for_range c (min (c + bw) iw) (\<lambda>col.
      copy_pixel bitmap bw r c iw row col))) (blit bitmap bw bh r c iw ih) n"
proof -
  let ?v = "\<lambda>row col. bitmap ! nat ((row - r) * bw + col)"
  have row: "paints (for_range c (min (c + bw) iw) (\<lambda>col. copy_pixel bitmap bw r c iw row col))
      (\<lambda>k. if span_row iw c k = row \<and> span_col iw c k < min (c + bw) iw - c
           then Some (?v row (span_col iw c k)) else None) n"
    if row: "r \<le> row" "row < min (r + bh) ih" for row
  proof (rule paints_for_range)
    fix col assume col: "c \<le> col" "col < min (c + bw) iw"
    have "r * iw \<le> row * iw" using row assms(1) by (intro mult_right_mono) auto
    then show "paints (copy_pixel bitmap bw r c iw row col) [nat (row * iw + col) \<mapsto> ?v row (col - c)] n"
      using row col assms by (intro paints_copy_pixel [of _ ih _ _ _ _ bh]) auto
  next
    fix k v assume "k < n"
    have "r * iw \<le> row * iw" using row assms(1) by (intro mult_right_mono) auto
    then have cell: "nat (row * iw + col) = k \<longleftrightarrow> span_row iw c k = row \<and> span_col iw c k = col - c"
      if "c \<le> col" "col < min (c + bw) iw" for col
      using that assms by (intro span_iff) auto
    have "0 < iw" using \<open>k < n\<close> assms by (cases "iw = 0") auto
    then have "0 \<le> span_col iw c k" by (simp add: span_col_def)
    show "((if span_row iw c k = row \<and> span_col iw c k < min (c + bw) iw - c
           then Some (?v row (span_col iw c k)) else None) = Some v) \<longleftrightarrow>
      (\<exists>col. c \<le> col \<and> col < min (c + bw) iw \<and> [nat (row * iw + col) \<mapsto> ?v row (col - c)] k = Some v)"
      (is "?L = (\<exists>col. ?R col)")
    proof
      assume ?L
      then have L: "span_row iw c k = row" "span_col iw c k < min (c + bw) iw - c"
        "v = ?v row (span_col iw c k)" by (auto split: if_splits)
      with \<open>0 \<le> span_col iw c k\<close> have rng: "c \<le> c + span_col iw c k" "c + span_col iw c k < min (c + bw) iw"
        by (simp_all add: less_diff_eq add.commute)
      with cell [OF rng] L have "?R (c + span_col iw c k)"
        by (simp add: hit_iff)
      then show "\<exists>col. ?R col" ..
    next
      assume "\<exists>col. ?R col"
      then obtain col where col: "c \<le> col" "col < min (c + bw) iw" "nat (row * iw + col) = k"
        "v = ?v row (col - c)" by (auto simp: hit_iff simp del: fun_upd_apply)
      from cell [OF col(1,2)] col(3) have "span_row iw c k = row" "span_col iw c k = col - c" by auto
      with col(2,4) show ?L by simp
    qed
  qed
  show ?thesis
    by (rule paints_for_range [OF row]) (auto simp: blit_def)
qed

lemma copy_run:
  "in_i32 (r + bh) \<Longrightarrow> in_i32 (c + bw) \<Longrightarrow> copyBitmapToImage bitmap img bw bh r c iw ih =
   for_range r (min (r + bh) ih) (\<lambda>row. for_range c (min (c + bw) iw) (\<lambda>col.
      copy_pixel bitmap bw r c iw row col)) img"
  by (auto simp: copyBitmapToImage_def chk32_def Let_def min_def)

lemma copy_above_undefined:
  assumes "r < 0" "c < iw" "0 < bh" "0 < bw" "0 \<le> iw" "0 \<le> ih" "in_i32 (r + bh)" "in_i32 (c + bw)"
  shows "copyBitmapToImage bitmap img bw bh r c iw ih = None"
proof -
  have "r * iw \<le> - 1 * iw" using assms(1,5) by (intro mult_right_mono) auto
  then have "r * iw + c < 0" using assms(2) by simp
  then have "copy_pixel bitmap bw r c iw r c b = None" for b
    by (auto simp: copy_pixel_def mul_add_def chk32_def wr_out split: bind_splits)
  moreover have "r < min (r + bh) ih" "c < min (c + bw) iw" using assms by auto
  ultimately show ?thesis
    by (simp add: copy_run [OF assms(7,8)] for_range_first)
qed

lemma blit_pixels:
  assumes "0 \<le> c" "int k < iw * ih" "0 \<le> iw" "0 \<le> ih"
  shows "blit bitmap bw bh r c iw ih k = pixels iw ih (\<lambda>row col.
      if r \<le> row \<and> row < r + bh \<and> c \<le> col \<and> col < c + bw
      then Some (bitmap ! nat ((row - r) * bw + (col - c))) else None) k"
proof -
  have k: "0 < iw" "0 \<le> int k div iw" "int k div iw < ih" "0 \<le> int k mod iw" "int k mod iw < iw"
    using row_of_cell [OF assms(2-4)] by auto
  define R C where "R = int k div iw" and "C = int k mod iw"
  have split: "int k = R * iw + C" by (simp add: R_def C_def)
  show ?thesis
  proof (cases "c \<le> C")
    case True
    with split k assms(1) have "span_row iw c k = R" "span_col iw c k = C - c"
      using span_iff [of c C iw R k] by (auto simp: C_def R_def)
    with True k assms(2) show ?thesis
      by (auto simp: blit_def pixels_def R_def [symmetric] C_def [symmetric])
  next
    case False
    have "\<not> span_col iw c k < min (c + bw) iw - c"
    proof (cases "c < iw")
      case True
      have "int k - c = (R - 1) * iw + (C - c + iw)" using split by (simp add: algebra_simps)
      moreover have "0 \<le> C - c + iw" "C - c + iw < iw" using True False k(4) by (simp_all add: C_def)
      ultimately have "span_col iw c k = C - c + iw"
        unfolding span_col_def by (metis mod_mult_self3 mod_pos_pos_trivial)
      with k(4) show ?thesis by (simp add: C_def)
    next
      case False
      then have "min (c + bw) iw - c \<le> 0" by simp
      also have "0 \<le> span_col iw c k" using k(1) by (simp add: span_col_def)
      finally show ?thesis by simp
    qed
    with False show ?thesis
      by (auto simp: blit_def pixels_def R_def [symmetric] C_def [symmetric])
  qed
qed

section \<open>Slots that can be drawn\<close>

text \<open>
  The invariant of a slot: when it is used, its position is not negative, its sizes fit in
  \<^verbatim>\<open>int\<close> and its bitmap holds its pixels.
\<close>

definition block_ok :: "u8 list \<Rightarrow> int \<Rightarrow> int \<Rightarrow> bool" where
  "block_ok b w h \<longleftrightarrow> 0 \<le> w \<and> 0 \<le> h \<and> w < 2 ^ 31 \<and> h < 2 ^ 31 \<and> w * h < 2 ^ 31
     \<and> w * h \<le> int (length b)"

definition slot_ok :: "font_slot \<Rightarrow> bool" where
  "slot_ok s \<longleftrightarrow> (f_used s \<longrightarrow> block_ok (f_buf s) (f_width s) (f_rows s) \<and> 0 \<le> f_r s \<and> 0 \<le> f_c s
     \<and> f_r s + f_rows s < 2 ^ 31 \<and> f_c s + f_width s < 2 ^ 31)"

definition slot_picture :: "int \<Rightarrow> int \<Rightarrow> font_slot \<Rightarrow> nat \<rightharpoonup> u8" where
  "slot_picture iw ih s =
     (if f_used s then pixels iw ih (\<lambda>row col.
        if f_r s \<le> row \<and> row < f_r s + f_rows s \<and> f_c s \<le> col \<and> col < f_c s + f_width s
        then Some (f_buf s ! nat ((row - f_r s) * f_width s + (col - f_c s))) else None)
      else Map.empty)"

lemma copy_picture:
  assumes img: "image_ok iw ih" "int (length img) = iw * ih"
    and b: "block_ok bitmap bw bh" and "0 \<le> r" "0 \<le> c" "r + bh < 2 ^ 31" "c + bw < 2 ^ 31"
  shows "copyBitmapToImage bitmap img bw bh r c iw ih = Some (overlay (pixels iw ih (\<lambda>row col.
      if r \<le> row \<and> row < r + bh \<and> c \<le> col \<and> col < c + bw
      then Some (bitmap ! nat ((row - r) * bw + (col - c))) else None)) img)"
proof -
  have "copyBitmapToImage bitmap img bw bh r c iw ih = Some (overlay (blit bitmap bw bh r c iw ih) img)"
    using assms by (subst copy_run)
      (auto simp: in_i32_def image_ok_def block_ok_def intro!: paintsD [OF paints_copy])
  also have "overlay (blit bitmap bw bh r c iw ih) img = overlay (pixels iw ih (\<lambda>row col.
      if r \<le> row \<and> row < r + bh \<and> c \<le> col \<and> col < c + bw
      then Some (bitmap ! nat ((row - r) * bw + (col - c))) else None)) img"
    using assms by (intro overlay_cong blit_pixels) (auto simp: image_ok_def)
  finally show ?thesis .
qed

lemma paints_copy_slot:
  assumes "image_ok iw ih" "slot_ok s"
  shows "paints (copy_slot iw ih s) (slot_picture iw ih s) (nat (iw * ih))"
proof (cases "f_used s")
  case True
  with assms have ids: "to_i32 iw = iw" "to_i32 ih = ih" "to_i32 (f_width s) = f_width s"
    "to_i32 (f_rows s) = f_rows s"
    by (simp_all add: to_i32_id in_i32_def image_ok_def slot_ok_def block_ok_def)
  show ?thesis
    unfolding paints_def copy_slot_def slot_picture_def ids
    using True assms by (auto simp: image_ok_def slot_ok_def intro!: copy_picture)
next
  case False
  then show ?thesis
    by (simp add: paints_def copy_slot_def slot_picture_def)
qed

text \<open>The slots in order, each over the ones before it.\<close>

definition slots_picture :: "int \<Rightarrow> int \<Rightarrow> font_slot list \<Rightarrow> nat \<rightharpoonup> u8" where
  "slots_picture iw ih ss = foldl (++) Map.empty (map (slot_picture iw ih) ss)"

lemma foldl_map_add: "foldl (++) g gs = g ++ foldl (++) Map.empty gs"
  by (induction gs arbitrary: g) (simp, metis foldl_Cons map_add_assoc empty_map_add)

lemma slots_picture_Nil: "slots_picture iw ih [] = Map.empty"
  by (simp add: slots_picture_def)

lemma slots_picture_Cons:
  "slots_picture iw ih (s # ss) = slot_picture iw ih s ++ slots_picture iw ih ss"
  unfolding slots_picture_def by (simp, subst foldl_map_add, rule refl)

lemma slots_picture_unused: "\<forall>s \<in> set ss. \<not> f_used s \<Longrightarrow> slots_picture iw ih ss = Map.empty"
  by (induction ss) (simp_all add: slots_picture_Nil slots_picture_Cons slot_picture_def)

lemma paints_slots:
  "image_ok iw ih \<Longrightarrow> \<forall>s \<in> set ss. slot_ok s \<Longrightarrow>
   paints (foldM (copy_slot iw ih) ss) (slots_picture iw ih ss) (nat (iw * ih))"
proof (induction ss)
  case Nil
  then show ?case by (simp add: paints_def slots_picture_Nil)
next
  case (Cons s ss)
  have "paints (\<lambda>b. Option.bind (copy_slot iw ih s b) (foldM (copy_slot iw ih) ss))
      (slot_picture iw ih s ++ slots_picture iw ih ss) (nat (iw * ih))"
    using Cons by (intro paints_bind paints_copy_slot) auto
  then show ?case by (simp add: paints_def slots_picture_Cons)
qed

section \<open>Filling in a slot\<close>

lemma set_slot_in:
  "0 \<le> i \<Longrightarrow> i < int (length (slots d)) \<Longrightarrow>
   set_slot i f d = map_option (\<lambda>s. d\<lparr>slots := (slots d)[nat i := s]\<rparr>) (f (slots d ! nat i))"
  by (cases "f (slots d ! nat i)") (simp_all add: set_slot_def rd_in wr_in)

lemma set_slot_out: "i < 0 \<or> int (length (slots d)) \<le> i \<Longrightarrow> set_slot i f d = None"
  by (simp add: set_slot_def rd_out)

definition osd_ok :: "osd \<Rightarrow> bool" where
  "osd_ok d \<longleftrightarrow> image_ok (img_width d) (img_height d) \<and> length (slots d) = FONT_ARRAY_SIZE \<and>
     (\<forall>s \<in> set (slots d). slot_ok s)"

text \<open>
  What a caller of \<^verbatim>\<open>create_font_add_array\<close> has to ensure: the bitmap it passes, or the glyph
  FreeType renders, holds its pixels and fits in \<^verbatim>\<open>int\<close>, and the position is not negative.
\<close>

definition bitmap_arg_ok :: "freetype \<Rightarrow> int \<Rightarrow> int \<Rightarrow> int \<Rightarrow> u8 \<Rightarrow> u8 list \<Rightarrow> u32 \<Rightarrow> u32 \<Rightarrow> bool" where
  "bitmap_arg_ok glyph font_select r c font_size buf font_width font_rows \<longleftrightarrow>
     (let (w, h, b) = (if font_select = 0 then (uint font_width, uint font_rows, buf)
                       else glyph font_size (word_of_int font_select))
      in block_ok b w h \<and> 0 \<le> r \<and> 0 \<le> c \<and> r + h < 2 ^ 31 \<and> c + w < 2 ^ 31)"

definition slot_bitmap :: "freetype \<Rightarrow> int \<Rightarrow> u8 \<Rightarrow> u8 list \<Rightarrow> u32 \<Rightarrow> u32 \<Rightarrow> osd \<Rightarrow> int \<times> int \<times> u8 list" where
  "slot_bitmap glyph font_select font_size buf font_width font_rows d =
     (if font_select = 0
      then (min (uint font_width) (img_width d), min (uint font_rows) (img_height d), buf)
      else let (w, h, b) = glyph font_size (word_of_int font_select) in (w, h, take (nat (w * h)) b))"

lemma create_font_slot:
  assumes ok: "osd_ok d" and id: "0 \<le> i" "i < int FONT_ARRAY_SIZE"
    and arg: "bitmap_arg_ok glyph fsel r c fsz buf fw fr"
  shows "\<exists>s. create_font_add_array glyph i fsel r c fsz buf fw fr d
        = Some (d\<lparr>slots := (slots d)[nat i := s]\<rparr>)
    \<and> f_used s \<and> f_id s = i \<and> f_r s = r \<and> f_c s = c \<and> slot_ok s
    \<and> (f_width s, f_rows s, f_buf s) = slot_bitmap glyph fsel fsz buf fw fr d"
proof -
  have img: "image_ok (img_width d) (img_height d)" using ok by (simp add: osd_ok_def)
  show ?thesis
  proof (cases "fsel = 0")
    case True
    define w h where "w = min (uint fw) (img_width d)" and "h = min (uint fr) (img_height d)"
    have wh: "(if uint fw > img_width d then img_width d mod 2 ^ 32 else uint fw) = w"
      "(if uint fr > img_height d then img_height d mod 2 ^ 32 else uint fr) = h"
      using img by (simp_all add: w_def h_def image_ok_def)
    have b: "block_ok buf (uint fw) (uint fr)" and pos: "0 \<le> r" "0 \<le> c" "r + uint fr < 2 ^ 31"
      "c + uint fw < 2 ^ 31"
      using arg True by (simp_all add: bitmap_arg_ok_def)
    have "0 \<le> w" "w \<le> uint fw" "0 \<le> h" "h \<le> uint fr"
      using img by (simp_all add: w_def h_def image_ok_def)
    moreover from this have "w * h \<le> uint fw * uint fr" by (intro mult_mono) auto
    ultimately have "block_ok buf w h" "r + h < 2 ^ 31" "c + w < 2 ^ 31"
      using b pos by (auto simp: block_ok_def)
    with pos True id ok show ?thesis
      unfolding create_font_add_array_def wh Let_def
      by (simp add: set_slot_in osd_ok_def slot_ok_def slot_bitmap_def flip: w_def h_def)
        (rule exI, rule conjI [OF refl], simp)
  next
    case False
    obtain w h b where g: "glyph fsz (word_of_int fsel) = (w, h, b)" by (metis prod_cases3)
    then have b: "block_ok b w h" "0 \<le> r" "0 \<le> c" "r + h < 2 ^ 31" "c + w < 2 ^ 31"
      using arg False by (simp_all add: bitmap_arg_ok_def)
    then have "w * h mod 2 ^ 32 = w * h" by (auto simp: block_ok_def intro!: mod_pos_pos_trivial)
    then have "memcpy_from b (w * h mod 2 ^ 32) = Some (take (nat (w * h)) b)"
      and "block_ok (take (nat (w * h)) b) w h"
      using b(1) by (auto simp: memcpy_from_def block_ok_def)
    with b g False id ok show ?thesis
      unfolding create_font_add_array_def
      by (simp add: set_slot_in osd_ok_def slot_ok_def slot_bitmap_def)
        (rule exI, rule conjI [OF refl], simp)
  qed
qed

section \<open>Properties\<close>

text \<open>
  C16: Copying a bitmap to a column of the image. The bitmap is clipped at the right and the lower
  edge and each of its remaining pixels lands at its place, every other pixel of the image is
  unchanged, and nothing outside of the two blocks is accessed; except that a negative row is not
  clipped: it is a write in front of the image whenever the bitmap has a visible column.
\<close>

theorem bitmap_copy_clips:
  assumes "image_ok iw ih" and "int (length img) = iw * ih" and "block_ok bitmap bw bh"
    and "in_i32 r" and "0 \<le> c" and "in_i32 (r + bh)" and "in_i32 (c + bw)"
  shows "copyBitmapToImage bitmap img bw bh r c iw ih =
    (if r < 0 \<and> c < iw \<and> 0 < bw \<and> 0 < bh then None
     else Some (overlay (pixels iw ih (\<lambda>row col.
       if r \<le> row \<and> row < r + bh \<and> c \<le> col \<and> col < c + bw
       then Some (bitmap ! nat ((row - r) * bw + (col - c))) else None)) img))"
proof (cases "0 \<le> r")
  case True
  then show ?thesis
    using assms copy_picture [OF assms(1-3), of r c] by (simp add: in_i32_def)
next
  case False
  show ?thesis
  proof (cases "c < iw \<and> 0 < bw \<and> 0 < bh")
    case True
    with False assms copy_above_undefined [of r c iw bh bw ih] show ?thesis
      by (simp add: image_ok_def)
  next
    case unseen: False
    have "min (c + bw) iw \<le> c \<or> min (r + bh) ih \<le> r"
    proof -
      from unseen consider "iw \<le> c" | "bw \<le> 0" | "bh \<le> 0" by fastforce
      then show ?thesis by cases (simp_all add: min_le_iff_disj)
    qed
    then have "copyBitmapToImage bitmap img bw bh r c iw ih = Some img"
      unfolding copy_run [OF assms(6,7)] for_range_def [of r] by (auto intro!: foldM_skip)
    moreover have "pixels iw ih (\<lambda>row col. if r \<le> row \<and> row < r + bh \<and> c \<le> col \<and> col < c + bw
        then Some (bitmap ! nat ((row - r) * bw + (col - c))) else None) k = Map.empty k"
      if "k < length img" for k
      using that unseen row_of_cell [of k iw ih] assms(1,2) False
      by (auto simp: pixels_def image_ok_def)
    ultimately show ?thesis using False unseen overlay_cong [of img] by simp
  qed
qed

text \<open>
  Copying a bitmap to a negative column does not clip it at the left edge: the columns left of
  the image are written to the end of the image row above.
\<close>

theorem bitmap_copy_wraps:
  assumes "image_ok iw ih" and "int (length img) = iw * ih" and "block_ok bitmap bw bh"
    and "0 < r" "r < ih" and "r + bh < 2 ^ 31" and "- iw < c" "c < 0" and "bw \<le> iw" and "0 < bh"
    and "0 \<le> j" "j < bw" "c + j < 0"
  shows "\<exists>img'. copyBitmapToImage bitmap img bw bh r c iw ih = Some img'
    \<and> img' ! nat ((r - 1) * iw + (iw + c + j)) = bitmap ! nat j"
proof -
  let ?k = "nat ((r - 1) * iw + (iw + c + j))"
  have "1 * iw \<le> r * iw" using assms(4,7,8) by (intro mult_right_mono) auto
  then have start: "0 \<le> r * iw + c" "0 \<le> r * iw + (c + j)"
    using assms(7,11) by linarith+
  have k: "?k = nat (r * iw + (c + j))" by (simp add: algebra_simps)
  have "r * iw \<le> ih * iw" using assms by (intro mult_right_mono) auto
  then have "r * iw + (c + j) < int (length img)"
    using assms(2,13) by (simp add: mult.commute [of iw ih])
  then have "?k < length img" unfolding k using start(2) by simp
  moreover have "span_row iw c ?k = r" "span_col iw c ?k = j"
    using span_iff [of c "c + j" iw r ?k] k start assms by auto
  moreover have "copyBitmapToImage bitmap img bw bh r c iw ih
      = Some (overlay (blit bitmap bw bh r c iw ih) img)"
  proof (subst copy_run)
    show "in_i32 (r + bh)" "in_i32 (c + bw)"
      using assms by (auto simp: in_i32_def image_ok_def block_ok_def)
    show "for_range r (min (r + bh) ih) (\<lambda>row. for_range c (min (c + bw) iw) (copy_pixel bitmap bw r c iw row)) img
      = Some (overlay (blit bitmap bw bh r c iw ih) img)"
      using assms start by (intro paintsD [OF paints_copy]) (auto simp: image_ok_def block_ok_def)
  qed
  ultimately show ?thesis
    using assms by (simp add: blit_def)
qed

text \<open>
  C17: Filling in a font slot. With an index below 30 and a bitmap that holds its pixels, from the
  caller or from FreeType, \<^verbatim>\<open>create_font_add_array\<close> replaces exactly that slot, by one at the given
  position with the clamped bitmap of the caller or the copied glyph, and keeps the invariant of the
  slots; with any other index it accesses memory outside of the array.
\<close>

theorem font_slot_added:
  fixes ident :: int
  assumes "osd_ok d" and "bitmap_arg_ok glyph font_select r c font_size buf font_width font_rows"
  defines "run \<equiv> create_font_add_array glyph ident font_select r c font_size buf font_width font_rows d"
  shows "(run \<noteq> None \<longleftrightarrow> 0 \<le> ident \<and> ident < 30)
    \<and> (\<forall>d'. run = Some d' \<longrightarrow> osd_ok d' \<and> (\<exists>s. d' = d\<lparr>slots := (slots d)[nat ident := s]\<rparr> \<and> f_used s
         \<and> (f_id s, f_r s, f_c s) = (ident, r, c)
         \<and> (f_width s, f_rows s, f_buf s) = slot_bitmap glyph font_select font_size buf font_width font_rows d))"
proof (cases "0 \<le> ident \<and> ident < 30")
  case True
  then obtain s where s: "run = Some (d\<lparr>slots := (slots d)[nat ident := s]\<rparr>)" "f_used s"
      "f_id s = ident" "f_r s = r" "f_c s = c" "slot_ok s"
      "(f_width s, f_rows s, f_buf s) = slot_bitmap glyph font_select font_size buf font_width font_rows d"
    using create_font_slot [OF assms(1) _ _ assms(2), of ident] by (auto simp: FONT_ARRAY_SIZE_def run_def)
  then have "osd_ok (d\<lparr>slots := (slots d)[nat ident := s]\<rparr>)"
    using assms(1) by (auto simp: osd_ok_def dest: set_update_subset_insert [THEN subsetD])
  with s True show ?thesis by auto
next
  case False
  with assms(1) have "run = None"
    unfolding run_def create_font_add_array_def
    by (intro set_slot_out) (auto simp: osd_ok_def FONT_ARRAY_SIZE_def)
  with False show ?thesis by simp
qed

section \<open>Witnesses\<close>

theorem bitmap_copy_clips_witness:
  "copyBitmapToImage [1, 2, 3, 4] [0, 0, 0, 0, 0, 0] 2 2 1 2 3 2 = Some [0, 0, 0, 0, 0, 1]
   \<and> copyBitmapToImage [1, 2, 3, 4] [0, 0, 0, 0, 0, 0] 2 2 (- 1) 2 3 2 = None"
  using bitmap_copy_clips [of 3 2 "[0, 0, 0, 0, 0, 0]" "[1, 2, 3, 4]" 2 2 1 2]
    bitmap_copy_clips [of 3 2 "[0, 0, 0, 0, 0, 0]" "[1, 2, 3, 4]" 2 2 "- 1" 2]
  by (simp add: image_ok_def in_i32_def block_ok_def overlay_def pixels_def upt_rec)

theorem bitmap_copy_wraps_witness:
  "\<exists>img'. copyBitmapToImage [7, 8, 7, 8] (replicate 9 0) 2 2 1 (- 1) 3 3 = Some img' \<and> img' ! 2 = 7"
  using bitmap_copy_wraps [of 3 3 "replicate 9 0" "[7, 8, 7, 8]" 2 2 1 "- 1" 0]
  by (simp add: image_ok_def block_ok_def)

definition no_glyph :: freetype where
  "no_glyph _ _ = (0, 0, [])"

lemma osd_new_ok: "image_ok w h \<Longrightarrow> osd_ok (osd_new w h deep)"
  by (simp add: osd_ok_def osd_new_def Let_def slot_ok_def zero_slot_def)

theorem font_slot_added_witness:
  "create_font_add_array no_glyph 30 0 5 6 4 [1, 2, 3, 4] 2 2 (osd_new 1920 1080 4) = None
   \<and> create_font_add_array no_glyph 29 0 5 6 4 [1, 2, 3, 4] 2 2 (osd_new 1920 1080 4) \<noteq> None"
proof -
  have d: "osd_ok (osd_new 1920 1080 4)" by (rule osd_new_ok) (simp add: image_ok_def)
  have a: "bitmap_arg_ok no_glyph 0 5 6 4 [1, 2, 3, 4] 2 2"
    by (simp add: bitmap_arg_ok_def block_ok_def)
  show ?thesis
    using font_slot_added [OF d a, of 30] font_slot_added [OF d a, of 29] by simp
qed

end
