(* ===== verification/TextRender.thy ===== *)
theory TextRender
  imports OsdFont
begin

text \<open>
  Rendering: the OpenCL kernel \<^verbatim>\<open>render_text\<close> of \<^verbatim>\<open>text_render.cl\<close>, one call per work item, and
  \<^verbatim>\<open>process_font\<close> of \<^verbatim>\<open>cdrawTools/OSD/COSD_OpenCL.cpp\<close>, which draws the used font slots into the
  font buffer and runs the kernel over the image. The OpenCL runtime is the list \<open>sched\<close> of the work
  items it executes, in their order; a launch that fails executes none. The read-back copies the
  device buffer to \<^verbatim>\<open>image_buffer_\<close>. Also the byte swap of \<^verbatim>\<open>test-drm-full.cc\<close>.

  Shown: whatever the order of the work items, the kernel computes the same picture, in which every
  pixel has its R and B channels exchanged or is covered by the grey value of the font buffer, alpha
  included, although the source says that alpha is set to 255; and
  the picture \<^verbatim>\<open>process_font\<close> leaves in the image.
\<close>

section \<open>The kernel\<close>

definition render_text :: "u8 list \<Rightarrow> int \<Rightarrow> int \<Rightarrow> int \<times> int \<Rightarrow> u8 list \<Rightarrow> u8 list option" where
  "render_text font_buffer width height item img =
     (let (x, y) = item
      in if x < 0 \<or> y < 0 \<or> x \<ge> width \<or> y \<ge> height then Some img
         else do {
           tmp \<leftarrow> rd_at img ((y * width + x) * 4);
           blue \<leftarrow> rd_at img ((y * width + x) * 4 + 2);
           img1 \<leftarrow> wr_at img ((y * width + x) * 4) blue;
           img2 \<leftarrow> wr_at img1 ((y * width + x) * 4 + 2) tmp;
           let index = y * width + x; rgba_index = index * 4
           in do {
             gray_value \<leftarrow> rd_at font_buffer index;
             if gray_value > 0 then do {
               img3 \<leftarrow> wr_at img2 (rgba_index + 0) gray_value;
               img4 \<leftarrow> wr_at img3 (rgba_index + 1) gray_value;
               img5 \<leftarrow> wr_at img4 (rgba_index + 2) gray_value;
               wr_at img5 (rgba_index + 3) gray_value
             } else Some img2
           }
         })"

text \<open>The work items of \<^verbatim>\<open>globalSize[2] = {img_width_, img_height_}\<close>.\<close>

definition work_items :: "int \<Rightarrow> int \<Rightarrow> (int \<times> int) list" where
  "work_items width height = [(x, y). y \<leftarrow> [0..height - 1], x \<leftarrow> [0..width - 1]]"

definition process_font :: "(int \<times> int) list \<Rightarrow> osd \<Rightarrow> osd option" where
  "process_font sched d = do {
     d1 \<leftarrow> draw_slots d;
     img \<leftarrow> foldM (render_text (all_font_buffer d1) (to_i32 (img_width d)) (to_i32 (img_height d)))
             sched (image_buffer d);
     Some (d1\<lparr>image_buffer := img\<rparr>)
   }"

section \<open>The picture of the kernel\<close>

definition rendered_byte :: "u8 list \<Rightarrow> u8 list \<Rightarrow> nat \<Rightarrow> u8" where
  "rendered_byte font_buffer img k =
     (let p = k div 4; g = font_buffer ! p
      in if g > 0 then g
         else if k mod 4 = 0 then img ! (4 * p + 2)
         else if k mod 4 = 2 then img ! (4 * p) else img ! k)"

definition rendered :: "u8 list \<Rightarrow> u8 list \<Rightarrow> nat set \<Rightarrow> u8 list" where
  "rendered font_buffer img D =
     map (\<lambda>k. if k div 4 \<in> D then rendered_byte font_buffer img k else img ! k) [0..<length img]"

lemma length_rendered [simp]: "length (rendered fb img D) = length img"
  by (simp add: rendered_def)

lemma nth_rendered:
  "k < length img \<Longrightarrow>
   rendered fb img D ! k = (if k div 4 \<in> D then rendered_byte fb img k else img ! k)"
  by (simp add: rendered_def)

lemma rendered_none [simp]: "rendered fb img {} = img"
  by (simp add: rendered_def map_nth)

lemma wr_at_nat: "k < length b \<Longrightarrow> k < 2 ^ 31 \<Longrightarrow> wr_at b (int k) v = Some (b[k := v])"
  by (simp add: wr_at_def chk32_def in_i32_def wr_in)

lemma rd_at_nat: "k < length b \<Longrightarrow> k < 2 ^ 31 \<Longrightarrow> rd_at b (int k) = Some (b ! k)"
  by (simp add: rd_at_def chk32_def in_i32_def rd_in)

text \<open>The effect of a work item on its pixel \<open>p\<close>.\<close>

definition render_cell :: "u8 list \<Rightarrow> nat \<Rightarrow> u8 list \<Rightarrow> u8 list" where
  "render_cell fb p b =
     (let b2 = b[4 * p := b ! (4 * p + 2), 4 * p + 2 := b ! (4 * p)]; g = fb ! p
      in if g > 0 then b2[4 * p := g, 4 * p + 1 := g, 4 * p + 2 := g, 4 * p + 3 := g] else b2)"

lemma render_text_cell:
  assumes "0 \<le> x" "x < w" "0 \<le> y" "y < h" and "length b = 4 * nat (w * h)"
    and "length fb = nat (w * h)" and "w * h < 2 ^ 29"
  shows "render_text fb w h (x, y) b = Some (render_cell fb (nat (y * w + x)) b)"
proof -
  define p where "p = nat (y * w + x)"
  have xy: "0 \<le> y * w + x" "y * w + x < w * h" using cell_bound [of y h x w] assms by auto
  then have "p < nat (w * h)" by (simp add: p_def)
  then have p: "p < length fb" "4 * p + 3 < length b" "4 * p + 3 < 2 ^ 31"
    using assms by auto
  define q where "q = 4 * p"
  have idx: "y * w + x = int p" "int p * 4 = int q" using xy by (simp_all add: p_def q_def)
  have q: "q + 3 < length b" "q + 3 < 2 ^ 31" using p by (simp_all add: q_def)
  have at_q: "wr_at b' (int q) v = Some (b'[q := v])" "wr_at b' (int q + 1) v = Some (b'[q + 1 := v])"
    "wr_at b' (int q + 2) v = Some (b'[q + 2 := v])" "wr_at b' (int q + 3) v = Some (b'[q + 3 := v])"
    "rd_at b' (int q) = Some (b' ! q)" "rd_at b' (int q + 2) = Some (b' ! (q + 2))"
    if "length b' = length b" for b' v
    using that q by (simp_all add: wr_at_def rd_at_def chk32_def in_i32_def wr_in rd_in nat_add_distrib)
  have at_p: "rd_at fb (int p) = Some (fb ! p)" using p by (simp add: rd_at_nat)
  have "\<not> (x < 0 \<or> y < 0 \<or> x \<ge> w \<or> y \<ge> h)" using assms by auto
  then show ?thesis
    unfolding render_text_def render_cell_def Let_def prod.case idx p_def [symmetric] q_def [symmetric]
    by (simp only: at_q at_p length_list_update if_False add_0_right bind.bind_lunit
        nat_int q_def [symmetric] if_distrib [of Some] cong: if_cong)
qed

lemma render_cell_rendered:
  assumes "4 * p + 3 < length img" and "p \<notin> D"
  shows "render_cell fb p (rendered fb img D) = rendered fb img (insert p D)"
proof (rule nth_equalityI)
  fix k
  assume "k < length (render_cell fb p (rendered fb img D))"
  then have k: "k < length img" by (simp add: render_cell_def Let_def split: if_splits)
  have q: "(4 * p + j) div 4 = p" if "j < 4" for j using that by simp
  consider "k div 4 \<noteq> p" | j where "k = 4 * p + j" "j < 4"
    using mod_less_divisor [of 4 k] mult_div_mod_eq [of 4 k] by (metis zero_less_numeral)
  then show "render_cell fb p (rendered fb img D) ! k = rendered fb img (insert p D) ! k"
  proof cases
    case 1
    then have "k \<noteq> 4 * p" "k \<noteq> 4 * p + 1" "k \<noteq> 4 * p + 2" "k \<noteq> 4 * p + 3" by auto
    with 1 k show ?thesis by (simp add: render_cell_def Let_def nth_rendered)
  next
    case 2
    then have "j = 0 \<or> j = 1 \<or> j = 2 \<or> j = 3" by auto
    with 2 k assms q [of 0] q [of 2] show ?thesis
      by (auto simp: render_cell_def rendered_byte_def Let_def nth_rendered nth_list_update)
  qed
qed (simp add: render_cell_def Let_def)

section \<open>All work items, in any order\<close>

definition item_ok :: "int \<Rightarrow> int \<Rightarrow> int \<times> int \<Rightarrow> bool" where
  "item_ok w h = (\<lambda>(x, y). 0 \<le> x \<and> x < w \<and> 0 \<le> y \<and> y < h)"

definition item_cell :: "int \<Rightarrow> int \<times> int \<Rightarrow> nat" where
  "item_cell w = (\<lambda>(x, y). nat (y * w + x))"

lemma set_work_items: "set (work_items w h) = Collect (item_ok w h)"
  by (auto simp: work_items_def item_ok_def)

lemma distinct_work_items: "distinct (work_items w h)"
proof -
  have "distinct (concat (map (\<lambda>y. map (\<lambda>x. (x, y)) [0..w - 1]) ys))" if "distinct ys" for ys :: "int list"
    using that by (induction ys) (auto simp: distinct_map inj_on_def)
  then show ?thesis by (simp add: work_items_def)
qed

lemma item_cell_inj: "inj_on (item_cell w) (Collect (item_ok w h))"
proof (rule inj_onI, clarsimp simp: item_ok_def item_cell_def)
  fix x y x' y' :: int
  assume *: "nat (y * w + x) = nat (y' * w + x')" "0 \<le> x" "x < w" "0 \<le> y" "0 \<le> x'" "x' < w" "0 \<le> y'"
  from cell_iff [of y x w "nat (y * w + x)"] cell_iff [of y' x' w "nat (y' * w + x')"] *
  show "x = x' \<and> y = y'" by metis
qed

lemma item_cells: "0 \<le> w \<Longrightarrow> 0 \<le> h \<Longrightarrow> item_cell w ` Collect (item_ok w h) = {..<nat (w * h)}"
proof (intro equalityI subsetI)
  fix k assume wh: "0 \<le> w" "0 \<le> h" and "k \<in> {..<nat (w * h)}"
  then have k: "int k < w * h" by simp
  from row_of_cell [OF k wh] have "item_ok w h (int k mod w, int k div w)"
    by (simp add: item_ok_def)
  moreover have "item_cell w (int k mod w, int k div w) = k"
    by (simp add: item_cell_def)
  ultimately show "k \<in> item_cell w ` Collect (item_ok w h)" by (metis image_eqI mem_Collect_eq)
next
  fix k assume "k \<in> item_cell w ` Collect (item_ok w h)"
  then obtain x y where "item_ok w h (x, y)" "k = nat (y * w + x)" by (auto simp: item_cell_def)
  then show "k \<in> {..<nat (w * h)}"
    using cell_bound [of y h x w] by (auto simp: item_ok_def)
qed

lemma render_items:
  assumes "length img = 4 * nat (w * h)" and "length fb = nat (w * h)" and "w * h < 2 ^ 29"
  shows "set xs \<subseteq> Collect (item_ok w h) \<Longrightarrow> distinct xs \<Longrightarrow> D \<inter> item_cell w ` set xs = {} \<Longrightarrow>
    foldM (render_text fb w h) xs (rendered fb img D) = Some (rendered fb img (D \<union> item_cell w ` set xs))"
proof (induction xs arbitrary: D)
  case (Cons a xs)
  obtain x y where a: "a = (x, y)" by fastforce
  let ?p = "item_cell w a"
  from Cons.prems a have ok: "0 \<le> x" "x < w" "0 \<le> y" "y < h" by (auto simp: item_ok_def)
  then have "?p < nat (w * h)" using cell_bound [of y h x w] by (simp add: a item_cell_def)
  then have "4 * ?p + 3 < length img" using assms(1) by linarith
  moreover have "?p \<notin> D" using Cons.prems by auto
  ultimately have step: "render_text fb w h a (rendered fb img D) = Some (rendered fb img (insert ?p D))"
    using render_text_cell [OF ok, of "rendered fb img D" fb] assms
    by (simp add: a item_cell_def render_cell_rendered)
  have "?p \<notin> item_cell w ` set xs"
    using Cons.prems(1,2) inj_onD [OF item_cell_inj [of w h], of a] by auto
  then have "foldM (render_text fb w h) xs (rendered fb img (insert ?p D))
      = Some (rendered fb img (insert ?p D \<union> item_cell w ` set xs))"
    using Cons.prems by (intro Cons.IH) auto
  with step show ?case by simp
qed simp

lemma kernel_loop:
  assumes "0 \<le> w" and "0 \<le> h" and "w * h < 2 ^ 29"
    and "length img = 4 * nat (w * h)" and "length font_buffer = nat (w * h)"
    and "mset sched = mset (work_items w h)"
  shows "foldM (render_text font_buffer w h) sched img
    = Some (map (rendered_byte font_buffer img) [0..<length img])"
proof -
  from assms(6) have s: "set sched = Collect (item_ok w h)" "distinct sched"
    using set_work_items distinct_work_items by (metis mset_eq_setD, metis mset_eq_imp_distinct_iff)
  have "foldM (render_text font_buffer w h) sched (rendered font_buffer img {})
      = Some (rendered font_buffer img ({} \<union> item_cell w ` set sched))"
    using assms s by (intro render_items) auto
  moreover have "rendered font_buffer img {..<nat (w * h)} = map (rendered_byte font_buffer img) [0..<length img]"
    using assms(4) by (auto simp: rendered_def)
  ultimately show ?thesis
    using assms(1,2) s(1) item_cells by simp
qed

section \<open>The byte swap\<close>

definition swap :: "u32 \<Rightarrow> u32" where
  "swap task =
     (let temp = task;
          second_byte = (ucast ((drop_bit 0 temp) AND 0xFF) :: u8);
          fourth_byte = (ucast ((drop_bit 16 temp) AND 0xFF) :: u8);
          temp1 = temp AND NOT (push_bit 0 0xFF);
          temp2 = temp1 AND NOT (push_bit 16 0xFF);
          temp3 = temp2 OR push_bit 0 (ucast fourth_byte);
          temp4 = temp3 OR push_bit 16 (ucast second_byte)
      in temp4)"

lemma bit_255: "bit (0xFF :: int) n \<longleftrightarrow> n < 8"
proof -
  have "(0xFF :: int) = mask 8" by (simp add: mask_eq_exp_minus_1)
  then show ?thesis by (simp only: bit_mask_iff) auto
qed

lemma bit_255_16: "bit (16711680 :: int) n \<longleftrightarrow> 16 \<le> n \<and> n < 24"
proof -
  have "(16711680 :: int) = push_bit 16 0xFF" by simp
  then show ?thesis by (simp only: bit_push_bit_iff bit_255) auto
qed

lemma swap_bit:
  "n < 32 \<Longrightarrow> bit (swap x) n \<longleftrightarrow> bit x (if n < 8 then n + 16 else if 16 \<le> n \<and> n < 24 then n - 16 else n)"
  by (auto simp: swap_def Let_def bit_simps bit_255 bit_255_16 add.commute)

section \<open>Properties\<close>

text \<open>
  C15: The kernel computes the same picture for every order of its work items. When the runtime runs
  each work item once, in any order, no item accesses memory outside of the two buffers, and in the
  result every pixel whose font byte is not zero has that grey value in all four channels, the alpha
  channel too, where the kernel's comment has 255 and full opacity; and every other pixel has its
  first and third channel exchanged.
\<close>

theorem kernel_any_order:
  assumes "0 \<le> w" and "0 \<le> h" and "w * h < 2 ^ 29"
    and "length img = 4 * nat (w * h)" and "length font_buffer = nat (w * h)"
    and "mset sched = mset (work_items w h)"
  shows "foldM (render_text font_buffer w h) sched img
    = Some (map (rendered_byte font_buffer img) [0..<length img])"
  using assms by (rule kernel_loop)

text \<open>
  C8: The picture that \<^verbatim>\<open>process_font\<close> leaves. On slots that satisfy their invariant and an image of
  four bytes per pixel, and for every order of the work items, \<^verbatim>\<open>process_font\<close> accesses no memory
  outside of its buffers; the font buffer is black except for the used slots, a later slot over an
  earlier one, each clipped to the image; and the image is the kernel's picture of that buffer: the
  grey value in all four channels, so that text is as transparent as it is dark, contrary to the
  comment of the kernel, which sets alpha to 255. The slots are unchanged.
\<close>

theorem process_font_picture:
  assumes "osd_ok d" and "img_width d * img_height d < 2 ^ 29"
    and "int (length (image_buffer d)) = 4 * (img_width d * img_height d)"
    and "mset sched = mset (work_items (img_width d) (img_height d))"
  shows "\<exists>d'. process_font sched d = Some d' \<and> slots d' = slots d
    \<and> all_font_buffer d' = overlay (slots_picture (img_width d) (img_height d) (slots d))
         (replicate (nat (img_width d * img_height d)) 0)
    \<and> image_buffer d' = map (rendered_byte (all_font_buffer d') (image_buffer d)) [0..<length (image_buffer d)]"
proof -
  let ?w = "img_width d" and ?h = "img_height d"
  let ?fb = "overlay (slots_picture ?w ?h (slots d)) (replicate (nat (?w * ?h)) 0)"
  from assms(1) have img: "image_ok ?w ?h" and ok: "\<forall>s \<in> set (slots d). slot_ok s"
    by (simp_all add: osd_ok_def)
  then have "draw_slots d = Some (d\<lparr>all_font_buffer := ?fb\<rparr>)"
    using paintsD [OF paints_slots [OF img ok]] to_u64_id [of "?w * ?h"] by (simp add: draw_slots_def image_ok_def)
  moreover have "to_i32 ?w = ?w" "to_i32 ?h = ?h" "0 \<le> ?w" "0 \<le> ?h"
    using img by (auto simp: to_i32_id in_i32_def image_ok_def)
  moreover from this have "foldM (render_text ?fb ?w ?h) sched (image_buffer d)
      = Some (map (rendered_byte ?fb (image_buffer d)) [0..<length (image_buffer d)])"
    using assms(2-4) by (intro kernel_loop) auto
  ultimately show ?thesis by (simp add: process_font_def)
qed

text \<open>
  \<^verbatim>\<open>swap\<close> exchanges the first and the third byte of a pixel, keeps the other two, and undoes
  itself.
\<close>

theorem swap_exchanges_bytes:
  "swap (swap x) = x
   \<and> (ucast (swap x) :: u8) = ucast (drop_bit 16 x)
   \<and> (ucast (drop_bit 16 (swap x)) :: u8) = ucast x
   \<and> (ucast (drop_bit 8 (swap x)) :: u8) = ucast (drop_bit 8 x)
   \<and> (ucast (drop_bit 24 (swap x)) :: u8) = ucast (drop_bit 24 x)"
proof (intro conjI)
  show "swap (swap x) = x"
  proof (rule bit_word_eqI)
    fix n :: nat
    assume n: "n < LENGTH(32)"
    consider "n < 8" | "8 \<le> n" "n < 16" | "16 \<le> n" "n < 24" | "24 \<le> n" by linarith
    then show "bit (swap (swap x)) n = bit x n"
      using n by cases (auto simp: swap_bit)
  qed
qed (rule bit_word_eqI, simp add: bit_simps swap_bit add.commute)+

section \<open>Witnesses\<close>

theorem kernel_any_order_witness:
  "foldM (render_text [0, 9] 2 1) [(1, 0), (0, 0)] [1, 2, 3, 4, 5, 6, 7, 8] = Some [3, 2, 1, 4, 9, 9, 9, 9]"
proof -
  have "work_items 2 1 = [(0, 0), (1, 0)]" by code_simp
  then show ?thesis
    using kernel_any_order [of 2 1 "[1, 2, 3, 4, 5, 6, 7, 8]" "[0, 9]" "[(1, 0), (0, 0)]"]
    by (simp add: rendered_byte_def upt_rec)
qed

definition tiny_osd :: osd where
  "tiny_osd = (osd_new 2 1 4)\<lparr>image_buffer := [1, 2, 3, 4, 5, 6, 7, 8],
     slots := zero_slot\<lparr>f_used := True, f_c := 1, f_width := 2, f_rows := 1, f_buf := [9, 9]\<rparr>
       # replicate 29 zero_slot\<rparr>"

theorem process_font_picture_witness:
  "\<exists>d'. process_font [(1, 0), (0, 0)] tiny_osd = Some d' \<and> image_buffer d' = [3, 2, 1, 4, 9, 9, 9, 9]"
proof -
  have ok: "osd_ok tiny_osd"
    by (auto simp: tiny_osd_def osd_new_def Let_def osd_ok_def image_ok_def FONT_ARRAY_SIZE_def slot_ok_def
        zero_slot_def block_ok_def)
  have items: "work_items 2 1 = [(0, 0), (1, 0)]" by code_simp
  have dims: "img_width tiny_osd = 2" "img_height tiny_osd = 1" "image_buffer tiny_osd = [1, 2, 3, 4, 5, 6, 7, 8]"
    by (simp_all add: tiny_osd_def osd_new_def Let_def)
  have "slots_picture 2 1 (slots tiny_osd) k = (if k = 1 then Some 9 else None)" if "k < 2" for k
  proof -
    have "slots_picture 2 1 (replicate 29 zero_slot) = Map.empty"
      by (rule slots_picture_unused) (simp add: zero_slot_def)
    with that show ?thesis
      by (auto simp: slots_picture_Cons tiny_osd_def slot_picture_def pixels_def zero_slot_def
          less_2_cases_iff)
  qed
  then have fb: "overlay (slots_picture 2 1 (slots tiny_osd)) (replicate (nat (2 * 1)) 0) = [0, 9]"
    by (simp add: overlay_def upt_rec eval_nat_numeral)
  have mset: "mset [(1, 0), (0, 0)] = mset (work_items 2 1)" by (simp add: items)
  obtain d' where d': "process_font [(1, 0), (0, 0)] tiny_osd = Some d'"
    "all_font_buffer d' = [0, 9]"
    "image_buffer d' = map (rendered_byte [0, 9] (image_buffer tiny_osd)) [0..<length (image_buffer tiny_osd)]"
    using process_font_picture [OF ok, of "[(1, 0), (0, 0)]"] mset fb by (auto simp: dims)
  then show ?thesis
    by (intro exI [of _ d']) (simp add: dims rendered_byte_def upt_rec)
qed

end
