(* ===== verification/Modeset.thy ===== *)
theory Modeset
  imports Prelude
begin

text \<open>
  The mode setting of \<^verbatim>\<open>test-drm-full.cc\<close>: opening the card, finding a free CRTC for each connected
  connector, creating and mapping a framebuffer for it, setting the CRTCs, and the cleanup; \<^verbatim>\<open>main\<close>,
  with the drawing in between, is in \<open>DrawLoop\<close>. The graphics
  stack (libdrm, the kernel, \<^verbatim>\<open>mmap\<close>) is the parameter \<open>env\<close>: each call's result as a function
  of the calls made before, and of the call's arguments; a failing call gives \<open>Inl errno\<close>, or no
  object where libdrm returns a null pointer. Every call is recorded in the history, newest first;
  \<open>acquired\<close> and \<open>released\<close> say which resource a call hands out or takes back, and the accounting of
  the prelude counts what is live, the memory of the device structures included. Their allocation is
  taken to succeed.

  Shown: the search finds a CRTC exactly when there is a free one; no two devices share a CRTC; on
  every path of the preparation, errors included, exactly the resources of the devices in the list
  stay live; and the cleanup restores every CRTC and releases everything, exactly when every saved
  configuration could be read.
\<close>

section \<open>Calls and the environment\<close>

datatype drm_call =
    Open "u32 option"
  | GetCap "u64 option"
  | Close u32
  | GetResources bool
  | FreeResources
  | GetConnector u32 bool
  | FreeConnector u32
  | GetEncoder u32 bool
  | FreeEncoder u32
  | CreateDumb u32 u32 "u32 option"
  | DestroyDumb u32
  | AddFB u32 u32 u32 u32 "u32 option"
  | RmFB u32
  | MapDumb u32 bool
  | Mmap u32 u64 "nat option"
  | Munmap nat u32
  | GetCrtc u32 bool
  | SetCrtc u32 u32 u32 u32 u32 int
  | FreeCrtc u32
  | Malloc nat
  | Free nat

datatype resource = Heap nat | Fd u32 | Resources | Connector u32 | Encoder u32 | Dumb u32 | Fb u32 | Mapping nat | Crtc u32

fun acquired :: "drm_call \<Rightarrow> resource multiset" where
  "acquired (Open (Some fd)) = {#Fd fd#}"
| "acquired (GetResources True) = {#Resources#}"
| "acquired (GetConnector c True) = {#Connector c#}"
| "acquired (GetEncoder e True) = {#Encoder e#}"
| "acquired (CreateDumb w h (Some b)) = {#Dumb b#}"
| "acquired (AddFB w h s b (Some f)) = {#Fb f#}"
| "acquired (Mmap n off (Some a)) = {#Mapping a#}"
| "acquired (GetCrtc c True) = {#Crtc c#}"
| "acquired (Malloc a) = {#Heap a#}"
| "acquired _ = {#}"

fun released :: "drm_call \<Rightarrow> resource multiset" where
  "released (Close fd) = {#Fd fd#}"
| "released FreeResources = {#Resources#}"
| "released (FreeConnector c) = {#Connector c#}"
| "released (FreeEncoder e) = {#Encoder e#}"
| "released (DestroyDumb b) = {#Dumb b#}"
| "released (RmFB f) = {#Fb f#}"
| "released (Munmap a n) = {#Mapping a#}"
| "released (FreeCrtc c) = {#Crtc c#}"
| "released (Free a) = {#Heap a#}"
| "released _ = {#}"

interpretation drm: accounting acquired released
proof
  show "acquired e = {#} \<or> released e = {#}" for e
    by (cases e rule: acquired.cases) simp_all
qed

abbreviation held :: "drm_call list \<Rightarrow> resource multiset" where
  "held \<equiv> live acquired released"

record drm_mode =
  hdisplay :: u16
  vdisplay :: u16

record drm_connector =
  connector_id :: u32
  connected :: bool
  modes :: "drm_mode list"
  encoder_id :: u32
  encoders :: "u32 list"

record drm_encoder =
  enc_crtc_id :: u32
  possible_crtcs :: u32

record drm_crtc =
  sc_crtc_id :: u32
  sc_buffer_id :: u32
  sc_x :: u32
  sc_y :: u32

record drm_res =
  res_connectors :: "u32 list"
  res_crtcs :: "u32 list"

type_synonym calls = "drm_call list"

record drm_env =
  e_open :: "calls \<Rightarrow> int + u32"
  e_cap :: "calls \<Rightarrow> u64 option"
  e_resources :: "calls \<Rightarrow> int + drm_res"
  e_connector :: "calls \<Rightarrow> u32 \<Rightarrow> drm_connector option"
  e_encoder :: "calls \<Rightarrow> u32 \<Rightarrow> drm_encoder option"
  e_create_dumb :: "calls \<Rightarrow> u32 \<Rightarrow> u32 \<Rightarrow> int + (u32 \<times> u64 \<times> u32)"
  e_add_fb :: "calls \<Rightarrow> u32 \<Rightarrow> u32 \<Rightarrow> u32 \<Rightarrow> u32 \<Rightarrow> int + u32"
  e_map_dumb :: "calls \<Rightarrow> u32 \<Rightarrow> int + u64"
  e_mmap :: "calls \<Rightarrow> u32 \<Rightarrow> u64 \<Rightarrow> int + nat"
  e_get_crtc :: "calls \<Rightarrow> u32 \<Rightarrow> drm_crtc option"
  e_set_crtc :: "calls \<Rightarrow> int"
  e_malloc :: "calls \<Rightarrow> nat"

section \<open>Devices\<close>

text \<open>A device structure; \<open>d_addr\<close> is the block it is stored in.\<close>

record modeset_dev =
  d_addr :: nat
  d_width :: u32
  d_height :: u32
  d_stride :: u32
  d_size :: u32
  d_handle :: u32
  d_map :: nat
  d_mode :: drm_mode
  d_fb :: u32
  d_conn :: u32
  d_crtc :: u32
  d_saved :: "drm_crtc option"

text \<open>\<^verbatim>\<open>memset(dev, 0, sizeof( *dev))\<close>.\<close>

definition zero_dev :: modeset_dev where
  "zero_dev = \<lparr>d_addr = 0, d_width = 0, d_height = 0, d_stride = 0, d_size = 0, d_handle = 0, d_map = 0,
     d_mode = \<lparr>hdisplay = 0, vdisplay = 0\<rparr>, d_fb = 0, d_conn = 0, d_crtc = 0, d_saved = None\<rparr>"

record mstate =
  calls :: calls
  modeset_list :: "modeset_dev list"

definition ENOENT :: int where "ENOENT = 2"
definition EFAULT :: int where "EFAULT = 14"
definition EOPNOTSUPP :: int where "EOPNOTSUPP = 95"

abbreviation call :: "drm_call \<Rightarrow> mstate \<Rightarrow> mstate" where
  "call c s \<equiv> s\<lparr>calls := c # calls s\<rparr>"

section \<open>The functions\<close>

definition modeset_open :: "drm_env \<Rightarrow> mstate \<Rightarrow> (int + u32) \<times> mstate" where
  "modeset_open env s =
     (case e_open env (calls s) of
        Inl err \<Rightarrow> (Inl (- err), call (Open None) s)
      | Inr fd \<Rightarrow>
          let s1 = call (Open (Some fd)) s; cap = e_cap env (calls s1); s2 = call (GetCap cap) s1
          in if cap = None \<or> cap = Some 0 then (Inl (- EOPNOTSUPP), call (Close fd) s2)
             else (Inr fd, s2))"

definition get_encoder :: "drm_env \<Rightarrow> u32 \<Rightarrow> mstate \<Rightarrow> drm_encoder option \<times> mstate" where
  "get_encoder env i s =
     (let e = e_encoder env (calls s) i in (e, call (GetEncoder i (e \<noteq> None)) s))"

text \<open>The search of \<^verbatim>\<open>modeset_list\<close> for a user of the CRTC; -1 when there is one.\<close>

definition claim_crtc :: "modeset_dev list \<Rightarrow> u32 \<Rightarrow> int" where
  "claim_crtc devs crtc = (if list_ex (\<lambda>d. d_crtc d = crtc) devs then - 1 else sint crtc)"

text \<open>
  The loop over the global CRTCs, from index \<open>j\<close>. From index 32 on, the shift \<^verbatim>\<open>1 << j\<close> of an \<^verbatim>\<open>int\<close>
  is undefined; the kernel's mask \<^verbatim>\<open>possible_crtcs\<close> limits it to 32 CRTCs, as the property of the
  search states.
\<close>

primrec first_crtc :: "modeset_dev list \<Rightarrow> u32 \<Rightarrow> nat \<Rightarrow> u32 list \<Rightarrow> u32 option" where
  "first_crtc devs possible j [] = None"
| "first_crtc devs possible j (c # cs) =
     (if possible AND push_bit j 1 = 0 then first_crtc devs possible (Suc j) cs
      else if claim_crtc devs c \<ge> 0 then Some c
      else first_crtc devs possible (Suc j) cs)"

primrec try_encoders :: "drm_env \<Rightarrow> u32 list \<Rightarrow> u32 list \<Rightarrow> modeset_dev \<Rightarrow> mstate \<Rightarrow> int \<times> modeset_dev \<times> mstate" where
  "try_encoders env crtcs [] dev s = (- ENOENT, dev, s)"
| "try_encoders env crtcs (e # es) dev s =
     (let (enc, s1) = get_encoder env e s
      in case enc of
           None \<Rightarrow> try_encoders env crtcs es dev s1
         | Some en \<Rightarrow>
             (case first_crtc (modeset_list s1) (possible_crtcs en) 0 crtcs of
                Some c \<Rightarrow> (0, dev\<lparr>d_crtc := c\<rparr>, call (FreeEncoder e) s1)
              | None \<Rightarrow> try_encoders env crtcs es dev (call (FreeEncoder e) s1)))"

definition modeset_find_crtc ::
  "drm_env \<Rightarrow> drm_res \<Rightarrow> drm_connector \<Rightarrow> modeset_dev \<Rightarrow> mstate \<Rightarrow> int \<times> modeset_dev \<times> mstate" where
  "modeset_find_crtc env res conn dev s =
     (let (enc, s1) = (if encoder_id conn \<noteq> 0 then get_encoder env (encoder_id conn) s else (None, s))
      in case enc of
           None \<Rightarrow> try_encoders env (res_crtcs res) (encoders conn) dev s1
         | Some en \<Rightarrow>
             let s2 = call (FreeEncoder (encoder_id conn)) s1
             in if enc_crtc_id en \<noteq> 0 \<and> claim_crtc (modeset_list s1) (enc_crtc_id en) \<ge> 0
                then (0, dev\<lparr>d_crtc := enc_crtc_id en\<rparr>, s2)
                else try_encoders env (res_crtcs res) (encoders conn) dev s2)"

definition modeset_create_fb :: "drm_env \<Rightarrow> modeset_dev \<Rightarrow> mstate \<Rightarrow> int \<times> modeset_dev \<times> mstate" where
  "modeset_create_fb env dev s =
     (case e_create_dumb env (calls s) (d_width dev) (d_height dev) of
        Inl err \<Rightarrow> (- err, dev, call (CreateDumb (d_width dev) (d_height dev) None) s)
      | Inr (pitch, size', handle) \<Rightarrow>
          let s1 = call (CreateDumb (d_width dev) (d_height dev) (Some handle)) s;
              dev1 = dev\<lparr>d_stride := pitch, d_size := ucast size', d_handle := handle\<rparr>
          in case e_add_fb env (calls s1) (d_width dev1) (d_height dev1) (d_stride dev1) (d_handle dev1) of
               Inl err \<Rightarrow>
                 (- err, dev1, call (DestroyDumb handle)
                    (call (AddFB (d_width dev1) (d_height dev1) (d_stride dev1) (d_handle dev1) None) s1))
             | Inr fb \<Rightarrow>
                 let s2 = call (AddFB (d_width dev1) (d_height dev1) (d_stride dev1) (d_handle dev1) (Some fb)) s1;
                     dev2 = dev1\<lparr>d_fb := fb\<rparr>
                 in case e_map_dumb env (calls s2) (d_handle dev2) of
                      Inl err \<Rightarrow>
                        (- err, dev2, call (DestroyDumb handle) (call (RmFB fb)
                           (call (MapDumb (d_handle dev2) False) s2)))
                    | Inr offset \<Rightarrow>
                        let s3 = call (MapDumb (d_handle dev2) True) s2
                        in case e_mmap env (calls s3) (d_size dev2) offset of
                             Inl err \<Rightarrow>
                               (- err, dev2, call (DestroyDumb handle) (call (RmFB fb)
                                  (call (Mmap (d_size dev2) offset None) s3)))
                           | Inr addr \<Rightarrow>
                               (0, dev2\<lparr>d_map := addr\<rparr>, call (Mmap (d_size dev2) offset (Some addr)) s3))"

definition modeset_setup_dev ::
  "drm_env \<Rightarrow> drm_res \<Rightarrow> drm_connector \<Rightarrow> modeset_dev \<Rightarrow> mstate \<Rightarrow> int \<times> modeset_dev \<times> mstate" where
  "modeset_setup_dev env res conn dev s =
     (if \<not> connected conn then (- ENOENT, dev, s)
      else case modes conn of
        [] \<Rightarrow> (- EFAULT, dev, s)
      | m # _ \<Rightarrow>
          let dev1 = dev\<lparr>d_mode := m, d_width := ucast (hdisplay m), d_height := ucast (vdisplay m)\<rparr>;
              (ret, dev2, s1) = modeset_find_crtc env res conn dev1 s
          in if ret \<noteq> 0 then (ret, dev2, s1)
             else modeset_create_fb env dev2 s1)"

primrec prepare_loop :: "drm_env \<Rightarrow> drm_res \<Rightarrow> u32 list \<Rightarrow> mstate \<Rightarrow> mstate" where
  "prepare_loop env res [] s = s"
| "prepare_loop env res (c # cs) s =
     (let conn = e_connector env (calls s) c; s1 = call (GetConnector c (conn \<noteq> None)) s
      in case conn of
           None \<Rightarrow> prepare_loop env res cs s1
         | Some cn \<Rightarrow>
             let a = e_malloc env (calls s1);
                 (ret, dev, s2) = modeset_setup_dev env res cn (zero_dev\<lparr>d_addr := a, d_conn := connector_id cn\<rparr>)
                                    (call (Malloc a) s1)
             in if ret \<noteq> 0 then prepare_loop env res cs (call (FreeConnector c) (call (Free a) s2))
                else let s3 = call (FreeConnector c) s2
                     in prepare_loop env res cs (s3\<lparr>modeset_list := dev # modeset_list s3\<rparr>))"

definition modeset_prepare :: "drm_env \<Rightarrow> mstate \<Rightarrow> int \<times> mstate" where
  "modeset_prepare env s =
     (case e_resources env (calls s) of
        Inl err \<Rightarrow> (- err, call (GetResources False) s)
      | Inr res \<Rightarrow>
          (0, call FreeResources (prepare_loop env res (res_connectors res) (call (GetResources True) s))))"

text \<open>The loop of \<^verbatim>\<open>main\<close> that saves each CRTC's configuration and sets the new one.\<close>

primrec set_crtcs :: "drm_env \<Rightarrow> modeset_dev list \<Rightarrow> calls \<Rightarrow> modeset_dev list \<times> calls" where
  "set_crtcs env [] h = ([], h)"
| "set_crtcs env (d # ds) h =
     (let saved = e_get_crtc env h (d_crtc d); h1 = GetCrtc (d_crtc d) (saved \<noteq> None) # h;
          h2 = SetCrtc (d_crtc d) (d_fb d) 0 0 (d_conn d) (e_set_crtc env h1) # h1;
          (ds', h3) = set_crtcs env ds h2
      in (d\<lparr>d_saved := saved\<rparr> # ds', h3))"

text \<open>
  The cleanup of one device: undefined (\<open>None\<close>) when the saved configuration is the null pointer.
\<close>

definition cleanup_dev :: "drm_env \<Rightarrow> modeset_dev \<Rightarrow> calls \<Rightarrow> calls option" where
  "cleanup_dev env d h =
     (case d_saved d of
        None \<Rightarrow> None
      | Some c \<Rightarrow>
          let h1 = SetCrtc (sc_crtc_id c) (sc_buffer_id c) (sc_x c) (sc_y c) (d_conn d) (e_set_crtc env h) # h
          in Some (Free (d_addr d) # DestroyDumb (d_handle d) # RmFB (d_fb d) # Munmap (d_map d) (d_size d)
                   # FreeCrtc (d_crtc d) # h1))"

definition modeset_cleanup :: "drm_env \<Rightarrow> mstate \<Rightarrow> mstate option" where
  "modeset_cleanup env s =
     map_option (\<lambda>h. s\<lparr>calls := h, modeset_list := []\<rparr>) (foldM (cleanup_dev env) (modeset_list s) (calls s))"

text \<open>
  \<^verbatim>\<open>next_color\<close>, with the value of \<^verbatim>\<open>rand()\<close> as an argument; the product is computed in
  \<^verbatim>\<open>unsigned int\<close> and the sum is cut to a byte.
\<close>

definition next_color :: "u32 \<Rightarrow> bool \<Rightarrow> u8 \<Rightarrow> u32 \<Rightarrow> u8 \<times> bool" where
  "next_color rand up cur mod' =
     (let nxt = (ucast (ucast cur + (if up then 1 else - 1) * (rand mod mod')) :: u8)
      in if (up \<and> nxt < cur) \<or> (\<not> up \<and> nxt > cur) then (cur, \<not> up) else (nxt, up))"

section \<open>What a device holds\<close>

definition fb_res :: "modeset_dev \<Rightarrow> resource multiset" where
  "fb_res d = {#Dumb (d_handle d), Fb (d_fb d), Mapping (d_map d)#}"

definition dev_res :: "modeset_dev \<Rightarrow> resource multiset" where
  "dev_res d = fb_res d + {#Heap (d_addr d)#}"

definition devs_res :: "modeset_dev list \<Rightarrow> resource multiset" where
  "devs_res ds = sum_list (map dev_res ds)"

definition saved_res :: "modeset_dev list \<Rightarrow> resource multiset" where
  "saved_res ds = mset (map (\<lambda>d. Crtc (d_crtc d)) (filter (\<lambda>d. d_saved d \<noteq> None) ds))"

lemma devs_res_simps [simp]: "devs_res [] = {#}" "devs_res (d # ds) = dev_res d + devs_res ds"
  by (simp_all add: devs_res_def)

text \<open>A failing call sets a nonzero \<^verbatim>\<open>errno\<close>, as POSIX and libdrm document.\<close>

definition errno_ok :: "drm_env \<Rightarrow> bool" where
  "errno_ok env \<longleftrightarrow> (\<forall>h err. (e_open env h = Inl err \<longrightarrow> err \<noteq> 0) \<and> (e_resources env h = Inl err \<longrightarrow> err \<noteq> 0)
     \<and> (\<forall>w k. e_create_dumb env h w k = Inl err \<longrightarrow> err \<noteq> 0)
     \<and> (\<forall>w k p b. e_add_fb env h w k p b = Inl err \<longrightarrow> err \<noteq> 0)
     \<and> (\<forall>b. e_map_dumb env h b = Inl err \<longrightarrow> err \<noteq> 0)
     \<and> (\<forall>n off. e_mmap env h n off = Inl err \<longrightarrow> err \<noteq> 0))"

text \<open>The search of a CRTC holds no encoder when it returns, and what it finds is free.\<close>

definition free_crtc :: "modeset_dev list \<Rightarrow> u32 \<Rightarrow> bool" where
  "free_crtc ds c \<longleftrightarrow> c \<notin> d_crtc ` set ds \<and> uint c < 2 ^ 31"

lemma sint_nonneg: "0 \<le> sint (c :: u32) \<longleftrightarrow> uint c < 2 ^ 31"
proof -
  have "uint c < 2 ^ 32" using unsigned_less [of c, where ?'a = int] by simp
  then have "uint c div 2 ^ 31 = (if uint c < 2 ^ 31 then 0 else 1)"
    by (auto intro: int_div_pos_eq [where r = "uint c - 2 ^ 31"])
  then show ?thesis
    by (auto simp: sint_uint signed_take_bit_nonnegative_iff bit_iff_odd)
qed

lemma claim_crtc_iff: "claim_crtc ds c \<ge> 0 \<longleftrightarrow> free_crtc ds c"
  using sint_nonneg [of c] by (auto simp: claim_crtc_def list_ex_iff free_crtc_def)

lemma claim_crtc_free: "claim_crtc ds c \<ge> 0 \<Longrightarrow> c \<notin> d_crtc ` set ds"
  by (simp add: claim_crtc_iff free_crtc_def)

lemma test_bit: "possible AND push_bit j 1 = 0 \<longleftrightarrow> \<not> bit (possible :: u32) j"
proof -
  have "possible AND push_bit j 1 = (if bit possible j then push_bit j 1 else 0)"
    by (rule bit_eqI) (auto simp: bit_simps)
  moreover have "bit possible j \<Longrightarrow> push_bit j 1 \<noteq> (0 :: u32)"
    using bit_imp_le_length [of possible j] by (auto simp: push_bit_eq_mult)
  ultimately show ?thesis by auto
qed

lemmas test_bits = test_bit test_bit [simplified]

lemma first_crtc_Some:
  "first_crtc ds possible j cs = Some c \<Longrightarrow>
   \<exists>i < length cs. c = cs ! i \<and> bit possible (j + i) \<and> free_crtc ds c"
proof (induction cs arbitrary: j)
  case (Cons x cs)
  then show ?case
    by (cases "bit possible j \<and> free_crtc ds x")
      (fastforce simp: test_bits claim_crtc_iff split: if_splits intro: exI [of _ 0] exI [of _ "Suc _"])+
qed simp

lemma first_crtc_None:
  "first_crtc ds possible j cs = None \<longleftrightarrow>
   (\<forall>i < length cs. \<not> (bit possible (j + i) \<and> free_crtc ds (cs ! i)))"
  by (induction cs arbitrary: j) (auto simp: test_bits claim_crtc_iff less_Suc_eq_0_disj nth_Cons')

lemma get_encoder_held:
  "get_encoder env i s = (e, s1) \<Longrightarrow>
   modeset_list s1 = modeset_list s \<and>
   held (calls s1) = (if e = None then held (calls s) else add_mset (Encoder i) (held (calls s)))"
  by (auto simp: get_encoder_def Let_def)

definition found_crtc :: "mstate \<Rightarrow> modeset_dev \<Rightarrow> int \<times> modeset_dev \<times> mstate \<Rightarrow> bool" where
  "found_crtc s dev = (\<lambda>(ret, dev', s'). held (calls s') = held (calls s) \<and> modeset_list s' = modeset_list s \<and>
     (ret = 0 \<and> dev' = dev\<lparr>d_crtc := d_crtc dev'\<rparr> \<and> d_crtc dev' \<notin> d_crtc ` set (modeset_list s)
      \<or> ret = - ENOENT \<and> dev' = dev))"

lemma try_encoders_found: "found_crtc s dev (try_encoders env crtcs es dev s)"
proof (induction es arbitrary: s)
  case Nil
  then show ?case by (simp add: found_crtc_def)
next
  case (Cons e es)
  obtain enc s1 where g: "get_encoder env e s = (enc, s1)" by fastforce
  note held = get_encoder_held [OF g]
  show ?case
  proof (cases enc)
    case None
    with Cons.IH [of s1] g held show ?thesis by (simp add: found_crtc_def)
  next
    case (Some en)
    let ?s2 = "call (FreeEncoder e) s1"
    have held2: "held (calls ?s2) = held (calls s)" "modeset_list ?s2 = modeset_list s"
      using held Some by simp_all
    show ?thesis
    proof (cases "first_crtc (modeset_list s1) (possible_crtcs en) 0 crtcs")
      case None
      with Some g held2 Cons.IH [of ?s2] show ?thesis by (simp add: found_crtc_def)
    next
      case c: (Some c)
      from first_crtc_Some [OF c] have "free_crtc (modeset_list s1) c" by blast
      then have "c \<notin> d_crtc ` set (modeset_list s1)" by (simp add: free_crtc_def)
      moreover have "try_encoders env crtcs (e # es) dev s = (0, dev\<lparr>d_crtc := c\<rparr>, ?s2)"
        using c Some g by simp
      ultimately show ?thesis using held2 held by (simp add: found_crtc_def)
    qed
  qed
qed

lemma find_crtc_found: "found_crtc s dev (modeset_find_crtc env res conn dev s)"
proof (cases "encoder_id conn = 0")
  case True
  then show ?thesis
    using try_encoders_found [of s dev] by (simp add: modeset_find_crtc_def)
next
  case False
  obtain enc s1 where g: "get_encoder env (encoder_id conn) s = (enc, s1)" by fastforce
  note held = get_encoder_held [OF g]
  show ?thesis
  proof (cases enc)
    case None
    then show ?thesis
      using False g held try_encoders_found [of s1 dev env "res_crtcs res" "encoders conn"]
      by (simp add: modeset_find_crtc_def found_crtc_def)
  next
    case (Some en)
    let ?s2 = "call (FreeEncoder (encoder_id conn)) s1"
    have held2: "held (calls ?s2) = held (calls s)" "modeset_list ?s2 = modeset_list s"
      using held Some by simp_all
    show ?thesis
      using False g held Some held2 try_encoders_found [of ?s2 dev env "res_crtcs res" "encoders conn"]
        claim_crtc_free [of "modeset_list s1" "enc_crtc_id en"]
      by (auto simp: modeset_find_crtc_def found_crtc_def Let_def)
  qed
qed

text \<open>The framebuffer: on success exactly the three resources of the device, on any error none.\<close>

definition made_dev :: "mstate \<Rightarrow> int \<times> modeset_dev \<times> mstate \<Rightarrow> bool" where
  "made_dev s = (\<lambda>(ret, dev', s'). modeset_list s' = modeset_list s
     \<and> held (calls s') = (if ret = 0 then held (calls s) + fb_res dev' else held (calls s)))"

lemma create_fb_made:
  assumes "errno_ok env"
  shows "made_dev s (modeset_create_fb env dev s)
    \<and> d_crtc (fst (snd (modeset_create_fb env dev s))) = d_crtc dev
    \<and> d_addr (fst (snd (modeset_create_fb env dev s))) = d_addr dev"
proof -
  have err: "e_create_dumb env h w k = Inl e \<Longrightarrow> e \<noteq> 0" "e_add_fb env h w k p b = Inl e \<Longrightarrow> e \<noteq> 0"
    "e_map_dumb env h b = Inl e \<Longrightarrow> e \<noteq> 0" "e_mmap env h p off = Inl e \<Longrightarrow> e \<noteq> 0" for h w k p b off e
    using assms by (simp_all add: errno_ok_def) blast+
  show ?thesis
    unfolding modeset_create_fb_def Let_def made_dev_def
    by (auto split: sum.split prod.splits simp: fb_res_def dest: err)
qed

lemma setup_dev_made:
  assumes "errno_ok env"
  shows "made_dev s (modeset_setup_dev env res conn dev s)
    \<and> (fst (modeset_setup_dev env res conn dev s) = 0 \<longrightarrow>
        d_crtc (fst (snd (modeset_setup_dev env res conn dev s))) \<notin> d_crtc ` set (modeset_list s)
        \<and> d_addr (fst (snd (modeset_setup_dev env res conn dev s))) = d_addr dev)"
proof (cases "connected conn \<and> modes conn \<noteq> []")
  case False
  then show ?thesis
    by (auto simp: modeset_setup_dev_def made_dev_def ENOENT_def EFAULT_def split: list.split)
next
  case True
  then obtain m ms where m: "modes conn = m # ms" by (cases "modes conn") auto
  let ?dev = "dev\<lparr>d_mode := m, d_width := ucast (hdisplay m), d_height := ucast (vdisplay m)\<rparr>"
  obtain ret dev2 s1 where fc: "modeset_find_crtc env res conn ?dev s = (ret, dev2, s1)"
    by (metis prod_cases3)
  note found = find_crtc_found [of s ?dev env res conn, unfolded fc found_crtc_def prod.case]
  then have "\<exists>c. dev2 = ?dev\<lparr>d_crtc := c\<rparr> \<or> dev2 = ?dev" by blast
  then have addr: "d_addr dev2 = d_addr dev" by auto
  show ?thesis
  proof (cases "ret = 0")
    case True
    then have "modeset_setup_dev env res conn dev s = modeset_create_fb env dev2 s1"
      using \<open>connected conn \<and> modes conn \<noteq> []\<close> m fc by (simp add: modeset_setup_dev_def)
    then show ?thesis
      using create_fb_made [OF assms, of s1 dev2] found True
        addr
      by (auto simp: made_dev_def ENOENT_def)
  next
    case False
    then have "modeset_setup_dev env res conn dev s = (ret, dev2, s1)"
      using \<open>connected conn \<and> modes conn \<noteq> []\<close> m fc by (simp add: modeset_setup_dev_def)
    then show ?thesis
      using found False by (simp add: made_dev_def)
  qed
qed

text \<open>The invariant of the device list.\<close>

definition list_inv :: "resource multiset \<Rightarrow> mstate \<Rightarrow> bool" where
  "list_inv R s \<longleftrightarrow> held (calls s) = R + devs_res (modeset_list s) \<and> distinct (map d_crtc (modeset_list s))"

lemma prepare_loop_inv:
  "errno_ok env \<Longrightarrow> list_inv R s \<Longrightarrow> list_inv R (prepare_loop env res cs s)"
proof (induction cs arbitrary: s)
  case Nil
  then show ?case by simp
next
  case (Cons c cs)
  let ?conn = "e_connector env (calls s) c"
  let ?s1 = "call (GetConnector c (?conn \<noteq> None)) s"
  show ?case
  proof (cases ?conn)
    case None
    with Cons.prems have "list_inv R ?s1" by (simp add: list_inv_def)
    with None Cons show ?thesis by simp
  next
    case (Some cn)
    let ?a = "e_malloc env (calls ?s1)"
    let ?s1' = "call (Malloc ?a) ?s1"
    let ?dev = "zero_dev\<lparr>d_addr := ?a, d_conn := connector_id cn\<rparr>"
    obtain ret dev s2 where su: "modeset_setup_dev env res cn ?dev ?s1' = (ret, dev, s2)"
      by (metis prod_cases3)
    note made = setup_dev_made [OF Cons.prems(1), of ?s1' res cn ?dev, unfolded su made_dev_def, simplified]
    have h1: "held (calls ?s1') = add_mset (Heap ?a) (add_mset (Connector c) (R + devs_res (modeset_list s)))"
      using Some Cons.prems(2) by (simp add: list_inv_def)
    show ?thesis
    proof (cases "ret = 0")
      case True
      have "list_inv R (call (FreeConnector c) s2\<lparr>modeset_list := dev # modeset_list s2\<rparr>)"
        using made True h1 Some Cons.prems(2) by (auto simp: list_inv_def dev_res_def)
      with Some su True Cons show ?thesis by (simp add: Let_def)
    next
      case False
      have "list_inv R (call (FreeConnector c) (call (Free ?a) s2))"
        using made False h1 Some Cons.prems(2) by (auto simp: list_inv_def)
      with Some su False Cons show ?thesis by (simp add: Let_def)
    qed
  qed
qed

lemma prepare_inv:
  assumes "errno_ok env" and "modeset_list s = []" and "modeset_prepare env s = (ret, s')"
  shows "list_inv (held (calls s)) s'"
proof (cases "e_resources env (calls s)")
  case (Inl err)
  then show ?thesis using assms(2,3) by (auto simp: modeset_prepare_def list_inv_def)
next
  case (Inr res)
  let ?s1 = "call (GetResources True) s"
  have "list_inv (add_mset Resources (held (calls s))) (prepare_loop env res (res_connectors res) ?s1)"
    using assms(1,2) by (intro prepare_loop_inv) (simp_all add: list_inv_def)
  then show ?thesis using assms(3) Inr by (auto simp: modeset_prepare_def list_inv_def)
qed

section \<open>Setting and restoring the CRTCs\<close>

lemma set_crtcs_held:
  "set_crtcs env ds h = (ds', h') \<Longrightarrow>
   held h' = held h + saved_res ds' \<and> devs_res ds' = devs_res ds \<and> map d_crtc ds' = map d_crtc ds"
proof (induction ds arbitrary: h ds' h')
  case (Cons d ds)
  let ?saved = "e_get_crtc env h (d_crtc d)"
  let ?h1 = "GetCrtc (d_crtc d) (?saved \<noteq> None) # h"
  let ?h2 = "SetCrtc (d_crtc d) (d_fb d) 0 0 (d_conn d) (e_set_crtc env ?h1) # ?h1"
  obtain ds1 h3 where r: "set_crtcs env ds ?h2 = (ds1, h3)" by fastforce
  have "ds' = d\<lparr>d_saved := ?saved\<rparr> # ds1" "h' = h3"
    using Cons.prems r by (simp_all add: Let_def)
  then show ?case
    using Cons.IH [OF r] by (cases ?saved) (simp_all add: saved_res_def dev_res_def fb_res_def)
qed (simp add: saved_res_def)

lemma set_crtcs_saved:
  "\<forall>h c. e_get_crtc env h c \<noteq> None \<Longrightarrow> set_crtcs env ds h = (ds', h') \<Longrightarrow> list_all (\<lambda>d. d_saved d \<noteq> None) ds'"
  by (induction ds arbitrary: h ds' h') (auto simp: Let_def split: prod.splits)

lemma cleanup_dev_held:
  assumes "d_saved d = Some c" and "held h = add_mset (Crtc (d_crtc d)) (dev_res d + m)"
  shows "\<exists>h'. cleanup_dev env d h = Some h' \<and> held h' = m"
  using assms by (simp add: cleanup_dev_def dev_res_def fb_res_def)

lemma cleanup_loop_held:
  "list_all (\<lambda>d. d_saved d \<noteq> None) ds \<Longrightarrow> held h = R + devs_res ds + saved_res ds \<Longrightarrow>
   \<exists>h'. foldM (cleanup_dev env) ds h = Some h' \<and> held h' = R"
proof (induction ds arbitrary: h)
  case Nil
  then show ?case by (simp add: saved_res_def)
next
  case (Cons d ds)
  then obtain c where c: "d_saved d = Some c" by auto
  have "held h = add_mset (Crtc (d_crtc d)) (dev_res d + (R + devs_res ds + saved_res ds))"
    using Cons.prems(2) c by (simp add: saved_res_def)
  from cleanup_dev_held [OF c this] obtain h1
    where h1: "cleanup_dev env d h = Some h1" "held h1 = R + devs_res ds + saved_res ds" by blast
  with Cons.IH [of h1] Cons.prems(1) show ?case by simp
qed

lemma cleanup_undefined:
  "\<not> list_all (\<lambda>d. d_saved d \<noteq> None) ds \<Longrightarrow> foldM (cleanup_dev env) ds h = None"
  by (auto simp: list_all_iff cleanup_dev_def intro: foldM_None_at)

text \<open>When the encoders do not change, the search fails only if there is no free CRTC to find.\<close>

definition usable_crtc :: "modeset_dev list \<Rightarrow> (u32 \<Rightarrow> drm_encoder option) \<Rightarrow> u32 list \<Rightarrow> u32 \<Rightarrow> nat \<Rightarrow> bool" where
  "usable_crtc ds enc crtcs e j \<longleftrightarrow>
     j < length crtcs \<and> free_crtc ds (crtcs ! j) \<and> (\<exists>en. enc e = Some en \<and> bit (possible_crtcs en) j)"

lemma try_encoders_complete:
  assumes "\<And>h. e_encoder env h = enc"
  shows "case try_encoders env crtcs es dev s of (ret, dev', s') \<Rightarrow>
    if ret = 0 then \<exists>e \<in> set es. \<exists>j. usable_crtc (modeset_list s) enc crtcs e j \<and> d_crtc dev' = crtcs ! j
    else \<forall>e \<in> set es. \<forall>j. \<not> usable_crtc (modeset_list s) enc crtcs e j"
proof (induction es arbitrary: s)
  case Nil
  then show ?case by (simp add: ENOENT_def)
next
  case (Cons e es)
  show ?case
  proof (cases "enc e")
    case None
    with Cons [of "call (GetEncoder e False) s"] show ?thesis
      by (auto simp: get_encoder_def assms usable_crtc_def Let_def split: prod.splits if_splits)
  next
    case (Some en)
    let ?s2 = "call (FreeEncoder e) (call (GetEncoder e True) s)"
    show ?thesis
    proof (cases "first_crtc (modeset_list s) (possible_crtcs en) 0 crtcs")
      case None
      then have "\<forall>j. \<not> usable_crtc (modeset_list s) enc crtcs e j"
        using Some by (auto simp: first_crtc_None usable_crtc_def)
      with None Some Cons [of ?s2] show ?thesis
        by (auto simp: get_encoder_def assms Let_def split: prod.splits if_splits)
    next
      case c: (Some c)
      from first_crtc_Some [OF c] Some have "\<exists>j. usable_crtc (modeset_list s) enc crtcs e j \<and> c = crtcs ! j"
        by (auto simp: usable_crtc_def)
      with c Some show ?thesis by (auto simp: get_encoder_def assms Let_def)
    qed
  qed
qed

section \<open>Properties\<close>

text \<open>
  C14: The search of a CRTC is complete and safe. A CRTC is free when no listed device uses it and its
  identifier is below 2 to the 31: the code keeps it in an \<^verbatim>\<open>int32_t\<close> and never assigns a greater one.
  On a card with at most 32 CRTCs whose encoders do not change during the search,
  \<^verbatim>\<open>modeset_find_crtc\<close> succeeds exactly when the connector's current encoder drives a free CRTC, or one
  of its encoders can drive a free CRTC of the card, and it assigns such a CRTC; otherwise it answers
  \<open>-ENOENT\<close> and leaves the device as it is. In every case it returns the encoders it fetched.
\<close>

theorem crtc_search_complete:
  assumes "\<And>h. e_encoder env h = enc" and "length (res_crtcs res) \<le> 32"
    and "modeset_find_crtc env res conn dev s = (ret, dev', s')"
  defines "unused \<equiv> \<lambda>c. c \<notin> d_crtc ` set (modeset_list s) \<and> uint c < 2 ^ 31"
  defines "current \<equiv> \<lambda>c. \<exists>en. encoder_id conn \<noteq> 0 \<and> enc (encoder_id conn) = Some en
    \<and> enc_crtc_id en = c \<and> c \<noteq> 0"
  defines "driven \<equiv> \<lambda>c. \<exists>e \<in> set (encoders conn). \<exists>en. enc e = Some en
    \<and> (\<exists>j < length (res_crtcs res). res_crtcs res ! j = c \<and> bit (possible_crtcs en) j)"
  shows "(if ret = 0
      then unused (d_crtc dev') \<and> (current (d_crtc dev') \<or> driven (d_crtc dev')) \<and> dev' = dev\<lparr>d_crtc := d_crtc dev'\<rparr>
      else ret = - ENOENT \<and> dev' = dev \<and> (\<forall>c. \<not> (unused c \<and> (current c \<or> driven c))))
    \<and> held (calls s') = held (calls s)"
proof -
  have found: "found_crtc s dev (ret, dev', s')"
    using find_crtc_found [of s dev env res conn] assms(3) by simp
  have unused: "unused = free_crtc (modeset_list s)" by (simp add: fun_eq_iff unused_def free_crtc_def)
  have usable: "(\<exists>e \<in> set (encoders conn). \<exists>j. usable_crtc (modeset_list s) enc (res_crtcs res) e j \<and> res_crtcs res ! j = c)
      \<longleftrightarrow> unused c \<and> driven c" for c
    by (auto simp: usable_crtc_def driven_def unused)
  let ?s2 = "call (FreeEncoder (encoder_id conn)) (call (GetEncoder (encoder_id conn) True) s)"
  let ?s1 = "call (GetEncoder (encoder_id conn) False) s"
  have srch: "if ret = 0 then unused (d_crtc dev') \<and> driven (d_crtc dev') else \<forall>c. \<not> (unused c \<and> driven c)"
    if "try_encoders env (res_crtcs res) (encoders conn) dev s0 = (ret, dev', s')" "modeset_list s0 = modeset_list s" for s0
    using try_encoders_complete [OF assms(1), where crtcs = "res_crtcs res" and es = "encoders conn" and dev = dev and s = s0] that usable
    by (auto split: if_splits) metis+
  have "if ret = 0 then unused (d_crtc dev') \<and> (current (d_crtc dev') \<or> driven (d_crtc dev'))
      else \<forall>c. \<not> (unused c \<and> (current c \<or> driven c))"
  proof (cases "\<exists>c. current c \<and> unused c")
    case True
    then obtain c where "current c" "unused c" by blast
    then have "ret = 0" "d_crtc dev' = c"
      using assms(3) by (auto simp: modeset_find_crtc_def get_encoder_def assms(1) Let_def current_def unused claim_crtc_iff)
    with \<open>current c\<close> \<open>unused c\<close> show ?thesis by simp
  next
    case False
    then obtain s0 where "try_encoders env (res_crtcs res) (encoders conn) dev s0 = (ret, dev', s')"
      "modeset_list s0 = modeset_list s"
      using assms(3) by (auto simp: modeset_find_crtc_def get_encoder_def assms(1) Let_def current_def unused claim_crtc_iff
          split: option.splits if_splits)
    from srch [OF this] False show ?thesis by (auto split: if_splits)
  qed
  with found show ?thesis by (auto simp: found_crtc_def ENOENT_def split: if_splits)
qed

text \<open>
  C6: The preparation is exact on every path. Starting with an empty device list, whatever the
  graphics stack answers and wherever a call fails, after \<^verbatim>\<open>modeset_prepare\<close> no two listed devices
  share a CRTC, and what is held beyond what was held before is exactly one dumb buffer, one
  framebuffer, one mapping and the block of its structure per listed device: no error path leaks and none frees what is in use.
\<close>

theorem prepare_exact:
  assumes "errno_ok env" and "modeset_list s = []" and "modeset_prepare env s = (ret, s')"
  shows "distinct (map d_crtc (modeset_list s'))
    \<and> held (calls s') = held (calls s) + (\<Sum>d\<leftarrow>modeset_list s'.
        {#Heap (d_addr d), Dumb (d_handle d), Fb (d_fb d), Mapping (d_map d)#})"
  using prepare_inv [OF assms] by (simp add: list_inv_def devs_res_def dev_res_def [abs_def] fb_res_def [abs_def])

text \<open>The calls of a cleanup restore the saved configuration of every device.\<close>

abbreviation restores :: "calls \<Rightarrow> modeset_dev \<Rightarrow> bool" where
  "restores h d \<equiv> (\<exists>c r. d_saved d = Some c
     \<and> SetCrtc (sc_crtc_id c) (sc_buffer_id c) (sc_x c) (sc_y c) (d_conn d) r \<in> set h)"

lemma cleanup_loop_restores:
  "foldM (cleanup_dev env) ds h = Some h' \<Longrightarrow> \<exists>new. h' = new @ h \<and> (\<forall>d \<in> set ds. restores new d)"
proof (induction ds arbitrary: h)
  case (Cons d ds)
  then obtain h1 where h1: "cleanup_dev env d h = Some h1" "foldM (cleanup_dev env) ds h1 = Some h'"
    by (auto split: bind_splits)
  then obtain one where "h1 = one @ h" "restores one d"
    by (auto simp: cleanup_dev_def Let_def split: option.splits)
  moreover from Cons.IH [OF h1(2)] obtain new where "h' = new @ h1" "\<forall>d \<in> set ds. restores new d" by blast
  ultimately show ?case by (intro exI [of _ "new @ one"]) fastforce
qed simp

text \<open>
  C7: The cleanup undoes the preparation. After a successful preparation and the loop that saves each
  CRTC's configuration and sets the new one, \<^verbatim>\<open>modeset_cleanup\<close> returns exactly when every saved
  configuration could be read; then the list is empty, every configuration has been set again, and
  everything acquired since before the preparation has been released, the device structures
  included. Otherwise it dereferences a null pointer.
\<close>

theorem cleanup_releases_all:
  assumes "errno_ok env" and "modeset_list s = []" and "modeset_prepare env s = (0, s2)"
    and "set_crtcs env (modeset_list s2) (calls s2) = (ds, h)"
  shows "map d_crtc ds = map d_crtc (modeset_list s2)
    \<and> (case modeset_cleanup env (s2\<lparr>calls := h, modeset_list := ds\<rparr>) of
         None \<Rightarrow> \<exists>d \<in> set ds. d_saved d = None
       | Some s' \<Rightarrow> modeset_list s' = [] \<and> held (calls s') = held (calls s)
           \<and> (\<exists>new. calls s' = new @ h \<and> (\<forall>d \<in> set ds. restores new d)))"
proof -
  have "list_inv (held (calls s)) s2" by (rule prepare_inv [OF assms(1-3)])
  with set_crtcs_held [OF assms(4)] have h: "held h = held (calls s) + devs_res ds + saved_res ds"
    and crtcs: "map d_crtc ds = map d_crtc (modeset_list s2)" by (simp_all add: list_inv_def)
  show ?thesis
  proof (cases "list_all (\<lambda>d. d_saved d \<noteq> None) ds")
    case True
    from cleanup_loop_held [OF this h, of env] obtain h'
      where "foldM (cleanup_dev env) ds h = Some h'" "held h' = held (calls s)" by blast
    with cleanup_loop_restores [OF this(1)] crtcs show ?thesis by (simp add: modeset_cleanup_def)
  next
    case False
    then show ?thesis
      using cleanup_undefined [OF False, of env h] crtcs by (auto simp: modeset_cleanup_def list_all_iff)
  qed
qed

text \<open>
  A colour walks within the byte. For a step below 256, \<^verbatim>\<open>next_color\<close> moves the colour by the
  step in its direction when the result is a byte, and otherwise keeps the colour and turns round.
\<close>

theorem next_color_walks:
  fixes rand mod' :: u32
  assumes "0 < mod'" and "mod' \<le> 256"
  defines "step \<equiv> uint (rand mod mod')"
  shows "next_color rand True cur mod' =
      (if uint cur + step < 256 then (word_of_int (uint cur + step), True) else (cur, False))
    \<and> next_color rand False cur mod' =
      (if 0 \<le> uint cur - step then (word_of_int (uint cur - step), False) else (cur, True))"
proof -
  have s: "0 \<le> step" "step < 256"
  proof -
    have "rand mod mod' < mod'" using assms(1) by (simp add: word_mod_less_divisor)
    then have "rand mod mod' < 256" using assms(2) by (rule less_le_trans)
    then show "0 \<le> step" "step < 256" by (simp_all add: step_def word_less_def)
  qed
  have c: "0 \<le> uint cur" "uint cur < 256" using unsigned_less [of cur, where ?'a = int] by simp_all
  define up where "up = (ucast (ucast cur + rand mod mod') :: u8)"
  define down where "down = (ucast (ucast cur - rand mod mod') :: u8)"
  have run: "next_color rand True cur mod' = (if uint up < uint cur then (cur, False) else (up, True))"
    "next_color rand False cur mod' = (if uint cur < uint down then (cur, True) else (down, False))"
    by (simp_all add: next_color_def up_def down_def word_less_def)
  have "uint up = (uint cur + step) mod 256" "uint down = (uint cur - step) mod 256"
    unfolding up_def down_def step_def narrow_add narrow_minus narrow_up by (rule refl)+
  moreover have "n mod 256 = (if 0 \<le> n \<and> n < 256 then n else if n < 0 then n + 256 else n - 256)"
    if "- 256 < n" "n < 512" for n :: int
    using that mod_pos_pos_trivial [of n 256] mod_pos_pos_trivial [of "n + 256" 256]
      mod_pos_pos_trivial [of "n - 256" 256] by auto
  ultimately have "uint up = (if uint cur + step < 256 then uint cur + step else uint cur + step - 256)"
    "uint down = (if 0 \<le> uint cur - step then uint cur - step else uint cur - step + 256)"
    using s c by simp_all
  moreover have "up = word_of_int (uint up)" "down = word_of_int (uint down)" by simp_all
  ultimately show ?thesis
    unfolding run by (cases "uint cur + step < 256"; cases "0 \<le> uint cur - step"; insert s c; simp; insert s; simp)
qed
section \<open>Witnesses\<close>

text \<open>A card with two connectors that can only use the same CRTC.\<close>

definition demo_env :: drm_env where
  "demo_env = \<lparr>e_open = (\<lambda>_. Inr 3), e_cap = (\<lambda>_. Some 1),
     e_resources = (\<lambda>_. Inr \<lparr>res_connectors = [10, 11], res_crtcs = [20]\<rparr>),
     e_connector = (\<lambda>_ c. Some \<lparr>connector_id = c, connected = True,
        modes = [\<lparr>hdisplay = 640, vdisplay = 480\<rparr>], encoder_id = 0, encoders = [30]\<rparr>),
     e_encoder = (\<lambda>_ _. Some \<lparr>enc_crtc_id = 0, possible_crtcs = 1\<rparr>),
     e_create_dumb = (\<lambda>_ w h. Inr (4 * w, ucast (4 * w * h), 40)),
     e_add_fb = (\<lambda>_ _ _ _ _. Inr 50), e_map_dumb = (\<lambda>_ _. Inr 4096), e_mmap = (\<lambda>_ _ _. Inr 65536),
     e_get_crtc = (\<lambda>_ c. Some \<lparr>sc_crtc_id = c, sc_buffer_id = 7, sc_x = 0, sc_y = 0\<rparr>),
     e_set_crtc = (\<lambda>_. 0), e_malloc = (\<lambda>_. 4096)\<rparr>"

definition demo_start :: mstate where
  "demo_start = \<lparr>calls = [], modeset_list = []\<rparr>"

lemma demo_errno: "errno_ok demo_env"
  by (simp add: errno_ok_def demo_env_def)

theorem crtc_search_complete_witness:
  "fst (modeset_find_crtc demo_env \<lparr>res_connectors = [10, 11], res_crtcs = [20]\<rparr>
     \<lparr>connector_id = 10, connected = True, modes = [], encoder_id = 0, encoders = [30]\<rparr> zero_dev demo_start) = 0"
proof -
  let ?run = "modeset_find_crtc demo_env \<lparr>res_connectors = [10, 11], res_crtcs = [20]\<rparr>
     \<lparr>connector_id = 10, connected = True, modes = [], encoder_id = 0, encoders = [30]\<rparr> zero_dev demo_start"
  have enc: "e_encoder demo_env h = (\<lambda>_. Some \<lparr>enc_crtc_id = 0, possible_crtcs = 1\<rparr>)" for h
    by (simp add: demo_env_def)
  have "modeset_list demo_start = []" by (simp add: demo_start_def)
  then show ?thesis
    using crtc_search_complete [OF enc, of _ _ _ _ "fst ?run" "fst (snd ?run)" "snd (snd ?run)"]
    by (force split: if_splits)
qed

theorem prepare_exact_witness:
  "\<exists>s'. modeset_prepare demo_env demo_start = (0, s') \<and> map d_crtc (modeset_list s') = [20]
    \<and> held (calls s') = {#Heap 4096, Dumb 40, Fb 50, Mapping 65536#}"
proof -
  obtain s' where s': "modeset_prepare demo_env demo_start = (0, s')"
    by (simp add: modeset_prepare_def demo_env_def)
  have "map d_crtc (modeset_list s') = [20]
    \<and> map (\<lambda>d. {#Heap (d_addr d), Dumb (d_handle d), Fb (d_fb d), Mapping (d_map d)#}) (modeset_list s') = [{#Heap 4096, Dumb 40, Fb 50, Mapping 65536#}]"
    using s' by (auto simp: modeset_prepare_def demo_env_def demo_start_def modeset_setup_dev_def
        modeset_find_crtc_def modeset_create_fb_def get_encoder_def claim_crtc_def Let_def ENOENT_def)
  then show ?thesis
    using s' prepare_exact [OF demo_errno _ s'] by (simp add: demo_start_def)
qed

theorem cleanup_releases_all_witness:
  "\<exists>s2 ds h s'. modeset_prepare demo_env demo_start = (0, s2)
    \<and> set_crtcs demo_env (modeset_list s2) (calls s2) = (ds, h)
    \<and> modeset_cleanup demo_env (s2\<lparr>calls := h, modeset_list := ds\<rparr>) = Some s' \<and> held (calls s') = {#}"
proof -
  obtain s2 where s2: "modeset_prepare demo_env demo_start = (0, s2)"
    by (simp add: modeset_prepare_def demo_env_def)
  obtain ds h where ds: "set_crtcs demo_env (modeset_list s2) (calls s2) = (ds, h)" by fastforce
  have "\<forall>h c. e_get_crtc demo_env h c \<noteq> None" by (simp add: demo_env_def)
  from set_crtcs_saved [OF this ds] have "\<forall>d \<in> set ds. d_saved d \<noteq> None" by (simp add: list_all_iff)
  with cleanup_releases_all [OF demo_errno _ s2 ds] s2 ds show ?thesis
    by (auto simp: demo_start_def split: option.splits)
qed

theorem next_color_walks_witness:
  "next_color 1019 True 250 20 = (250, False) \<and> next_color 1019 False 250 20 = (231, False)"
  using next_color_walks [of 20 1019 250] by simp

end
