(* ===== verification/SpiDev.thy ===== *)
theory SpiDev
  imports CFormat
begin

text \<open>
  The SPI master of \<^verbatim>\<open>cdrawTools/spi/spi.c\<close>, for a kernel with \<^verbatim>\<open>SPI_IOC_RD_MODE32\<close> and
  \<^verbatim>\<open>SPI_IOC_WR_MODE32\<close>. The kernel is the parameter \<open>env\<close>: the result of each call as a function of
  the calls made before, newest first, and of its arguments; \<open>Inl errno\<close> is a failing call. A
  transfer gives the result of \<^verbatim>\<open>ioctl\<close>, \<^verbatim>\<open>errno\<close> and the bytes received. A
  function takes and returns the handle together with the history of calls; a getter gives \<open>Inr\<close>
  the value it stores through its pointer or \<open>Inl\<close> its error code, upon which it stores nothing.

  Shown: opening either succeeds with a configured descriptor or leaves no descriptor open, with the
  error of the step that failed; the parameters set are the parameters read, when the driver keeps
  its registers; what each setter does to every bit of the mode word; every failure is recorded in
  the handle, in a bounded message; and the buffers of \<^verbatim>\<open>spi_tostring\<close> are never too short.
\<close>

section \<open>Kernel calls\<close>

datatype spi_req =
    WR_MODE u8 | WR_MODE32 u32 | WR_LSB_FIRST u8 | WR_MAX_SPEED u32 | WR_BITS u8
  | RD_MODE | RD_MODE32 | RD_LSB_FIRST | RD_MAX_SPEED | RD_BITS

datatype spi_call =
    SOpen string "int option"
  | SClose int
  | SIoctl int spi_req bool
  | STransfer int "u8 list" "u8 list option"

type_synonym spi_hist = "spi_call list"

record spi_env =
  s_open :: "spi_hist \<Rightarrow> string \<Rightarrow> int + int"
  s_close :: "spi_hist \<Rightarrow> int \<Rightarrow> int option"
  s_ioctl :: "spi_hist \<Rightarrow> int \<Rightarrow> spi_req \<Rightarrow> int + u32"
  s_transfer :: "spi_hist \<Rightarrow> int \<Rightarrow> u8 list \<Rightarrow> u32 \<Rightarrow> int \<times> int \<times> u8 list"
  s_strerror :: "int \<Rightarrow> string"

fun fd_opened :: "spi_call \<Rightarrow> int multiset" where
  "fd_opened (SOpen p (Some fd)) = {#fd#}"
| "fd_opened _ = {#}"

fun fd_closed :: "spi_call \<Rightarrow> int multiset" where
  "fd_closed (SClose fd) = {#fd#}"
| "fd_closed _ = {#}"

interpretation spi_fds: accounting fd_opened fd_closed
proof
  show "fd_opened e = {#} \<or> fd_closed e = {#}" for e
    by (cases e rule: fd_opened.cases) simp_all
qed

section \<open>The handle\<close>

definition SPI_ERROR_ARG :: int where "SPI_ERROR_ARG = - 1"
definition SPI_ERROR_OPEN :: int where "SPI_ERROR_OPEN = - 2"
definition SPI_ERROR_QUERY :: int where "SPI_ERROR_QUERY = - 3"
definition SPI_ERROR_CONFIGURE :: int where "SPI_ERROR_CONFIGURE = - 4"
definition SPI_ERROR_TRANSFER :: int where "SPI_ERROR_TRANSFER = - 5"
definition SPI_ERROR_CLOSE :: int where "SPI_ERROR_CLOSE = - 6"

lemmas spi_codes = SPI_ERROR_ARG_def SPI_ERROR_OPEN_def SPI_ERROR_QUERY_def SPI_ERROR_CONFIGURE_def
  SPI_ERROR_TRANSFER_def SPI_ERROR_CLOSE_def

text \<open>The mode bits of \<^verbatim>\<open>linux/spi/spi.h\<close>.\<close>

definition SPI_CPHA :: u32 where "SPI_CPHA = 1"
definition SPI_CPOL :: u32 where "SPI_CPOL = 2"
definition SPI_LSB_FIRST :: u32 where "SPI_LSB_FIRST = 8"

definition MSB_FIRST :: u32 where "MSB_FIRST = 0"
definition LSB_FIRST :: u32 where "LSB_FIRST = 1"

record spi =
  fd :: int
  c_errno :: int
  errmsg :: string

type_synonym spi_st = "spi \<times> spi_hist"

definition spi_new :: "bool \<Rightarrow> spi option" where
  "spi_new calloc_ok = (if calloc_ok then Some \<lparr>fd = - 1, c_errno = 0, errmsg = []\<rparr> else None)"

definition spi_error :: "spi_env \<Rightarrow> int \<Rightarrow> int \<Rightarrow> string \<Rightarrow> spi_st \<Rightarrow> int \<times> spi_st" where
  "spi_error env code err text = (\<lambda>(s, h).
     let msg = fst (snprintf 96 text);
         buf = take 63 (s_strerror env err);
         msg2 = (if err \<noteq> 0
                 then msg @ fst (snprintf (96 - length msg) ('': '' @ buf @ '' [errno '' @ dec err @ '']''))
                 else msg)
     in (code, s\<lparr>c_errno := err, errmsg := msg2\<rparr>, h))"

definition spi_ioctl :: "spi_env \<Rightarrow> spi_req \<Rightarrow> spi_st \<Rightarrow> (int + u32) \<times> spi_st" where
  "spi_ioctl env req = (\<lambda>(s, h).
     let r = s_ioctl env h (fd s) req in (r, s, SIoctl (fd s) req (\<exists>v. r = Inr v) # h))"

text \<open>A request that writes a parameter, and the error of its failure.\<close>

definition spi_write :: "spi_env \<Rightarrow> spi_req \<Rightarrow> string \<Rightarrow> spi_st \<Rightarrow> int \<times> spi_st" where
  "spi_write env req text st =
     (case spi_ioctl env req st of
        (Inl err, st') \<Rightarrow> spi_error env SPI_ERROR_CONFIGURE err text st'
      | (Inr _, st') \<Rightarrow> (0, st'))"

text \<open>A request that reads a parameter, and what is done with the value.\<close>

definition spi_read :: "spi_env \<Rightarrow> spi_req \<Rightarrow> string \<Rightarrow> (u32 \<Rightarrow> 'v) \<Rightarrow> spi_st \<Rightarrow> (int + 'v) \<times> spi_st" where
  "spi_read env req text f st =
     (case spi_ioctl env req st of
        (Inl err, st') \<Rightarrow> (let (ret, st'') = spi_error env SPI_ERROR_QUERY err text st' in (Inl ret, st''))
      | (Inr v, st') \<Rightarrow> (Inr (f v), st'))"

section \<open>Opening and closing\<close>

text \<open>The failure of a configuration request while opening: close, forget the descriptor, report.\<close>

definition open_abort :: "spi_env \<Rightarrow> int \<Rightarrow> string \<Rightarrow> spi_st \<Rightarrow> int \<times> spi_st" where
  "open_abort env errsv text = (\<lambda>(s, h).
     spi_error env SPI_ERROR_CONFIGURE errsv text (s\<lparr>fd := - 1\<rparr>, SClose (fd s) # h))"

definition open_config :: "spi_env \<Rightarrow> spi_req \<Rightarrow> string \<Rightarrow> (spi_st \<Rightarrow> int \<times> spi_st) \<Rightarrow> spi_st \<Rightarrow> int \<times> spi_st" where
  "open_config env req text continue st =
     (case spi_ioctl env req st of
        (Inl errsv, st') \<Rightarrow> open_abort env errsv text st'
      | (Inr _, st') \<Rightarrow> continue st')"

definition mode_word :: "u32 \<Rightarrow> u32 \<Rightarrow> u32 \<Rightarrow> u32" where
  "mode_word mode bit_order extra_flags =
     mode OR (if bit_order = LSB_FIRST then SPI_LSB_FIRST else 0) OR extra_flags"

definition spi_open_advanced2 ::
  "spi_env \<Rightarrow> string \<Rightarrow> u32 \<Rightarrow> u32 \<Rightarrow> u32 \<Rightarrow> u8 \<Rightarrow> u32 \<Rightarrow> spi_st \<Rightarrow> int \<times> spi_st" where
  "spi_open_advanced2 env path mode max_speed bit_order bits_per_word extra_flags st =
     (if mode AND NOT 0x3 \<noteq> 0
      then spi_error env SPI_ERROR_ARG 0 ''Invalid mode (can be 0,1,2,3)'' st
      else if bit_order \<noteq> MSB_FIRST \<and> bit_order \<noteq> LSB_FIRST
      then spi_error env SPI_ERROR_ARG 0 ''Invalid bit order (can be MSB_FIRST,LSB_FIRST)'' st
      else
        let h = snd st
        in case s_open env h path of
             Inl err \<Rightarrow> spi_error env SPI_ERROR_OPEN err (''Opening SPI device \"'' @ path @ ''\"'')
                          (\<lparr>fd = - 1, c_errno = 0, errmsg = []\<rparr>, SOpen path None # h)
           | Inr d \<Rightarrow>
               open_config env
                 (if extra_flags > 0xff then WR_MODE32 (mode_word mode bit_order extra_flags)
                  else WR_MODE (ucast (mode_word mode bit_order extra_flags)))
                 ''Setting SPI mode''
                 (open_config env (WR_MAX_SPEED max_speed) ''Setting SPI max speed''
                   (open_config env (WR_BITS bits_per_word) ''Setting SPI bits per word''
                     (\<lambda>st'. (0, st'))))
                 (\<lparr>fd = d, c_errno = 0, errmsg = []\<rparr>, SOpen path (Some d) # h))"

definition spi_open_advanced ::
  "spi_env \<Rightarrow> string \<Rightarrow> u32 \<Rightarrow> u32 \<Rightarrow> u32 \<Rightarrow> u8 \<Rightarrow> u8 \<Rightarrow> spi_st \<Rightarrow> int \<times> spi_st" where
  "spi_open_advanced env path mode max_speed bit_order bits_per_word extra_flags =
     spi_open_advanced2 env path mode max_speed bit_order bits_per_word (ucast extra_flags)"

definition spi_open :: "spi_env \<Rightarrow> string \<Rightarrow> u32 \<Rightarrow> u32 \<Rightarrow> spi_st \<Rightarrow> int \<times> spi_st" where
  "spi_open env path mode max_speed = spi_open_advanced env path mode max_speed MSB_FIRST 8 0"

definition spi_close :: "spi_env \<Rightarrow> spi_st \<Rightarrow> int \<times> spi_st" where
  "spi_close env = (\<lambda>(s, h).
     if fd s < 0 then (0, s, h)
     else case s_close env h (fd s) of
            Some err \<Rightarrow> spi_error env SPI_ERROR_CLOSE err ''Closing SPI device'' (s, SClose (fd s) # h)
          | None \<Rightarrow> (0, s\<lparr>fd := - 1\<rparr>, SClose (fd s) # h))"

section \<open>Transfer and parameters\<close>

text \<open>
  One message of \<open>len\<close> bytes each way: \<^verbatim>\<open>spi_xfer.len\<close> is 32 bits wide. The bytes received are
  the result.
\<close>

definition spi_transfer :: "spi_env \<Rightarrow> u8 list \<Rightarrow> nat \<Rightarrow> spi_st \<Rightarrow> (int + u8 list) \<times> spi_st" where
  "spi_transfer env txbuf len = (\<lambda>(s, h).
     let (ret, err, rx) = s_transfer env h (fd s) txbuf (word_of_nat len)
     in if ret < 1
        then (let (code, st) = spi_error env SPI_ERROR_TRANSFER err ''SPI transfer'' (s, STransfer (fd s) txbuf None # h)
              in (Inl code, st))
        else (Inr rx, s, STransfer (fd s) txbuf (Some rx) # h))"

definition spi_get_mode :: "spi_env \<Rightarrow> spi_st \<Rightarrow> (int + u32) \<times> spi_st" where
  "spi_get_mode env = spi_read env RD_MODE ''Getting SPI mode''
     (\<lambda>v. ucast (ucast v :: u8) AND (SPI_CPHA OR SPI_CPOL))"

definition spi_get_max_speed :: "spi_env \<Rightarrow> spi_st \<Rightarrow> (int + u32) \<times> spi_st" where
  "spi_get_max_speed env = spi_read env RD_MAX_SPEED ''Getting SPI max speed'' (\<lambda>v. v)"

definition spi_get_bit_order :: "spi_env \<Rightarrow> spi_st \<Rightarrow> (int + u32) \<times> spi_st" where
  "spi_get_bit_order env = spi_read env RD_LSB_FIRST ''Getting SPI bit order''
     (\<lambda>v. if (ucast v :: u8) \<noteq> 0 then LSB_FIRST else MSB_FIRST)"

definition spi_get_bits_per_word :: "spi_env \<Rightarrow> spi_st \<Rightarrow> (int + u8) \<times> spi_st" where
  "spi_get_bits_per_word env = spi_read env RD_BITS ''Getting SPI bits per word'' ucast"

definition spi_get_extra_flags :: "spi_env \<Rightarrow> spi_st \<Rightarrow> (int + u8) \<times> spi_st" where
  "spi_get_extra_flags env = spi_read env RD_MODE ''Getting SPI mode flags''
     (\<lambda>v. ucast (ucast (ucast v :: u8) AND NOT (SPI_CPOL OR SPI_CPHA OR SPI_LSB_FIRST)))"

definition spi_get_extra_flags32 :: "spi_env \<Rightarrow> spi_st \<Rightarrow> (int + u32) \<times> spi_st" where
  "spi_get_extra_flags32 env = spi_read env RD_MODE32 ''Getting 32-bit SPI mode flags''
     (\<lambda>v. v AND NOT (SPI_CPOL OR SPI_CPHA OR SPI_LSB_FIRST))"

text \<open>Read a mode word, change it, write it back.\<close>

definition spi_update ::
  "spi_env \<Rightarrow> spi_req \<Rightarrow> string \<Rightarrow> (u32 \<Rightarrow> spi_req) \<Rightarrow> string \<Rightarrow> spi_st \<Rightarrow> int \<times> spi_st" where
  "spi_update env rd_req rdtext wr_req wrtext st =
     (case spi_read env rd_req rdtext (\<lambda>v. v) st of
        (Inl ret, st') \<Rightarrow> (ret, st')
      | (Inr v, st') \<Rightarrow> spi_write env (wr_req v) wrtext st')"

definition spi_set_mode :: "spi_env \<Rightarrow> u32 \<Rightarrow> spi_st \<Rightarrow> int \<times> spi_st" where
  "spi_set_mode env mode st =
     (if mode AND NOT 0x3 \<noteq> 0
      then spi_error env SPI_ERROR_ARG 0 ''Invalid mode (can be 0,1,2,3)'' st
      else spi_update env RD_MODE ''Getting SPI mode''
        (\<lambda>v. let data8 = (ucast v :: u8);
                 data8a = data8 AND ucast (NOT (SPI_CPOL OR SPI_CPHA));
                 data8b = data8a OR ucast mode
             in WR_MODE data8b) ''Setting SPI mode'' st)"

definition spi_set_bit_order :: "spi_env \<Rightarrow> u32 \<Rightarrow> spi_st \<Rightarrow> int \<times> spi_st" where
  "spi_set_bit_order env bit_order st =
     (if bit_order \<noteq> MSB_FIRST \<and> bit_order \<noteq> LSB_FIRST
      then spi_error env SPI_ERROR_ARG 0 ''Invalid bit order (can be MSB_FIRST,LSB_FIRST)'' st
      else spi_write env (WR_LSB_FIRST (if bit_order = LSB_FIRST then 1 else 0)) ''Setting SPI bit order'' st)"

definition spi_set_extra_flags :: "spi_env \<Rightarrow> u8 \<Rightarrow> spi_st \<Rightarrow> int \<times> spi_st" where
  "spi_set_extra_flags env extra_flags = spi_update env RD_MODE ''Getting SPI mode flags''
     (\<lambda>v. let data8 = (ucast v :: u8);
              data8a = data8 AND ucast (SPI_CPOL OR SPI_CPHA OR SPI_LSB_FIRST)
          in WR_MODE (data8a OR extra_flags)) ''Setting SPI mode flags''"

definition spi_set_extra_flags32 :: "spi_env \<Rightarrow> u32 \<Rightarrow> spi_st \<Rightarrow> int \<times> spi_st" where
  "spi_set_extra_flags32 env extra_flags = spi_update env RD_MODE32 ''Getting 32-bit SPI mode flags''
     (\<lambda>mode32. WR_MODE32 ((mode32 AND (SPI_CPOL OR SPI_CPHA OR SPI_LSB_FIRST)) OR extra_flags))
     ''Setting 32-bit SPI mode flags''"

definition spi_set_max_speed :: "spi_env \<Rightarrow> u32 \<Rightarrow> spi_st \<Rightarrow> int \<times> spi_st" where
  "spi_set_max_speed env max_speed = spi_write env (WR_MAX_SPEED max_speed) ''Setting SPI max speed''"

definition spi_set_bits_per_word :: "spi_env \<Rightarrow> u8 \<Rightarrow> spi_st \<Rightarrow> int \<times> spi_st" where
  "spi_set_bits_per_word env bits_per_word = spi_write env (WR_BITS bits_per_word) ''Setting SPI bits per word''"

section \<open>The text of a handle\<close>

text \<open>
  The pieces that \<^verbatim>\<open>spi_tostring\<close> formats, each with the size of its buffer, and the whole. A
  parameter that cannot be read is shown as a question mark.
\<close>

definition shown :: "(int + 'v) \<Rightarrow> nat \<Rightarrow> ('v \<Rightarrow> string) \<Rightarrow> string" where
  "shown r sz f = (case r of Inl _ \<Rightarrow> ''?'' | Inr v \<Rightarrow> fst (snprintf sz (f v)))"

definition spi_tostring :: "spi_env \<Rightarrow> nat \<Rightarrow> spi_st \<Rightarrow> (string \<times> nat) \<times> spi_st" where
  "spi_tostring env len st =
     (let (mode, st1) = spi_get_mode env st;
          (max_speed, st2) = spi_get_max_speed env st1;
          (bit_order, st3) = spi_get_bit_order env st2;
          (bits_per_word, st4) = spi_get_bits_per_word env st3;
          (flags32, st5) = spi_get_extra_flags32 env st4;
          (flags_str, st6) =
            (case flags32 of
               Inr v \<Rightarrow> (fst (snprintf 11 (''0x'' @ hex 8 (unat v))), st5)
             | Inl _ \<Rightarrow> (let (flags8, st6) = spi_get_extra_flags env st5
                         in (shown flags8 11 (\<lambda>v. ''0x'' @ hex 2 (unat v)), st6)))
      in (snprintf len
            (''SPI (fd='' @ dec (fd (fst st6))
             @ '', mode='' @ shown mode 2 (\<lambda>v. dec (uint v))
             @ '', max_speed='' @ shown max_speed 16 (\<lambda>v. dec (uint v))
             @ '', bit_order='' @ (case bit_order of Inl _ \<Rightarrow> ''?''
                 | Inr b \<Rightarrow> if b = LSB_FIRST then ''LSB_FIRST'' else ''MSB_FIRST'')
             @ '', bits_per_word='' @ shown bits_per_word 4 (\<lambda>v. dec (uint v))
             @ '', extra_flags='' @ flags_str @ '')''), st6))"

text \<open>The accessors of the handle.\<close>

definition spi_errmsg :: "spi \<Rightarrow> string" where "spi_errmsg s = errmsg s"
definition spi_errno :: "spi \<Rightarrow> int" where "spi_errno s = c_errno s"
definition spi_fd :: "spi \<Rightarrow> int" where "spi_fd s = fd s"

section \<open>The registers of the driver\<close>

text \<open>
  What the driver documents of its registers: a read gives what the successful writes determine. A
  32-bit request assigns the whole mode word, the bit order request bit 3 of it, and an 8-bit request
  its low byte. What an 8-bit request makes of the other bits is not documented: it is the driver's
  function \<open>g_keep\<close> of the word before, of which only the bits from 8 up count.
\<close>

record spi_regs =
  g_mode :: u32
  g_keep :: "u32 \<Rightarrow> u32"
  g_speed :: u32
  g_bits :: u8

definition byte_mode :: "spi_regs \<Rightarrow> u8 \<Rightarrow> u32" where
  "byte_mode r v = (g_keep r (g_mode r) AND NOT 0xff) OR ucast v"

fun reg_write :: "spi_req \<Rightarrow> spi_regs \<Rightarrow> spi_regs" where
  "reg_write (WR_MODE v) r = r\<lparr>g_mode := byte_mode r v\<rparr>"
| "reg_write (WR_MODE32 w) r = r\<lparr>g_mode := w\<rparr>"
| "reg_write (WR_LSB_FIRST v) r = r\<lparr>g_mode := (if v \<noteq> 0 then g_mode r OR 8 else g_mode r AND NOT 8)\<rparr>"
| "reg_write (WR_MAX_SPEED v) r = r\<lparr>g_speed := v\<rparr>"
| "reg_write (WR_BITS v) r = r\<lparr>g_bits := v\<rparr>"
| "reg_write _ r = r"

fun regs_of :: "spi_regs \<Rightarrow> int \<Rightarrow> spi_hist \<Rightarrow> spi_regs" where
  "regs_of r d [] = r"
| "regs_of r d (SIoctl d' req ok # h) =
     (if ok \<and> d' = d then reg_write req (regs_of r d h) else regs_of r d h)"
| "regs_of r d (_ # h) = regs_of r d h"

definition spidev_ok :: "spi_env \<Rightarrow> spi_regs \<Rightarrow> int \<Rightarrow> bool" where
  "spidev_ok env r d \<longleftrightarrow> (\<forall>h v. let g = regs_of r d h in
     (s_ioctl env h d RD_MODE = Inr v \<longrightarrow> (ucast v :: u8) = ucast (g_mode g)) \<and>
     (s_ioctl env h d RD_MODE32 = Inr v \<longrightarrow> v = g_mode g) \<and>
     (s_ioctl env h d RD_LSB_FIRST = Inr v \<longrightarrow> ((ucast v :: u8) \<noteq> 0 \<longleftrightarrow> bit (g_mode g) 3)) \<and>
     (s_ioctl env h d RD_MAX_SPEED = Inr v \<longrightarrow> v = g_speed g) \<and>
     (s_ioctl env h d RD_BITS = Inr v \<longrightarrow> ucast v = g_bits g))"

abbreviation regs_at :: "spi_regs \<Rightarrow> spi_st \<Rightarrow> spi_regs" where
  "regs_at r st \<equiv> regs_of r (fd (fst st)) (snd st)"

abbreviation fds :: "spi_hist \<Rightarrow> int multiset" where
  "fds \<equiv> live fd_opened fd_closed"

section \<open>The helpers, on every branch\<close>

lemma spi_error_spec:
  "spi_error env code err text (s, h) = (ret, s', h') \<Longrightarrow>
   ret = code \<and> h' = h \<and> fd s' = fd s \<and> c_errno s' = err \<and> length (errmsg s') < 96"
proof -
  assume e: "spi_error env code err text (s, h) = (ret, s', h')"
  define m where "m = fst (snprintf 96 text)"
  define t where "t = '': '' @ take 63 (s_strerror env err) @ '' [errno '' @ dec err @ '']''"
  have m: "length m < 96" unfolding m_def by (rule snprintf_length) simp
  then have "length (fst (snprintf (96 - length m) t)) < 96 - length m"
    by (intro snprintf_length) simp
  then have "length (m @ fst (snprintf (96 - length m) t)) < 96" by simp
  moreover have "ret = code" "h' = h"
    "s' = s\<lparr>c_errno := err, errmsg := (if err \<noteq> 0 then m @ fst (snprintf (96 - length m) t) else m)\<rparr>"
    using e unfolding spi_error_def Let_def m_def [symmetric] t_def [symmetric] by simp_all
  ultimately show ?thesis using m by simp
qed

lemma spi_ioctl_spec:
  "spi_ioctl env req (s, h) = (r, s', h') \<longleftrightarrow>
   r = s_ioctl env h (fd s) req \<and> s' = s \<and> h' = SIoctl (fd s) req (\<exists>v. r = Inr v) # h"
  by (auto simp: spi_ioctl_def Let_def)

lemma spi_read_spec:
  assumes "spi_read env req text f (s, h) = (r, s', h')"
  shows "fd s' = fd s \<and> (\<exists>ok. h' = SIoctl (fd s) req ok # h)
    \<and> (case r of Inr x \<Rightarrow> s' = s \<and> (\<exists>v. s_ioctl env h (fd s) req = Inr v \<and> x = f v)
        | Inl code \<Rightarrow> code = SPI_ERROR_QUERY \<and> s_ioctl env h (fd s) req = Inl (c_errno s') \<and> length (errmsg s') < 96)"
proof (cases "s_ioctl env h (fd s) req")
  case (Inl err)
  obtain ret s1 h1 where e: "spi_error env SPI_ERROR_QUERY err text (s, SIoctl (fd s) req False # h) = (ret, s1, h1)"
    by (metis prod_cases3)
  from spi_error_spec [OF this] Inl assms e show ?thesis
    by (auto simp: spi_read_def spi_ioctl_def Let_def)
next
  case (Inr v)
  with assms show ?thesis by (auto simp: spi_read_def spi_ioctl_def Let_def)
qed

lemma spi_write_spec:
  assumes "spi_write env req text (s, h) = (ret, s', h')"
  shows "fd s' = fd s \<and> h' = SIoctl (fd s) req (ret = 0) # h
    \<and> (ret = 0 \<and> s' = s \<and> (\<exists>v. s_ioctl env h (fd s) req = Inr v)
       \<or> ret = SPI_ERROR_CONFIGURE \<and> s_ioctl env h (fd s) req = Inl (c_errno s') \<and> length (errmsg s') < 96)"
proof (cases "s_ioctl env h (fd s) req")
  case (Inl err)
  obtain r1 s1 h1 where e: "spi_error env SPI_ERROR_CONFIGURE err text (s, SIoctl (fd s) req False # h) = (r1, s1, h1)"
    by (metis prod_cases3)
  from spi_error_spec [OF this] Inl assms e show ?thesis
    by (auto simp: spi_write_def spi_ioctl_def Let_def SPI_ERROR_CONFIGURE_def)
next
  case (Inr v)
  with assms show ?thesis by (auto simp: spi_write_def spi_ioctl_def Let_def)
qed

text \<open>A successful read-modify-write wrote the changed value of what it read.\<close>

lemma spi_update_done:
  assumes "spi_update env rd_req t1 wr_req t2 (s, h) = (0, s', h')" and "rd_req \<in> {RD_MODE, RD_MODE32}"
  shows "\<exists>v. s_ioctl env h (fd s) rd_req = Inr v \<and> s' = s
    \<and> regs_of r (fd s) h' = reg_write (wr_req v) (regs_of r (fd s) h)"
proof -
  obtain x s1 h1 where rd: "spi_read env rd_req t1 (\<lambda>v. v) (s, h) = (x, s1, h1)" by (metis prod_cases3)
  note spec = spi_read_spec [OF rd]
  show ?thesis
  proof (cases x)
    case (Inl c)
    then show ?thesis using assms(1) rd spec by (simp add: spi_update_def SPI_ERROR_QUERY_def)
  next
    case (Inr v)
    then have wr: "spi_write env (wr_req v) t2 (s1, h1) = (0, s', h')"
      using assms(1) rd by (simp add: spi_update_def)
    with spi_write_spec [OF wr] spec Inr assms(2) show ?thesis
      by (auto simp: SPI_ERROR_CONFIGURE_def)
  qed
qed

text \<open>
  The configuration steps of an open, from a state with a descriptor: either all requests succeed,
  or the descriptor is closed and forgotten.
\<close>

definition config_past :: "spi_req list \<Rightarrow> nat \<Rightarrow> int \<Rightarrow> spi_hist \<Rightarrow> spi_hist" where
  "config_past reqs k d h = map (\<lambda>q. SIoctl d q True) (rev (take k reqs)) @ h"

definition config_done :: "spi_env \<Rightarrow> spi_req list \<Rightarrow> spi_st \<Rightarrow> int \<times> spi_st \<Rightarrow> bool" where
  "config_done env reqs st = (\<lambda>(ret, s', h'). let d = fd (fst st) in
     (ret = 0 \<and> s' = fst st \<and> h' = config_past reqs (length reqs) d (snd st))
     \<or> (ret = SPI_ERROR_CONFIGURE \<and> fd s' = - 1 \<and> length (errmsg s') < 96
        \<and> (\<exists>k<length reqs. let past = config_past reqs k d (snd st) in
              s_ioctl env past d (reqs ! k) = Inl (c_errno s') \<and> h' = SClose d # SIoctl d (reqs ! k) False # past)))"

lemma config_past_0 [simp]: "config_past reqs 0 d h = h"
  by (simp add: config_past_def)

lemma config_past_Suc [simp]: "config_past (q # reqs) (Suc k) d h = config_past reqs k d (SIoctl d q True # h)"
  by (simp add: config_past_def)

lemma config_done_Nil: "config_done env [] st (0, st)"
  by (cases st) (simp add: config_done_def)

lemma config_done_step:
  assumes "\<And>st'. fst st' = fst st \<Longrightarrow> config_done env reqs st' (continue st')"
  shows "config_done env (req # reqs) st (open_config env req text continue st)"
proof -
  obtain s h where st: "st = (s, h)" by fastforce
  show ?thesis
  proof (cases "s_ioctl env h (fd s) req")
    case (Inl err)
    obtain ret s1 h1 where e: "spi_error env SPI_ERROR_CONFIGURE err text
        (s\<lparr>fd := - 1\<rparr>, SClose (fd s) # SIoctl (fd s) req False # h) = (ret, s1, h1)"
      by (metis prod_cases3)
    from spi_error_spec [OF this] Inl e show ?thesis
      by (auto simp: config_done_def st open_config_def spi_ioctl_def open_abort_def Let_def
          intro!: exI [of _ 0])
  next
    case (Inr v)
    let ?st = "(s, SIoctl (fd s) req True # h)"
    have "config_done env reqs ?st (continue ?st)" using assms by (simp add: st)
    moreover have "open_config env req text continue st = continue ?st"
      using Inr by (simp add: open_config_def st spi_ioctl_def)
    moreover obtain ret s' h' where "continue ?st = (ret, s', h')" by (rule prod_cases3)
    ultimately show ?thesis
      by (auto simp: config_done_def st Let_def intro: exI [of _ "Suc _"])
  qed
qed

definition mode_req :: "u32 \<Rightarrow> u32 \<Rightarrow> u32 \<Rightarrow> spi_req" where
  "mode_req mode bit_order extra_flags =
     (if extra_flags > 0xff then WR_MODE32 (mode_word mode bit_order extra_flags)
      else WR_MODE (ucast (mode_word mode bit_order extra_flags)))"

lemma open_cases:
  assumes "spi_open_advanced2 env path mode max_speed bit_order bits extra_flags (s, h) = (ret, s', h')"
  shows "(ret = SPI_ERROR_ARG \<and> h' = h \<and> fd s' = fd s \<and> c_errno s' = 0 \<and> length (errmsg s') < 96
      \<and> (mode AND NOT 0x3 \<noteq> 0 \<or> bit_order \<noteq> MSB_FIRST \<and> bit_order \<noteq> LSB_FIRST))
    \<or> ((mode AND NOT 0x3 = 0 \<and> (bit_order = MSB_FIRST \<or> bit_order = LSB_FIRST))
       \<and> ((ret = SPI_ERROR_OPEN \<and> fd s' = - 1 \<and> h' = SOpen path None # h \<and> s_open env h path = Inl (c_errno s')
             \<and> length (errmsg s') < 96)
         \<or> (\<exists>d. s_open env h path = Inr d \<and> config_done env
              [mode_req mode bit_order extra_flags, WR_MAX_SPEED max_speed, WR_BITS bits]
              (\<lparr>fd = d, c_errno = 0, errmsg = []\<rparr>, SOpen path (Some d) # h) (ret, s', h'))))"
proof (cases "mode AND NOT 0x3 \<noteq> 0 \<or> bit_order \<noteq> MSB_FIRST \<and> bit_order \<noteq> LSB_FIRST")
  case True
  then obtain fmt where "spi_error env SPI_ERROR_ARG 0 fmt (s, h) = (ret, s', h')"
    using assms by (auto simp: spi_open_advanced2_def split: if_splits)
  from spi_error_spec [OF this] True show ?thesis by simp
next
  case False
  then have args: "mode AND NOT 0x3 = 0" "bit_order = MSB_FIRST \<or> bit_order = LSB_FIRST" by auto
  show ?thesis
  proof (cases "s_open env h path")
    case (Inl err)
    with assms args have "spi_error env SPI_ERROR_OPEN err (''Opening SPI device \"'' @ path @ ''\"'')
        (\<lparr>fd = - 1, c_errno = 0, errmsg = []\<rparr>, SOpen path None # h) = (ret, s', h')"
      by (auto simp: spi_open_advanced2_def)
    from spi_error_spec [OF this] Inl args show ?thesis by simp
  next
    case (Inr d)
    let ?st = "(\<lparr>fd = d, c_errno = 0, errmsg = []\<rparr>, SOpen path (Some d) # h)"
    have "spi_open_advanced2 env path mode max_speed bit_order bits extra_flags (s, h)
        = open_config env (mode_req mode bit_order extra_flags) ''Setting SPI mode''
            (open_config env (WR_MAX_SPEED max_speed) ''Setting SPI max speed''
              (open_config env (WR_BITS bits) ''Setting SPI bits per word'' (\<lambda>st'. (0, st')))) ?st"
      using args Inr by (auto simp: spi_open_advanced2_def mode_req_def)
    moreover have "config_done env [mode_req mode bit_order extra_flags, WR_MAX_SPEED max_speed, WR_BITS bits] ?st \<dots>"
      by (intro config_done_step config_done_Nil)
    ultimately show ?thesis
      using assms args Inr by simp
  qed
qed

section \<open>The getters and the registers\<close>

lemma bit_3: "bit (3 :: int) n \<longleftrightarrow> n < 2"
proof -
  have "(3 :: int) = mask 2" by (simp add: mask_eq_exp_minus_1)
  then show ?thesis by (simp only: bit_mask_iff) auto
qed

lemma bit_8: "bit (8 :: int) n \<longleftrightarrow> n = 3"
proof -
  have "(8 :: int) = push_bit 3 1" by simp
  then show ?thesis by (simp only: bit_push_bit_iff bit_1_iff) auto
qed

lemma bit_11: "bit (11 :: int) n \<longleftrightarrow> n < 2 \<or> n = 3"
proof -
  have "(11 :: int) = 3 OR 8" by code_simp
  then show ?thesis by (simp only: bit_or_iff bit_3 bit_8)
qed

lemma low_byte_bit: "bit (255 :: int) n \<longleftrightarrow> n < 8"
proof -
  have "(255 :: int) = mask 8" by (simp add: mask_eq_exp_minus_1)
  then show ?thesis by (simp only: bit_mask_iff) auto
qed

lemmas spi_bits = bit_simps bit_3 bit_8 bit_11 low_byte_bit

lemma bit_byte_mode:
  "bit (byte_mode r v) n \<longleftrightarrow> (if n < 8 then bit v n else bit (g_keep r (g_mode r)) n)"
  using bit_imp_le_length [of v n] bit_imp_le_length [of "g_keep r (g_mode r)" n]
  by (auto simp: byte_mode_def spi_bits)

lemma spi_masks: "SPI_CPHA OR SPI_CPOL = 3" "SPI_CPOL OR SPI_CPHA = 3"
  "SPI_CPOL OR SPI_CPHA OR SPI_LSB_FIRST = 11"
  by (simp_all add: SPI_CPHA_def SPI_CPOL_def SPI_LSB_FIRST_def)

lemma get_mode_reg:
  assumes "spidev_ok env r (fd s)" and "spi_get_mode env (s, h) = (Inr v, st)"
  shows "v = g_mode (regs_of r (fd s) h) AND 3"
  using spi_read_spec [of env RD_MODE _ _ s h "Inr v" "fst st" "snd st"] assms
  by (fastforce simp: spi_get_mode_def spidev_ok_def Let_def spi_masks intro: bit_word_eqI simp: spi_bits)

lemma get_extra_flags_reg:
  assumes "spidev_ok env r (fd s)" and "spi_get_extra_flags env (s, h) = (Inr v, st)"
  shows "v = ucast (g_mode (regs_of r (fd s) h)) AND NOT 11"
proof -
  from spi_read_spec [of env RD_MODE _ _ s h "Inr v" "fst st" "snd st"] assms(2)
  obtain w where w: "s_ioctl env h (fd s) RD_MODE = Inr w"
    "v = ucast (ucast (ucast w :: u8) AND NOT (11 :: u32))"
    by (fastforce simp: spi_get_extra_flags_def spi_masks)
  with assms(1) have "v = ucast (ucast (ucast (g_mode (regs_of r (fd s) h)) :: u8) AND NOT (11 :: u32))"
    by (simp add: spidev_ok_def Let_def)
  also have "\<dots> = ucast (g_mode (regs_of r (fd s) h)) AND NOT 11"
    by (rule bit_word_eqI) (auto simp: spi_bits)
  finally show ?thesis .
qed

lemma get_extra_flags32_reg:
  assumes "spidev_ok env r (fd s)" and "spi_get_extra_flags32 env (s, h) = (Inr v, st)"
  shows "v = g_mode (regs_of r (fd s) h) AND NOT 11"
  using spi_read_spec [of env RD_MODE32 _ _ s h "Inr v" "fst st" "snd st"] assms
  by (fastforce simp: spi_get_extra_flags32_def spidev_ok_def Let_def spi_masks)

lemma get_bit_order_reg:
  assumes "spidev_ok env r (fd s)" and "spi_get_bit_order env (s, h) = (Inr v, st)"
  shows "v = (if bit (g_mode (regs_of r (fd s) h)) 3 then LSB_FIRST else MSB_FIRST)"
  using spi_read_spec [of env RD_LSB_FIRST _ _ s h "Inr v" "fst st" "snd st"] assms
  by (fastforce simp: spi_get_bit_order_def spidev_ok_def Let_def)

lemma get_speed_reg:
  assumes "spidev_ok env r (fd s)" and "spi_get_max_speed env (s, h) = (Inr v, st)"
  shows "v = g_speed (regs_of r (fd s) h)"
  using spi_read_spec [of env RD_MAX_SPEED _ _ s h "Inr v" "fst st" "snd st"] assms
  by (fastforce simp: spi_get_max_speed_def spidev_ok_def Let_def)

lemma get_bits_reg:
  assumes "spidev_ok env r (fd s)" and "spi_get_bits_per_word env (s, h) = (Inr v, st)"
  shows "v = g_bits (regs_of r (fd s) h)"
  using spi_read_spec [of env RD_BITS _ _ s h "Inr v" "fst st" "snd st"] assms
  by (fastforce simp: spi_get_bits_per_word_def spidev_ok_def Let_def)

lemmas getter_regs = get_mode_reg get_extra_flags_reg get_extra_flags32_reg get_bit_order_reg get_speed_reg get_bits_reg

lemma low_bits:
  assumes "w AND NOT 0x3 = 0" and "bit (w :: u32) n"
  shows "n < 2"
proof (rule ccontr)
  assume "\<not> n < 2"
  then have "bit (w AND NOT 0x3) n"
    using assms(2) bit_imp_le_length [OF assms(2)] by (simp add: spi_bits)
  then show False by (simp only: assms(1) bit_0_eq bot_apply bot_bool_def)
qed

lemma flag_bits:
  assumes "w AND 11 = 0" and "bit (w :: u32) n"
  shows "\<not> (n < 2 \<or> n = 3)"
proof
  assume "n < 2 \<or> n = 3"
  then have "bit (w AND 11) n"
    using assms(2) bit_imp_le_length [OF assms(2)] by (auto simp: spi_bits)
  then show False by (simp only: assms(1) bit_0_eq bot_apply bot_bool_def)
qed

lemma byte_bits:
  assumes "w \<le> 0xff" and "bit (w :: u32) n"
  shows "n < 8"
proof -
  have "unat w < 2 ^ 8" using assms(1) by (simp add: word_le_nat_alt)
  then have "unat (take_bit 8 w) = unat w" by (simp only: unsigned_take_bit_eq take_bit_nat_eq_self)
  then have "w = take_bit 8 w" by (simp only: word_unat_eq_iff)
  with assms(2) show ?thesis by (metis bit_take_bit_iff)
qed

lemma mode_word_bit:
  "bit (mode_word mode bit_order flags) n \<longleftrightarrow> bit mode n \<or> bit_order = LSB_FIRST \<and> n = 3 \<or> bit flags n"
  by (auto simp: mode_word_def SPI_LSB_FIRST_def spi_bits)

lemma set_mode_regs:
  assumes "spidev_ok env r (fd s)" and "spi_set_mode env mode (s, h) = (0, s', h')"
  shows "s' = s \<and> mode AND NOT 0x3 = 0 \<and> (let g = regs_of r (fd s) h in
    regs_of r (fd s) h' = g\<lparr>g_mode := byte_mode g ((ucast (g_mode g) AND NOT 3) OR ucast mode)\<rparr>)"
proof (cases "mode AND NOT 0x3 = 0")
  case False
  then have "spi_error env SPI_ERROR_ARG 0 ''Invalid mode (can be 0,1,2,3)'' (s, h) = (0, s', h')"
    using assms(2) by (simp add: spi_set_mode_def)
  from spi_error_spec [OF this] show ?thesis by (simp add: SPI_ERROR_ARG_def)
next
  case True
  then have "spi_update env RD_MODE ''Getting SPI mode''
      (\<lambda>v. WR_MODE ((ucast v AND ucast (NOT (SPI_CPOL OR SPI_CPHA))) OR ucast mode)) ''Setting SPI mode'' (s, h)
      = (0, s', h')"
    using assms(2) by (simp add: spi_set_mode_def Let_def)
  from spi_update_done [OF this, of r] obtain v where v: "s_ioctl env h (fd s) RD_MODE = Inr v" "s' = s"
    "regs_of r (fd s) h' = reg_write (WR_MODE ((ucast v AND ucast (NOT (SPI_CPOL OR SPI_CPHA))) OR ucast mode))
       (regs_of r (fd s) h)" by auto
  moreover have "(ucast v :: u8) = ucast (g_mode (regs_of r (fd s) h))"
    using assms(1) v(1) by (simp add: spidev_ok_def Let_def)
  moreover have "(ucast (NOT 3 :: u32) :: u8) = NOT 3"
    by code_simp
  ultimately show ?thesis using True by (simp only: spi_masks Let_def reg_write.simps)
qed

lemma set_extra_flags_regs:
  assumes "spidev_ok env r (fd s)" and "spi_set_extra_flags env flags (s, h) = (0, s', h')"
  shows "s' = s \<and> (let g = regs_of r (fd s) h in
    regs_of r (fd s) h' = g\<lparr>g_mode := byte_mode g ((ucast (g_mode g) AND 11) OR flags)\<rparr>)"
proof -
  from spi_update_done [OF assms(2) [unfolded spi_set_extra_flags_def], of r] obtain v where
    v: "s_ioctl env h (fd s) RD_MODE = Inr v" "s' = s"
    "regs_of r (fd s) h' = reg_write (WR_MODE ((ucast v AND ucast (SPI_CPOL OR SPI_CPHA OR SPI_LSB_FIRST)) OR flags))
       (regs_of r (fd s) h)" by (auto simp: Let_def)
  moreover have "(ucast v :: u8) = ucast (g_mode (regs_of r (fd s) h))"
    using assms(1) v(1) by (simp add: spidev_ok_def Let_def)
  moreover have "(ucast (11 :: u32) :: u8) = 11"
    by code_simp
  ultimately show ?thesis by (simp only: spi_masks Let_def reg_write.simps)
qed

lemma set_extra_flags32_regs:
  assumes "spidev_ok env r (fd s)" and "spi_set_extra_flags32 env flags (s, h) = (0, s', h')"
  shows "s' = s \<and> (let g = regs_of r (fd s) h in
    regs_of r (fd s) h' = g\<lparr>g_mode := (g_mode g AND 11) OR flags\<rparr>)"
proof -
  from spi_update_done [OF assms(2) [unfolded spi_set_extra_flags32_def], of r] obtain v where
    v: "s_ioctl env h (fd s) RD_MODE32 = Inr v" "s' = s"
    "regs_of r (fd s) h' = reg_write (WR_MODE32 ((v AND (SPI_CPOL OR SPI_CPHA OR SPI_LSB_FIRST)) OR flags))
       (regs_of r (fd s) h)" by auto
  moreover have "v = g_mode (regs_of r (fd s) h)"
    using assms(1) v(1) by (simp add: spidev_ok_def Let_def)
  ultimately show ?thesis by (simp only: spi_masks Let_def reg_write.simps)
qed

lemma set_bit_order_regs:
  assumes "spi_set_bit_order env bit_order (s, h) = (0, s', h')"
  shows "s' = s \<and> (bit_order = MSB_FIRST \<or> bit_order = LSB_FIRST) \<and> (let g = regs_of r (fd s) h in
    regs_of r (fd s) h' = g\<lparr>g_mode := (if bit_order = LSB_FIRST then g_mode g OR 8 else g_mode g AND NOT 8)\<rparr>)"
proof (cases "bit_order = MSB_FIRST \<or> bit_order = LSB_FIRST")
  case False
  then have "spi_error env SPI_ERROR_ARG 0 ''Invalid bit order (can be MSB_FIRST,LSB_FIRST)'' (s, h) = (0, s', h')"
    using assms by (simp add: spi_set_bit_order_def)
  from spi_error_spec [OF this] show ?thesis by (simp add: SPI_ERROR_ARG_def)
next
  case True
  then have "spi_write env (WR_LSB_FIRST (if bit_order = LSB_FIRST then 1 else 0)) ''Setting SPI bit order'' (s, h) = (0, s', h')"
    using assms by (auto simp: spi_set_bit_order_def)
  from spi_write_spec [OF this] True show ?thesis
    by (auto simp: SPI_ERROR_CONFIGURE_def Let_def)
qed

text \<open>A failed configuration leaves no descriptor behind.\<close>

lemma config_done_fds: "fds (map (\<lambda>q. SIoctl d q True) qs @ SOpen path (Some d) # h) = add_mset d (fds h)"
  by (induction qs) auto

lemma config_failed_fds: "fds (SClose d # SIoctl d q ok # config_past reqs k d (SOpen path (Some d) # h)) = fds h"
  by (simp add: config_past_def config_done_fds)

section \<open>Properties\<close>

text \<open>
  C27: Opening is all or nothing. When \<^verbatim>\<open>spi_open_advanced2\<close> returns 0, the handle holds the
  descriptor the kernel gave, with no error, and exactly the mode, the speed and the word size were
  written to it, in this order: the mode as a whole 32-bit word where the flags do not fit a byte,
  as its low byte otherwise, so that all three registers are known. When it returns anything else, no
  descriptor is left open: refused arguments give the argument error with nothing called; a failing
  open gives the open error with its errno; otherwise the error is the configuration error with the
  errno of the first request that failed, after which only the close was called. The handle then
  holds -1 and a message of less than 96 characters.
\<close>

theorem spi_open_all_or_nothing:
  assumes "spi_open_advanced2 env path mode max_speed bit_order bits extra_flags (s, h) = (ret, s', h')"
  defines "w \<equiv> mode OR (if bit_order = LSB_FIRST then 8 else 0) OR extra_flags"
  defines "reqs \<equiv> [if extra_flags > 0xff then WR_MODE32 w else WR_MODE (ucast w), WR_MAX_SPEED max_speed, WR_BITS bits]"
  shows "if ret = 0
    then s_open env h path = Inr (fd s') \<and> s' = \<lparr>fd = fd s', c_errno = 0, errmsg = []\<rparr>
      \<and> fds h' = add_mset (fd s') (fds h)
      \<and> h' = map (\<lambda>q. SIoctl (fd s') q True) (rev reqs) @ SOpen path (Some (fd s')) # h
      \<and> (let g = regs_of r (fd s') h in regs_of r (fd s') h' =
           g\<lparr>g_mode := if extra_flags > 0xff then w else byte_mode g (ucast w), g_speed := max_speed, g_bits := bits\<rparr>)
    else fds h' = fds h \<and> length (errmsg s') < 96
      \<and> (if mode AND NOT 0x3 \<noteq> 0 \<or> bit_order \<noteq> MSB_FIRST \<and> bit_order \<noteq> LSB_FIRST
          then ret = SPI_ERROR_ARG \<and> h' = h \<and> fd s' = fd s \<and> c_errno s' = 0
          else fd s' = - 1 \<and> (case s_open env h path of
              Inl e \<Rightarrow> ret = SPI_ERROR_OPEN \<and> c_errno s' = e \<and> h' = SOpen path None # h
            | Inr d \<Rightarrow> ret = SPI_ERROR_CONFIGURE \<and> (\<exists>k<3.
                let past = map (\<lambda>q. SIoctl d q True) (rev (take k reqs)) @ SOpen path (Some d) # h
                in s_ioctl env past d (reqs ! k) = Inl (c_errno s')
                   \<and> h' = SClose d # SIoctl d (reqs ! k) False # past)))"
proof -
  let ?bad = "mode AND NOT 0x3 \<noteq> 0 \<or> bit_order \<noteq> MSB_FIRST \<and> bit_order \<noteq> LSB_FIRST"
  have reqs: "[mode_req mode bit_order extra_flags, WR_MAX_SPEED max_speed, WR_BITS bits] = reqs"
    by (simp add: reqs_def w_def mode_req_def mode_word_def SPI_LSB_FIRST_def)
  consider (arg) "ret = SPI_ERROR_ARG" "h' = h" "fd s' = fd s" "c_errno s' = 0" "length (errmsg s') < 96" ?bad
    | (nodev) "\<not> ?bad" "ret = SPI_ERROR_OPEN" "fd s' = - 1" "h' = SOpen path None # h"
        "s_open env h path = Inl (c_errno s')" "length (errmsg s') < 96"
    | (config) d where "\<not> ?bad" "s_open env h path = Inr d" "config_done env reqs
        (\<lparr>fd = d, c_errno = 0, errmsg = []\<rparr>, SOpen path (Some d) # h) (ret, s', h')"
    using open_cases [OF assms(1)] unfolding reqs by blast
  then show ?thesis
  proof cases
    case arg
    then show ?thesis by (simp add: SPI_ERROR_ARG_def)
  next
    case nodev
    then show ?thesis by (simp add: SPI_ERROR_OPEN_def)
  next
    case config
    show ?thesis
    proof (cases "ret = 0")
      case True
      with config(3) have "s' = \<lparr>fd = d, c_errno = 0, errmsg = []\<rparr>"
        "h' = map (\<lambda>q. SIoctl d q True) (rev reqs) @ SOpen path (Some d) # h"
        by (simp_all add: config_done_def SPI_ERROR_CONFIGURE_def config_past_def)
      with True config(2) show ?thesis
        by (simp add: config_done_fds del: rev.simps) (simp add: reqs_def Let_def)
    next
      case False
      with config(3) obtain k where c: "ret = SPI_ERROR_CONFIGURE" "fd s' = - 1" "length (errmsg s') < 96"
        "k < length reqs" "s_ioctl env (config_past reqs k d (SOpen path (Some d) # h)) d (reqs ! k) = Inl (c_errno s')"
        "h' = SClose d # SIoctl d (reqs ! k) False # config_past reqs k d (SOpen path (Some d) # h)"
        by (auto simp: config_done_def Let_def)
      have "length reqs = 3" by (simp add: reqs_def)
      with c config(1,2) False config_failed_fds [of d "reqs ! k" False reqs k path h] show ?thesis
        unfolding config_past_def by auto
    qed
  qed
qed

text \<open>
  C28: What is configured is what is read. After a successful open with flags that do not touch the
  mode and bit order bits, on a driver that keeps its registers, each getter that succeeds gives the
  value that was passed to the open. For the flags: \<^verbatim>\<open>spi_get_extra_flags\<close> gives their low byte, and
  \<^verbatim>\<open>spi_get_extra_flags32\<close> gives all 32 bits of flags above 0xff; for flags of one byte it gives them
  together with what the driver's 8-bit request leaves in bits 8 to 31, which is exactly the flags
  when that is nothing.
\<close>

theorem spi_open_then_get:
  assumes "spi_open_advanced2 env path mode max_speed bit_order bits extra_flags (s, h) = (0, st)"
    and "spidev_ok env r (fd (fst st))" and "extra_flags AND 11 = 0"
  shows "(\<forall>v st'. spi_get_mode env st = (Inr v, st') \<longrightarrow> v = mode)
    \<and> (\<forall>v st'. spi_get_bit_order env st = (Inr v, st') \<longrightarrow> v = bit_order)
    \<and> (\<forall>v st'. spi_get_max_speed env st = (Inr v, st') \<longrightarrow> v = max_speed)
    \<and> (\<forall>v st'. spi_get_bits_per_word env st = (Inr v, st') \<longrightarrow> v = bits)
    \<and> (\<forall>v st'. spi_get_extra_flags env st = (Inr v, st') \<longrightarrow> v = ucast extra_flags)
    \<and> (\<forall>v st'. spi_get_extra_flags32 env st = (Inr v, st') \<longrightarrow> v =
         (if extra_flags > 0xff then extra_flags
          else (let g = regs_of r (fd (fst st)) h in (g_keep g (g_mode g) AND NOT 0xff) OR extra_flags)))"
proof -
  obtain s' h' where st: "st = (s', h')" by fastforce
  note ok = assms(2) [unfolded st fst_conv]
  from open_cases [OF assms(1) [unfolded st]] obtain d where
    args: "mode AND NOT 0x3 = 0" "bit_order = MSB_FIRST \<or> bit_order = LSB_FIRST" and
    conf: "config_done env [mode_req mode bit_order extra_flags, WR_MAX_SPEED max_speed, WR_BITS bits]
        (\<lparr>fd = d, c_errno = 0, errmsg = []\<rparr>, SOpen path (Some d) # h) (0, s', h')"
    by (auto simp: spi_codes)
  define g where "g = regs_of r (fd s') h"
  define m where "m = g_mode (regs_of r (fd s') h')"
  let ?hi = "g_keep g (g_mode g)"
  from conf have m_def': "m = (if extra_flags > 0xff then mode_word mode bit_order extra_flags
      else byte_mode g (ucast (mode_word mode bit_order extra_flags)))"
    and g: "g_speed (regs_of r (fd s') h') = max_speed" "g_bits (regs_of r (fd s') h') = bits"
    by (auto simp: config_done_def SPI_ERROR_CONFIGURE_def mode_req_def config_past_def g_def m_def)
  have mb: "bit mode n \<Longrightarrow> n < 2" "bit mode n \<Longrightarrow> n < 8" for n using low_bits [OF args(1), of n] by auto
  have e: "bit extra_flags n \<Longrightarrow> \<not> (n < 2 \<or> n = 3)" for n by (rule flag_bits [OF assms(3)])
  have bm: "bit m n \<longleftrightarrow> (if n < 8 \<or> extra_flags > 0xff then bit mode n \<or> bit_order = LSB_FIRST \<and> n = 3 \<or> bit extra_flags n
      else bit ?hi n)" for n
    by (auto simp: m_def' bit_byte_mode mode_word_bit spi_bits)
  have small: "n < 8" if "\<not> extra_flags > 0xff" "bit extra_flags n" for n
    using that by (intro byte_bits [of extra_flags]) simp_all
  have m1: "m AND 3 = mode"
    by (rule bit_word_eqI) (use bm mb e in \<open>auto simp: spi_bits\<close>)
  have m2: "ucast m AND NOT 11 = (ucast extra_flags :: u8)"
    by (rule bit_word_eqI) (use bm mb e in \<open>auto simp: spi_bits\<close>)
  have m3: "bit m 3 \<longleftrightarrow> bit_order = LSB_FIRST"
    using bm [of 3] mb [of 3] e [of 3] by auto
  have m4: "m AND NOT 11 = (if extra_flags > 0xff then extra_flags else (?hi AND NOT 0xff) OR extra_flags)"
    by (rule bit_word_eqI) (use bm mb e small in \<open>auto simp: spi_bits\<close>)
  note defs = m_def [symmetric] g_def [symmetric] g
  show ?thesis
    unfolding st fst_conv Let_def
    using getter_regs [OF ok, of h', unfolded defs] args(2) m1 m2 m3 m4 by (auto simp: defs)
qed

text \<open>The four setters of the mode word.\<close>

lemma set_mode_frame:
  assumes "spidev_ok env r (fd (fst st))" and "spi_set_mode env mode st = (0, st')"
  defines "g \<equiv> regs_at r st"
  shows "(\<exists>w. regs_at r st' = g\<lparr>g_mode := w\<rparr> \<and> (\<forall>n. bit w n \<longleftrightarrow>
         (if n < 2 then bit mode n else if n < 8 then bit (g_mode g) n else bit (g_keep g (g_mode g)) n)))
    \<and> (\<forall>v st''. spi_get_mode env st' = (Inr v, st'') \<longrightarrow> v = mode)"
proof -
  obtain s h where st: "st = (s, h)" by fastforce
  note ok = assms(1) [unfolded st fst_conv]
  have g: "g = regs_of r (fd s) h" by (simp add: g_def st)
  obtain s' h' where st': "st' = (s', h')" and "spi_set_mode env mode (s, h) = (0, s', h')"
    by (use assms(2) in \<open>metis st surj_pair\<close>)
  note R = set_mode_regs [OF ok this(2), unfolded Let_def g [symmetric]]
  then have low: "bit mode n \<Longrightarrow> n < 2" for n using low_bits [of mode n] by simp
  define W where "W = byte_mode g ((ucast (g_mode g) AND NOT 3) OR ucast mode)"
  note regs = R [folded W_def]
  have w: "bit W n \<longleftrightarrow> (if n < 2 then bit mode n else if n < 8 then bit (g_mode g) n
      else bit (g_keep g (g_mode g)) n)" for n
    using low [of n] by (auto simp: W_def bit_byte_mode spi_bits)
  have "v = mode" if "spi_get_mode env st' = (Inr v, st'')" for v st''
  proof -
    from that get_mode_reg [of env r s' h' v st''] regs ok have "v = W AND 3"
      by (simp add: st')
    also have "\<dots> = mode"
      by (rule bit_word_eqI) (use low in \<open>auto simp: bit_and_iff w spi_bits\<close>)
    finally show ?thesis .
  qed
  then show ?thesis
    using regs w by (auto simp: st' intro!: exI [of _ W])
qed

lemma set_bit_order_frame:
  assumes "spidev_ok env r (fd (fst st))" and "spi_set_bit_order env bit_order st = (0, st')"
  defines "g \<equiv> regs_at r st"
  shows "(\<exists>w. regs_at r st' = g\<lparr>g_mode := w\<rparr> \<and> (\<forall>n. bit w n \<longleftrightarrow>
         (if n = 3 then bit_order = LSB_FIRST else bit (g_mode g) n)))
    \<and> (\<forall>v st''. spi_get_bit_order env st' = (Inr v, st'') \<longrightarrow> v = bit_order)"
proof -
  obtain s h where st: "st = (s, h)" by fastforce
  note ok = assms(1) [unfolded st fst_conv]
  have g: "g = regs_of r (fd s) h" by (simp add: g_def st)
  obtain s' h' where st': "st' = (s', h')" and "spi_set_bit_order env bit_order (s, h) = (0, s', h')"
    by (use assms(2) in \<open>metis st surj_pair\<close>)
  note R = set_bit_order_regs [OF this(2), of r, unfolded Let_def g [symmetric]]
  define W where "W = (if bit_order = LSB_FIRST then g_mode g OR 8 else g_mode g AND NOT 8)"
  note regs = R [folded W_def]
  have w: "bit W n \<longleftrightarrow> (if n = 3 then bit_order = LSB_FIRST else bit (g_mode g) n)" for n
    using bit_imp_le_length [of "g_mode g" n] by (auto simp: W_def spi_bits)
  have "v = bit_order" if "spi_get_bit_order env st' = (Inr v, st'')" for v st''
  proof -
    from that get_bit_order_reg [of env r s' h' v st''] regs ok w [of 3] show ?thesis
      by (auto simp: st')
  qed
  then show ?thesis
    using regs w by (auto simp: st' intro!: exI [of _ W])
qed

lemma set_extra_flags_frame:
  assumes "spidev_ok env r (fd (fst st))" and "spi_set_extra_flags env flags st = (0, st')"
  defines "g \<equiv> regs_at r st"
  shows "(\<exists>w. regs_at r st' = g\<lparr>g_mode := w\<rparr> \<and> (\<forall>n. bit w n \<longleftrightarrow>
         (if n \<in> {0, 1, 3} then bit (g_mode g) n \<or> bit flags n
          else if n < 8 then bit flags n else bit (g_keep g (g_mode g)) n)))
    \<and> (\<forall>v st''. spi_get_extra_flags env st' = (Inr v, st'') \<longrightarrow> v = flags AND NOT 11)"
proof -
  obtain s h where st: "st = (s, h)" by fastforce
  note ok = assms(1) [unfolded st fst_conv]
  have g: "g = regs_of r (fd s) h" by (simp add: g_def st)
  obtain s' h' where st': "st' = (s', h')" and "spi_set_extra_flags env flags (s, h) = (0, s', h')"
    by (use assms(2) in \<open>metis st surj_pair\<close>)
  note R = set_extra_flags_regs [OF ok this(2), unfolded Let_def g [symmetric]]
  define W where "W = byte_mode g ((ucast (g_mode g) AND 11) OR flags)"
  note regs = R [folded W_def]
  have w: "bit W n \<longleftrightarrow> (if n \<in> {0, 1, 3} then bit (g_mode g) n \<or> bit flags n
      else if n < 8 then bit flags n else bit (g_keep g (g_mode g)) n)" for n
    by (auto simp: W_def bit_byte_mode spi_bits)
  have "v = flags AND NOT 11" if "spi_get_extra_flags env st' = (Inr v, st'')" for v st''
  proof -
    from that get_extra_flags_reg [of env r s' h' v st''] regs ok have "v = ucast W AND NOT 11"
      by (simp add: st')
    also have "\<dots> = flags AND NOT 11"
      by (rule bit_word_eqI) (auto simp: bit_and_iff bit_ucast_iff w spi_bits)
    finally show ?thesis .
  qed
  then show ?thesis
    using regs w by (auto simp: st' intro!: exI [of _ W])
qed

lemma set_extra_flags32_frame:
  assumes "spidev_ok env r (fd (fst st))" and "spi_set_extra_flags32 env flags st = (0, st')"
  defines "g \<equiv> regs_at r st"
  shows "(\<exists>w. regs_at r st' = g\<lparr>g_mode := w\<rparr> \<and> (\<forall>n. bit w n \<longleftrightarrow>
         (if n \<in> {0, 1, 3} then bit (g_mode g) n \<or> bit flags n else bit flags n)))
    \<and> (\<forall>v st''. spi_get_extra_flags32 env st' = (Inr v, st'') \<longrightarrow> v = flags AND NOT 11)"
proof -
  obtain s h where st: "st = (s, h)" by fastforce
  note ok = assms(1) [unfolded st fst_conv]
  have g: "g = regs_of r (fd s) h" by (simp add: g_def st)
  obtain s' h' where st': "st' = (s', h')" and "spi_set_extra_flags32 env flags (s, h) = (0, s', h')"
    by (use assms(2) in \<open>metis st surj_pair\<close>)
  note R = set_extra_flags32_regs [OF ok this(2), unfolded Let_def g [symmetric]]
  define W where "W = (g_mode g AND 11) OR flags"
  note regs = R [folded W_def]
  have w: "bit W n \<longleftrightarrow> (if n \<in> {0, 1, 3} then bit (g_mode g) n \<or> bit flags n else bit flags n)" for n
    by (auto simp: W_def spi_bits)
  have "v = flags AND NOT 11" if "spi_get_extra_flags32 env st' = (Inr v, st'')" for v st''
  proof -
    from that get_extra_flags32_reg [of env r s' h' v st''] regs ok have "v = W AND NOT 11"
      by (simp add: st')
    also have "\<dots> = flags AND NOT 11"
      by (rule bit_word_eqI) (auto simp: bit_and_iff w spi_bits)
    finally show ?thesis .
  qed
  then show ?thesis
    using regs w by (auto simp: st' intro!: exI [of _ W])
qed

text \<open>
  C29: What each setter of the mode does to every bit of the mode word, on a driver that keeps its
  registers. A successful \<^verbatim>\<open>spi_set_mode\<close> assigns bits 0 and 1 and keeps the rest of the low byte, and
  \<^verbatim>\<open>spi_set_bit_order\<close> assigns bit 3 only; \<^verbatim>\<open>spi_set_extra_flags\<close> and \<^verbatim>\<open>spi_set_extra_flags32\<close> assign
  the others, of the low byte and of the word, but do not mask their argument: a flag in bit 0, 1 or
  3 is added to the mode or the bit order. The two setters that write one byte leave in bits 8 to 31
  what the driver's 8-bit request leaves there. What was set is read back, flags without bits 0, 1
  and 3, and no setter touches the speed or the word size.
\<close>

theorem spi_setters_frame:
  assumes "spidev_ok env r (fd (fst st))"
  defines "g \<equiv> regs_at r st"
  shows "(\<forall>mode st'. spi_set_mode env mode st = (0, st') \<longrightarrow>
      (\<exists>w. regs_at r st' = g\<lparr>g_mode := w\<rparr> \<and> (\<forall>n. bit w n \<longleftrightarrow>
         (if n < 2 then bit mode n else if n < 8 then bit (g_mode g) n else bit (g_keep g (g_mode g)) n)))
      \<and> (\<forall>v st''. spi_get_mode env st' = (Inr v, st'') \<longrightarrow> v = mode))
    \<and> (\<forall>bit_order st'. spi_set_bit_order env bit_order st = (0, st') \<longrightarrow>
      (\<exists>w. regs_at r st' = g\<lparr>g_mode := w\<rparr> \<and> (\<forall>n. bit w n \<longleftrightarrow>
         (if n = 3 then bit_order = LSB_FIRST else bit (g_mode g) n)))
      \<and> (\<forall>v st''. spi_get_bit_order env st' = (Inr v, st'') \<longrightarrow> v = bit_order))
    \<and> (\<forall>flags st'. spi_set_extra_flags env flags st = (0, st') \<longrightarrow>
      (\<exists>w. regs_at r st' = g\<lparr>g_mode := w\<rparr> \<and> (\<forall>n. bit w n \<longleftrightarrow>
         (if n \<in> {0, 1, 3} then bit (g_mode g) n \<or> bit flags n
          else if n < 8 then bit flags n else bit (g_keep g (g_mode g)) n)))
      \<and> (\<forall>v st''. spi_get_extra_flags env st' = (Inr v, st'') \<longrightarrow> v = flags AND NOT 11))
    \<and> (\<forall>flags st'. spi_set_extra_flags32 env flags st = (0, st') \<longrightarrow>
      (\<exists>w. regs_at r st' = g\<lparr>g_mode := w\<rparr> \<and> (\<forall>n. bit w n \<longleftrightarrow>
         (if n \<in> {0, 1, 3} then bit (g_mode g) n \<or> bit flags n else bit flags n)))
      \<and> (\<forall>v st''. spi_get_extra_flags32 env st' = (Inr v, st'') \<longrightarrow> v = flags AND NOT 11))"
  unfolding g_def
  using set_mode_frame [OF assms(1)] set_bit_order_frame [OF assms(1)]
    set_extra_flags_frame [OF assms(1)] set_extra_flags32_frame [OF assms(1)] by blast

text \<open>
  Closing. A successful \<^verbatim>\<open>spi_close\<close> releases the descriptor of the handle, exactly once: closing
  again succeeds without a call. A failing one reports the error and keeps the descriptor in the
  handle.
\<close>

theorem spi_close_once:
  assumes "spi_close env (s, h) = (ret, s', h')" and "0 \<le> fd s \<Longrightarrow> fds h = add_mset (fd s) others"
  shows "if ret = 0
    then fd s' < 0 \<and> (0 \<le> fd s \<longrightarrow> fds h' = others) \<and> spi_close env (s', h') = (0, s', h')
    else ret = SPI_ERROR_CLOSE \<and> fd s' = fd s \<and> s_close env h (fd s) = Some (c_errno s') \<and> length (errmsg s') < 96"
proof (cases "fd s < 0")
  case True
  with assms(1) show ?thesis by (auto simp: spi_close_def)
next
  case False
  show ?thesis
  proof (cases "s_close env h (fd s)")
    case None
    with False assms show ?thesis by (auto simp: spi_close_def)
  next
    case (Some err)
    with False assms(1) have "spi_error env SPI_ERROR_CLOSE err ''Closing SPI device'' (s, SClose (fd s) # h) = (ret, s', h')"
      by (simp add: spi_close_def)
    from spi_error_spec [OF this] Some show ?thesis by (simp add: SPI_ERROR_CLOSE_def)
  qed
qed

text \<open>The text of a handle without the buffers of the pieces.\<close>

definition show_value :: "(int + 'v) \<Rightarrow> ('v \<Rightarrow> string) \<Rightarrow> string" where
  "show_value r f = (case r of Inl _ \<Rightarrow> ''?'' | Inr v \<Rightarrow> f v)"

definition spi_text :: "spi_env \<Rightarrow> spi_st \<Rightarrow> string \<times> spi_st" where
  "spi_text env st =
     (let (mode, st1) = spi_get_mode env st;
          (max_speed, st2) = spi_get_max_speed env st1;
          (bit_order, st3) = spi_get_bit_order env st2;
          (bits_per_word, st4) = spi_get_bits_per_word env st3;
          (flags32, st5) = spi_get_extra_flags32 env st4;
          (flags8, st6) = (case flags32 of Inr v \<Rightarrow> (Inl 0, st5) | Inl _ \<Rightarrow> spi_get_extra_flags env st5)
      in (''SPI (fd='' @ dec (fd (fst st6))
          @ '', mode='' @ show_value mode (\<lambda>v. dec (uint v))
          @ '', max_speed='' @ show_value max_speed (\<lambda>v. dec (uint v))
          @ '', bit_order='' @ show_value bit_order (\<lambda>b. if b = LSB_FIRST then ''LSB_FIRST'' else ''MSB_FIRST'')
          @ '', bits_per_word='' @ show_value bits_per_word (\<lambda>v. dec (uint v))
          @ '', extra_flags='' @ (case flags32 of Inr v \<Rightarrow> ''0x'' @ hex 8 (unat v)
              | Inl _ \<Rightarrow> show_value flags8 (\<lambda>v. ''0x'' @ hex 2 (unat v))) @ '')'', st6))"

lemma shown_fits: "(\<And>v. r = Inr v \<Longrightarrow> length (f v) < sz) \<Longrightarrow> shown r sz f = show_value r f"
  by (cases r) (simp_all add: shown_def show_value_def snprintf_fits)

lemma get_mode_small:
  assumes "spi_get_mode env st = (Inr v, st')"
  shows "length (dec (uint v)) < 2"
proof -
  obtain w where "v = w AND 3"
    using spi_read_spec [of env RD_MODE _ _ "fst st" "snd st" "Inr v" "fst st'" "snd st'"] assms
    by (fastforce simp: spi_get_mode_def spi_masks)
  then have "v \<le> 3" by (simp add: word_and_le1)
  then have "uint v < 10 ^ 1" by (simp add: word_le_def)
  then show ?thesis using dec_length [of "uint v" 1] by simp
qed

text \<open>
  C35: No piece of \<^verbatim>\<open>spi_tostring\<close> is cut by its buffer: the text is the same as without the
  buffers of 2, 16, 4 and 11 bytes, whatever the driver answers, so that only the caller's buffer
  bounds it.
\<close>

theorem spi_tostring_complete:
  "spi_tostring env len st = (snprintf len (fst (spi_text env st)), snd (spi_text env st))"
proof -
  have u32: "length (dec (uint v)) < 16" for v :: u32
    using dec_length [of "uint v" 10] unsigned_less [of v, where ?'a = int] by simp
  have u8: "length (dec (uint v)) < 4" for v :: u8
    using dec_length [of "uint v" 3] unsigned_less [of v, where ?'a = int] by simp
  have h8: "fst (snprintf 11 (''0x'' @ hex 8 (unat v))) = ''0x'' @ hex 8 (unat v)" for v :: u32
    using hex_length [of "unat v" 8] unsigned_less [of v, where ?'a = nat] by (subst snprintf_fits) simp_all
  have h2: "length (''0x'' @ hex 2 (unat v)) < 11" for v :: u8
    using hex_length [of "unat v" 2] unsigned_less [of v, where ?'a = nat] by simp
  obtain mode st1 where mode: "spi_get_mode env st = (mode, st1)" by (rule prod.exhaust)
  obtain speed st2 where speed: "spi_get_max_speed env st1 = (speed, st2)" by (rule prod.exhaust)
  obtain order st3 where order: "spi_get_bit_order env st2 = (order, st3)" by (rule prod.exhaust)
  obtain bits st4 where bits: "spi_get_bits_per_word env st3 = (bits, st4)" by (rule prod.exhaust)
  obtain flags st5 where flags: "spi_get_extra_flags32 env st4 = (flags, st5)" by (rule prod.exhaust)
  obtain flags8 st6 where flags8: "spi_get_extra_flags env st5 = (flags8, st6)" by (rule prod.exhaust)
  have p1: "shown mode 2 (\<lambda>v. dec (uint v)) = show_value mode (\<lambda>v. dec (uint v))"
    by (rule shown_fits) (rule get_mode_small [of env st _ st1], simp add: mode)
  have p2: "shown speed 16 (\<lambda>v. dec (uint v)) = show_value speed (\<lambda>v. dec (uint v))"
    by (rule shown_fits) (rule u32)
  have p3: "shown bits 4 (\<lambda>v. dec (uint v)) = show_value bits (\<lambda>v. dec (uint v))"
    by (rule shown_fits) (rule u8)
  have p4: "shown flags8 11 (\<lambda>v. ''0x'' @ hex 2 (unat v)) = show_value flags8 (\<lambda>v. ''0x'' @ hex 2 (unat v))"
    by (rule shown_fits) (rule h2)
  have b: "(case order of Inl _ \<Rightarrow> ''?'' | Inr b \<Rightarrow> if b = LSB_FIRST then ''LSB_FIRST'' else ''MSB_FIRST'')
      = show_value order (\<lambda>b. if b = LSB_FIRST then ''LSB_FIRST'' else ''MSB_FIRST'')"
    by (simp add: show_value_def)
  show ?thesis
    unfolding spi_tostring_def spi_text_def Let_def mode speed order bits flags prod.case b p1 p2 p3
    by (cases flags) (simp_all only: sum.case flags8 h8 prod.case p4 fst_conv snd_conv)
qed

section \<open>Witnesses\<close>

text \<open>A driver that answers from its registers; an 8-bit request clears the bits above the byte.\<close>

definition demo_regs :: spi_regs where
  "demo_regs = \<lparr>g_mode = 0, g_keep = (\<lambda>_. 0), g_speed = 0, g_bits = 8\<rparr>"

definition demo_spi :: spi_env where
  "demo_spi = \<lparr>s_open = (\<lambda>_ p. if p = ''/dev/spidev0.0'' then Inr 5 else Inl 2), s_close = (\<lambda>_ _. None),
     s_ioctl = (\<lambda>h d req. let g = regs_of demo_regs d h in case req of
        RD_MODE \<Rightarrow> Inr (g_mode g AND 0xff) | RD_MODE32 \<Rightarrow> Inr (g_mode g)
      | RD_LSB_FIRST \<Rightarrow> Inr (if bit (g_mode g) 3 then 1 else 0) | RD_MAX_SPEED \<Rightarrow> Inr (g_speed g)
      | RD_BITS \<Rightarrow> Inr (ucast (g_bits g)) | _ \<Rightarrow> Inr 0),
     s_transfer = (\<lambda>_ _ tx _. (1, 0, tx)), s_strerror = (\<lambda>_. ''error'')\<rparr>"

definition spi_start :: spi where
  "spi_start = \<lparr>fd = - 1, c_errno = 0, errmsg = []\<rparr>"

lemma demo_spi_ok: "spidev_ok demo_spi demo_regs d"
  by (auto simp: spidev_ok_def demo_spi_def Let_def unsigned_ucast_eq intro!: bit_word_eqI simp: spi_bits)

definition demo_run :: "int \<times> spi_st" where
  "demo_run = spi_open_advanced2 demo_spi ''/dev/spidev0.0'' 3 1000000 LSB_FIRST 8 0x120 (spi_start, [])"

lemma demo_run_ok: "fst demo_run = 0" "fd (fst (snd demo_run)) = 5"
  by (simp_all add: demo_run_def spi_open_advanced2_def demo_spi_def LSB_FIRST_def MSB_FIRST_def open_config_def
      spi_ioctl_def Let_def spi_start_def)

theorem spi_open_all_or_nothing_witness:
  "fds (snd (snd demo_run)) = {#5#}
   \<and> fd (fst (snd (spi_open_advanced2 demo_spi ''nowhere'' 0 1 MSB_FIRST 8 0 (spi_start, [])))) = - 1"
proof -
  obtain s' h' where run: "demo_run = (0, s', h')"
    using demo_run_ok(1) by (metis prod.collapse)
  obtain ret s2 h2 where bad: "spi_open_advanced2 demo_spi ''nowhere'' 0 1 MSB_FIRST 8 0 (spi_start, []) = (ret, s2, h2)"
    by (metis prod_cases3)
  have "ret \<noteq> 0"
    using bad spi_error_spec [of demo_spi SPI_ERROR_OPEN 2 _ "\<lparr>fd = - 1, c_errno = 0, errmsg = []\<rparr>" _ ret s2 h2]
    by (auto simp: spi_open_advanced2_def demo_spi_def SPI_ERROR_OPEN_def MSB_FIRST_def)
  then have "fd s2 = - 1"
    using spi_open_all_or_nothing [OF bad, of demo_regs] by (simp add: MSB_FIRST_def)
  moreover have "fds h' = {#5#}"
    using spi_open_all_or_nothing [OF run [unfolded demo_run_def], of demo_regs] demo_run_ok(2)
    by (simp add: run)
  ultimately show ?thesis by (simp add: run bad)
qed

theorem spi_open_then_get_witness:
  "fst (spi_get_mode demo_spi (snd demo_run)) = Inr 3
   \<and> fst (spi_get_extra_flags32 demo_spi (snd demo_run)) = Inr 0x120"
proof -
  have run: "spi_open_advanced2 demo_spi ''/dev/spidev0.0'' 3 1000000 LSB_FIRST 8 0x120 (spi_start, []) = (0, snd demo_run)"
    using demo_run_ok(1) unfolding demo_run_def by (metis prod.collapse)
  have "\<exists>v st. spi_get_mode demo_spi (snd demo_run) = (Inr v, st)" "\<exists>v st. spi_get_extra_flags32 demo_spi (snd demo_run) = (Inr v, st)"
    by (simp_all add: spi_get_mode_def spi_get_extra_flags32_def spi_read_def spi_ioctl_def demo_spi_def Let_def split: prod.splits)
  with spi_open_then_get [OF run demo_spi_ok] show ?thesis by fastforce
qed

theorem spi_setters_frame_witness:
  "fst (spi_set_mode demo_spi 1 (snd demo_run)) = 0
   \<and> fst (spi_get_mode demo_spi (snd (spi_set_mode demo_spi 1 (snd demo_run)))) = Inr 1"
proof -
  let ?st = "snd (spi_set_mode demo_spi 1 (snd demo_run))"
  have ok: "fst (spi_set_mode demo_spi 1 (snd demo_run)) = 0"
    by (simp add: spi_set_mode_def spi_update_def spi_read_def spi_write_def spi_ioctl_def demo_spi_def Let_def split: prod.splits)
  have got: "\<exists>v st. spi_get_mode demo_spi ?st = (Inr v, st)"
    by (simp add: spi_get_mode_def spi_read_def spi_ioctl_def demo_spi_def Let_def split: prod.splits)
  have "spi_set_mode demo_spi 1 (snd demo_run) = (0, ?st)"
    using ok by (metis prod.collapse)
  then have "\<forall>v st''. spi_get_mode demo_spi ?st = (Inr v, st'') \<longrightarrow> v = 1"
    using conjunct1 [OF spi_setters_frame [OF demo_spi_ok, where st = "snd demo_run"]] by blast
  with got have "fst (spi_get_mode demo_spi ?st) = Inr 1" by auto
  with ok show ?thesis by simp
qed

theorem spi_close_once_witness:
  "fds [SClose 5, SOpen ''a'' (Some 5)] = {#}"
proof -
  have "spi_close demo_spi (\<lparr>fd = 5, c_errno = 0, errmsg = []\<rparr>, [SOpen ''a'' (Some 5)])
    = (0, \<lparr>fd = - 1, c_errno = 0, errmsg = []\<rparr>, [SClose 5, SOpen ''a'' (Some 5)])"
    by (simp add: spi_close_def demo_spi_def)
  from spi_close_once [OF this] show ?thesis by simp
qed

end
