(* ===== verification/NetUdp.thy ===== *)
theory NetUdp
  imports CdrawQueue
begin

text \<open>
  The UDP endpoint \<^verbatim>\<open>CdrawNet\<close> of \<^verbatim>\<open>cdrawTools/net\<close>: the two constructors, the single send and
  receive, the parameter file, and the worker loops that move data between the socket and a
  \<^verbatim>\<open>CdrawQueue\<close>. The socket layer is given by its results: the descriptor, whether \<^verbatim>\<open>bind\<close>
  succeeds, the address \<^verbatim>\<open>inet_addr\<close> computes, and the datagrams received.

  The worker loops do not end. They are modelled by their iterations: one entry of the list
  \<open>others\<close> or \<open>work\<close> stands for an iteration, with what other threads did to \<^verbatim>\<open>is_work_\<close> before it,
  and the result is the state after these iterations, \<open>None\<close> when one of them blocks for ever or is
  undefined. A worker takes its queue by value, so the queue of the model is the worker's own and
  not that of its caller.

  Shown: which elements the send worker sends, for every package size; what exactly the receive
  worker puts into its queue, and when it overruns its variable; what the constructors set up.
\<close>

section \<open>The endpoint\<close>

record sockaddr =
  s_addr :: u32
  sin_port :: u16

record net_json =
  out_ip :: string
  local_ip :: string
  out_port :: u32
  local_port :: u32

record cdraw_net =
  n_is_work :: bool
  n_use_json :: bool
  n_id :: u8
  n_local_ip :: string
  n_remote_ip :: string
  n_fd :: int
  n_local_port :: u32
  n_remote_port :: u32
  n_local_addr :: sockaddr
  n_remote_addr :: sockaddr
  n_json :: net_json

definition htons :: "u16 \<Rightarrow> u16" where
  "htons p = push_bit 8 p OR drop_bit 8 p"

text \<open>\<^verbatim>\<open>strcpy\<close> into an array of \<open>sz\<close> characters: undefined when the text does not fit.\<close>

definition strcpy :: "nat \<Rightarrow> string \<Rightarrow> string option" where
  "strcpy sz s = (if length s < sz then Some s else None)"

text \<open>
  The constructor with a remote address. \<open>mem\<close> is an object of unspecified contents; a failing
  \<^verbatim>\<open>bind\<close> returns before the parameter record is filled in.
\<close>

definition net_new2 ::
  "(string \<Rightarrow> u32) \<Rightarrow> int \<Rightarrow> bool \<Rightarrow> cdraw_net \<Rightarrow> u8 \<Rightarrow> string \<Rightarrow> string \<Rightarrow> u32 \<Rightarrow> u32 \<Rightarrow> bool \<Rightarrow> bool \<Rightarrow> cdraw_net option" where
  "net_new2 inet_addr sock bind_ok mem ident localIp remoteIp localPort remotePort isWork use_json =
     (let n = mem\<lparr>n_id := ident, n_local_port := localPort, n_remote_port := remotePort,
                  n_local_ip := localIp, n_remote_ip := remoteIp, n_is_work := isWork,
                  n_use_json := use_json, n_fd := sock,
                  n_local_addr := \<lparr>s_addr = inet_addr localIp, sin_port = htons (ucast localPort)\<rparr>,
                  n_remote_addr := \<lparr>s_addr = inet_addr remoteIp, sin_port = htons (ucast remotePort)\<rparr>\<rparr>
      in if \<not> bind_ok then Some n
         else do {
           l \<leftarrow> strcpy 32 localIp;
           r \<leftarrow> strcpy 32 remoteIp;
           Some (n\<lparr>n_json := \<lparr>out_ip = r, local_ip = l, out_port = remotePort, local_port = localPort\<rparr>\<rparr>)
         })"

definition net_new1 ::
  "(string \<Rightarrow> u32) \<Rightarrow> int \<Rightarrow> bool \<Rightarrow> cdraw_net \<Rightarrow> u8 \<Rightarrow> string \<Rightarrow> u32 \<Rightarrow> bool \<Rightarrow> bool \<Rightarrow> cdraw_net option" where
  "net_new1 inet_addr sock bind_ok mem ident localIp localPort isWork use_json =
     (let n = mem\<lparr>n_id := ident, n_local_port := localPort, n_local_ip := localIp, n_remote_ip := [],
                  n_is_work := isWork, n_use_json := use_json, n_fd := sock,
                  n_local_addr := \<lparr>s_addr = inet_addr localIp, sin_port = htons (ucast localPort)\<rparr>\<rparr>
      in do {
        l \<leftarrow> strcpy 32 localIp;
        Some (n\<lparr>n_json := \<lparr>out_ip = [], local_ip = l, out_port = 0, local_port = localPort\<rparr>\<rparr>)
      })"

text \<open>One send: \<open>sent\<close> is the result of \<^verbatim>\<open>sendto\<close> on the data and the address.\<close>

definition sendDateByUdp :: "(sockaddr \<Rightarrow> u8 list \<Rightarrow> int) \<Rightarrow> u8 list option \<Rightarrow> u32 \<Rightarrow> cdraw_net \<Rightarrow> u32" where
  "sendDateByUdp sendto send_data send_size n =
     (case send_data of
        None \<Rightarrow> - 1
      | Some d \<Rightarrow> if send_size \<noteq> 0 then word_of_int (sendto (n_remote_addr n) (take (unat send_size) d)) else - 1)"

definition setIsWork :: "bool \<Rightarrow> cdraw_net \<Rightarrow> cdraw_net" where
  "setIsWork isWork n = n\<lparr>n_is_work := isWork\<rparr>"

text \<open>
  One receive. The call passes the size of the address, 16, where the pointer to the length of the
  address belongs: \<open>recvfrom\<close> is the result of the call for the descriptor, the size and this pointer,
  with the bytes that are stored.
\<close>

definition revDataByUdp ::
  "(int \<Rightarrow> u32 \<Rightarrow> nat \<Rightarrow> int \<times> u8 list) \<Rightarrow> u8 list option \<Rightarrow> u32 \<Rightarrow> cdraw_net \<Rightarrow> u32 \<times> u8 list option" where
  "revDataByUdp recvfrom rev_data rcv_size n =
     (case rev_data of
        None \<Rightarrow> (- 1, None)
      | Some buf \<Rightarrow>
          if rcv_size \<noteq> 0
          then (let (r, bs) = recvfrom (n_fd n) rcv_size 16 in (word_of_int r, Some (bs @ drop (length bs) buf)))
          else (- 1, Some buf))"

text \<open>The accessors, and the descriptors that the destructor closes.\<close>

definition get_is_work :: "cdraw_net \<Rightarrow> bool" where
  "get_is_work n = n_is_work n"

definition get_local_ip :: "cdraw_net \<Rightarrow> string" where
  "get_local_ip n = n_local_ip n"

definition get_remote_ip :: "cdraw_net \<Rightarrow> string" where
  "get_remote_ip n = n_remote_ip n"

definition get_local_port :: "cdraw_net \<Rightarrow> u32" where
  "get_local_port n = n_local_port n"

definition get_remote_port :: "cdraw_net \<Rightarrow> u32" where
  "get_remote_port n = n_remote_port n"

definition net_destroy :: "cdraw_net \<Rightarrow> int list" where
  "net_destroy n = [n_fd n]"

text \<open>
  The parameter file: \<open>file\<close> is the record it holds, if it exists. The result is the return value,
  the object and whether the file is written with the object's record.
\<close>

definition net_init_by_json :: "net_json option \<Rightarrow> cdraw_net \<Rightarrow> u8 \<times> cdraw_net \<times> net_json option" where
  "net_init_by_json file n =
     (if n_use_json n then
        (case file of
           None \<Rightarrow> (0, n, Some (n_json n))
         | Some j \<Rightarrow> (0, n\<lparr>n_json := j, n_local_ip := local_ip j, n_local_port := local_port j,
                         n_remote_ip := out_ip j, n_remote_port := out_port j\<rparr>, None))
      else (- 1, n, None))"

section \<open>The workers\<close>

text \<open>
  The other threads change \<^verbatim>\<open>is_work_\<close> with \<^verbatim>\<open>setIsWork\<close>: \<open>other\<close> is the last such call since the test
  before, if there was one, and \<open>is_work_flags\<close> lists the values that the tests of a run read.
\<close>

definition set_by_other :: "bool option \<Rightarrow> cdraw_net \<Rightarrow> cdraw_net" where
  "set_by_other other n = (case other of None \<Rightarrow> n | Some isWork \<Rightarrow> setIsWork isWork n)"

primrec is_work_flags :: "bool \<Rightarrow> bool option list \<Rightarrow> bool list" where
  "is_work_flags b [] = []"
| "is_work_flags b (x # xs) = (let b' = (case x of None \<Rightarrow> b | Some c \<Rightarrow> c) in b' # is_work_flags b' xs)"

record 'a sender =
  snd_net :: cdraw_net
  snd_queue :: "'a cqueue"
  snd_count :: u8
  snd_sent :: "(sockaddr \<times> 'a) list"

definition send_iter :: "u32 \<Rightarrow> bool option \<Rightarrow> 'a sender \<Rightarrow> 'a sender option" where
  "send_iter package_size other s = do {
     (send_data, q) \<leftarrow> dequeueBlock (snd_queue s);
     let n = set_by_other other (snd_net s);
         s1 = s\<lparr>snd_net := n, snd_queue := q, snd_count := snd_count s + 1\<rparr>
     in if \<not> n_is_work n then Some s1
        else if ucast (snd_count s1) \<ge> package_size
        then Some (s1\<lparr>snd_sent := snd_sent s1 @ [(n_remote_addr n, send_data)], snd_count := 0\<rparr>)
        else Some s1
   }"

definition sendDatesByUdpFromQueue ::
  "u32 \<Rightarrow> bool \<Rightarrow> bool option list \<Rightarrow> cdraw_net \<Rightarrow> 'a cqueue \<Rightarrow> 'a sender option" where
  "sendDatesByUdpFromQueue package_size isWork others n q =
     foldM (send_iter package_size) others
       \<lparr>snd_net = setIsWork isWork n, snd_queue = q, snd_count = 0, snd_sent = []\<rparr>"

text \<open>
  One \<^verbatim>\<open>recvfrom\<close> of \<open>rev_size\<close> bytes into the variable \<^verbatim>\<open>rev_data\<close>, given by its bytes: the datagram
  overwrites the beginning of the variable, what exceeds \<open>rev_size\<close> is cut off, and what exceeds the
  variable is written beyond it (\<open>None\<close>). A failing call (no datagram) leaves the variable as it is.
  The address of the sender is not kept: the call gives a size where \<^verbatim>\<open>recvfrom\<close> wants a pointer
  to one, so it tells the kernel nowhere to count what it may write.
\<close>

definition receive_into :: "u32 \<Rightarrow> u8 list option \<Rightarrow> u8 list \<Rightarrow> u8 list option" where
  "receive_into rev_size datagram rev_data =
     (case datagram of
        None \<Rightarrow> Some rev_data
      | Some d \<Rightarrow> let bs = take (unat rev_size) d
                  in if length bs \<le> length rev_data then Some (bs @ drop (length bs) rev_data) else None)"

text \<open>
  An iteration of the receiver: nothing while not at work, else the variable is enqueued after the
  call, whose result is not looked at. \<open>of_bytes\<close> is the value of type \<^verbatim>\<open>T\<close> that the bytes represent.
\<close>

definition rev_iter :: "(u8 list \<Rightarrow> 'a) \<Rightarrow> u32 \<Rightarrow> bool option \<times> u8 list option \<Rightarrow>
    cdraw_net \<times> u8 list \<times> 'a cqueue \<Rightarrow> (cdraw_net \<times> u8 list \<times> 'a cqueue) option" where
  "rev_iter of_bytes rev_size = (\<lambda>(other, datagram) (n, rev_data, q).
     let n = set_by_other other n
     in if \<not> n_is_work n then Some (n, rev_data, q)
        else do {
          rev_data \<leftarrow> receive_into rev_size datagram rev_data;
          (_, q) \<leftarrow> enqueue (of_bytes rev_data) q;
          Some (n, rev_data, q)
        })"

text \<open>\<open>mem\<close>, of the size of \<^verbatim>\<open>T\<close>, is what the uninitialised variable holds at first.\<close>

definition revDatesByUdpToQueue :: "(u8 list \<Rightarrow> 'a) \<Rightarrow> u8 list \<Rightarrow> u32 \<Rightarrow> bool \<Rightarrow>
    (bool option \<times> u8 list option) list \<Rightarrow> cdraw_net \<Rightarrow> 'a cqueue \<Rightarrow> (cdraw_net \<times> u8 list \<times> 'a cqueue) option" where
  "revDatesByUdpToQueue of_bytes mem rev_size isWork work n q =
     foldM (rev_iter of_bytes rev_size) work (setIsWork isWork n, mem, q)"

lemma set_by_other_flag [simp]:
  "n_is_work (set_by_other other n) = (case other of None \<Rightarrow> n_is_work n | Some b \<Rightarrow> b)"
  "n_remote_addr (set_by_other other n) = n_remote_addr n"
  by (simp_all add: set_by_other_def setIsWork_def split: option.split)

section \<open>What the sender picks\<close>

primrec pick :: "u32 \<Rightarrow> u8 \<Rightarrow> (bool \<times> 'a) list \<Rightarrow> u8 \<times> 'a list" where
  "pick p c [] = (c, [])"
| "pick p c (w # ws) =
     (if fst w \<and> ucast (c + 1) \<ge> p then (let (c', ys) = pick p 0 ws in (c', snd w # ys)) else pick p (c + 1) ws)"

text \<open>A run of the sender that finds an element for each of its iterations.\<close>

lemma send_iters_pick:
  "wf_queue (snd_queue s) \<Longrightarrow> contents (snd_queue s) = xs @ ys \<Longrightarrow> length others = length xs \<Longrightarrow>
   \<exists>s'. foldM (send_iter p) others s = Some s'
     \<and> snd_sent s' = snd_sent s @ map (Pair (n_remote_addr (snd_net s)))
         (snd (pick p (snd_count s) (zip (is_work_flags (n_is_work (snd_net s)) others) xs)))
     \<and> wf_queue (snd_queue s') \<and> contents (snd_queue s') = ys"
proof (induction xs arbitrary: s others)
  case Nil
  then show ?case by (intro exI [of _ s]) simp
next
  case (Cons x xs)
  obtain other others' where oth: "others = other # others'" "length others' = length xs"
    using Cons.prems(3) by (cases others) auto
  obtain q where q: "dequeueBlock (snd_queue s) = Some (x, q)" "wf_queue q" "contents q = xs @ ys"
    using dequeueBlock_some [of "snd_queue s"] Cons.prems by auto
  let ?n = "set_by_other other (snd_net s)"
  let ?s = "s\<lparr>snd_net := ?n, snd_queue := q, snd_count := snd_count s + 1\<rparr>"
  show ?case
  proof (cases "n_is_work ?n \<and> ucast (snd_count s + 1) \<ge> p")
    case True
    with q oth Cons.IH [of "?s\<lparr>snd_sent := snd_sent s @ [(n_remote_addr ?n, x)], snd_count := 0\<rparr>" others'] show ?thesis
      by (auto simp: send_iter_def Let_def split: prod.split)
  next
    case False
    then have "send_iter p other s = Some ?s" using q by (auto simp: send_iter_def Let_def)
    with False q oth Cons.IH [of ?s others'] show ?thesis by (auto simp: Let_def)
  qed
qed

lemma zip_always: "length others = length xs \<Longrightarrow> set others \<subseteq> {None} \<Longrightarrow> zip (is_work_flags b others) xs = map (Pair b) xs"
  by (induction others xs rule: list_induct2) auto

lemma pick_off: "snd (pick p c (map (Pair False) xs)) = []"
  by (induction xs arbitrary: c) simp_all

lemma pick_none: "255 < unat p \<Longrightarrow> snd (pick p c ws) = []"
proof (induction ws arbitrary: c)
  case (Cons w ws)
  have "unat (ucast (c + 1) :: u32) \<le> 255"
    using unsigned_less [of "c + 1", where ?'a = nat] by (simp add: unsigned_ucast_eq take_bit_nat_eq_self)
  with Cons show ?case by (simp add: word_le_nat_alt)
qed simp

text \<open>The period of the sender: a package size of zero sends everything, like one.\<close>

definition period :: "u32 \<Rightarrow> nat" where
  "period p = max 1 (unat p)"

lemma pick_every:
  "unat p \<le> 255 \<Longrightarrow> unat c < period p \<Longrightarrow>
   snd (pick p c (map (Pair True) xs)) = nths xs {i. (unat c + Suc i) mod period p = 0}"
proof (induction xs arbitrary: c)
  case (Cons x xs)
  have p: "1 \<le> period p" "period p \<le> 255" using Cons.prems by (auto simp: period_def)
  have succ: "unat (c + 1) = unat c + 1"
    using Cons.prems p by (simp add: unat_word_ariths)
  then have up: "unat (ucast (c + 1) :: u32) = unat c + 1"
    using Cons.prems p by (simp add: unsigned_ucast_eq take_bit_nat_eq_self)
  have shift: "{j. Suc j \<in> {i. (unat c + Suc i) mod period p = 0}} = {i. (unat c + 1 + Suc i) mod period p = 0}"
    by simp
  show ?case
  proof (cases "unat c + 1 = period p")
    case True
    then have "ucast (c + 1) \<ge> p" using up by (simp add: word_le_nat_alt period_def)
    moreover have "(unat c + 1 + Suc i) mod period p = Suc i mod period p" for i
      unfolding True by (rule mod_add_self1)
    then have again: "{i. (unat c + 1 + Suc i) mod period p = 0} = {i. Suc i mod period p = 0}"
      by simp
    ultimately show ?thesis
      using Cons.IH [of 0] Cons.prems(1) p True unfolding nths_Cons shift again
      by (cases "pick p 0 (map (Pair True) xs)") simp
  next
    case False
    then have lt: "unat c + 1 < period p" using Cons.prems by simp
    then have "\<not> ucast (c + 1) \<ge> p" using up by (auto simp: word_le_nat_alt period_def)
    then show ?thesis
      using Cons.IH [of "c + 1"] Cons.prems(1) lt succ unfolding nths_Cons shift by simp
  qed
qed simp

lemma pick_working:
  "\<exists>I. snd (pick p c ws) = nths (map snd ws) I \<and> I \<subseteq> {i. i < length ws \<and> fst (ws ! i)}"
proof (induction ws arbitrary: c)
  case (Cons w ws)
  let ?sent = "fst w \<and> ucast (c + 1) \<ge> p"
  obtain I where I: "snd (pick p (if ?sent then 0 else c + 1) ws) = nths (map snd ws) I"
    "I \<subseteq> {i. i < length ws \<and> fst (ws ! i)}" using Cons.IH by blast
  let ?I = "Suc ` I \<union> (if ?sent then {0} else {})"
  have "{j. Suc j \<in> ?I} = I" by auto
  then have "snd (pick p c (w # ws)) = nths (map snd (w # ws)) ?I"
    using I(1) by (auto simp: nths_Cons split: prod.split)
  moreover have "?I \<subseteq> {i. i < length (w # ws) \<and> fst ((w # ws) ! i)}" using I(2) by auto
  ultimately show ?case by blast
qed (simp add: exI [of _ "{}"])

lemma length_is_work_flags [simp]: "length (is_work_flags b others) = length others"
  by (induction others arbitrary: b) (simp_all add: Let_def)

text \<open>A run over a queue of as many elements as iterations.\<close>

lemma sender_run:
  assumes "wf_queue q" and "length others = length (contents q)"
  shows "\<exists>s. sendDatesByUdpFromQueue p isWork others n q = Some s \<and> wf_queue (snd_queue s) \<and> contents (snd_queue s) = []
    \<and> snd_sent s = map (Pair (n_remote_addr n)) (snd (pick p 0 (zip (is_work_flags isWork others) (contents q))))"
  using send_iters_pick [of "\<lparr>snd_net = setIsWork isWork n, snd_queue = q, snd_count = 0, snd_sent = []\<rparr>"
      "contents q" "[]" others p] assms
  by (auto simp: sendDatesByUdpFromQueue_def setIsWork_def)

lemma pick_alone:
  assumes "length others = length xs" and "set others \<subseteq> {None}"
  shows "snd (pick p 0 (zip (is_work_flags isWork others) xs)) =
    (if \<not> isWork \<or> 255 < unat p then [] else nths xs {i. Suc i mod max 1 (unat p) = 0})"
  unfolding zip_always [OF assms]
  using pick_none [of p 0 "map (Pair isWork) xs"] pick_off [of p 0 xs] pick_every [of p 0 xs]
  by (cases isWork) (simp_all add: period_def)

section \<open>What the receiver's variable holds\<close>

text \<open>
  After the calls \<open>seen\<close>, each byte of the variable is that of the last datagram that reached it, or
  what was there before.
\<close>

definition last_bytes :: "u32 \<Rightarrow> u8 list \<Rightarrow> u8 list option list \<Rightarrow> u8 list" where
  "last_bytes rev_size mem seen = map (\<lambda>i.
     case find (\<lambda>d. i < min (length d) (unat rev_size)) (rev (List.map_filter (\<lambda>x. x) seen)) of
       Some d \<Rightarrow> d ! i | None \<Rightarrow> mem ! i) [0..<length mem]"

lemma length_last_bytes [simp]: "length (last_bytes rev_size mem seen) = length mem"
  by (simp add: last_bytes_def)

lemma last_bytes_Nil [simp]: "last_bytes rev_size mem [] = mem"
  by (simp add: last_bytes_def List.map_filter_def map_nth)

lemma receive_last_None: "receive_into rev_size None (last_bytes rev_size mem seen) = Some (last_bytes rev_size mem (seen @ [None]))"
  by (simp add: receive_into_def last_bytes_def List.map_filter_def)

lemma receive_last_Some:
  "receive_into rev_size (Some d) (last_bytes rev_size mem seen) =
    (if min (length d) (unat rev_size) \<le> length mem then Some (last_bytes rev_size mem (seen @ [Some d])) else None)"
proof -
  let ?k = "min (length d) (unat rev_size)"
  have "take (unat rev_size) d @ drop ?k (last_bytes rev_size mem seen) = last_bytes rev_size mem (seen @ [Some d])"
    if "?k \<le> length mem"
    using that by (intro nth_equalityI) (auto simp: nth_append last_bytes_def List.map_filter_def min_def)
  then show ?thesis by (simp add: receive_into_def Let_def)
qed

definition prefix_map :: "('b list \<Rightarrow> 'c) \<Rightarrow> 'b list \<Rightarrow> 'b list \<Rightarrow> 'c list" where
  "prefix_map f seen xs = map (\<lambda>k. f (seen @ take (Suc k) xs)) [0..<length xs]"

lemma prefix_map_simps [simp]:
  "prefix_map f seen [] = []"
  "prefix_map f seen (x # xs) = f (seen @ [x]) # prefix_map f (seen @ [x]) xs"
  by (simp_all add: prefix_map_def map_upt_Suc del: upt_Suc)

lemma receiver_loop:
  fixes q :: "'a::zero cqueue" and mem :: "u8 list" and rev_size :: u32 and of_bytes :: "u8 list \<Rightarrow> 'a"
  defines "data \<equiv> \<lambda>b work. map snd (filter fst (zip (is_work_flags b (map fst work)) (map snd work)))"
    and "long \<equiv> \<lambda>dg. case dg of None \<Rightarrow> False | Some d \<Rightarrow> length mem < min (length d) (unat rev_size)"
    and "f \<equiv> \<lambda>seen. of_bytes (last_bytes rev_size mem seen)"
  shows "map_option (snd \<circ> snd) (foldM (rev_iter of_bytes rev_size) work (n, last_bytes rev_size mem seen, q)) =
    (if \<exists>dg \<in> set (data (n_is_work n) work). long dg then None
     else enq_all enqueue (prefix_map f seen (data (n_is_work n) work)) q)"
proof (induction work arbitrary: n seen q)
  case (Cons w ws)
  obtain other dg where w: "w = (other, dg)" by fastforce
  let ?n = "set_by_other other n"
  let ?v = "last_bytes rev_size mem (seen @ [dg])"
  let ?step = "rev_iter of_bytes rev_size w (n, last_bytes rev_size mem seen, q)"
  show ?case
  proof (cases "n_is_work ?n")
    case False
    then have data: "data (n_is_work n) (w # ws) = data (n_is_work ?n) ws" by (simp add: data_def w Let_def)
    have "?step = Some (?n, last_bytes rev_size mem seen, q)"
      using False by (simp add: rev_iter_def w Let_def)
    then show ?thesis unfolding data foldM.simps by (simp only: bind.bind_lunit Cons.IH)
  next
    case True
    then have data: "data (n_is_work n) (w # ws) = dg # data (n_is_work ?n) ws" by (simp add: data_def w Let_def)
    show ?thesis
    proof (cases "long dg")
      case long: True
      then have "receive_into rev_size dg (last_bytes rev_size mem seen) = None"
        by (cases dg) (simp_all add: long_def receive_last_Some not_le)
      then have "?step = None"
        using True by (simp add: rev_iter_def w Let_def)
      with long show ?thesis by (simp add: data)
    next
      case False
      then have "receive_into rev_size dg (last_bytes rev_size mem seen) = Some ?v"
        by (cases dg) (auto simp: long_def receive_last_None receive_last_Some min_def not_less split: if_splits)
      then have "?step = map_option (\<lambda>(_, q'). (?n, ?v, q')) (enqueue (f (seen @ [dg])) q)"
        using True by (cases "enqueue (of_bytes ?v) q") (auto simp: rev_iter_def w Let_def f_def)
      then show ?thesis using False
        by (cases "enqueue (f (seen @ [dg])) q") (auto simp only: data foldM.simps option.map bind.bind_lunit
          bind.bind_lzero prod.case enq_all.simps prefix_map_simps list.set Set.bex_simps Cons.IH if_cancel HOL.simp_thms split: prod.split)
    qed
  qed
qed (simp add: data_def)

section \<open>Properties\<close>

text \<open>
  C19: What the send worker sends. In as many iterations as the queue holds elements \<open>xs\<close>, the worker
  takes them all, and sends some of those it takes while it is at work, in their order, to the remote
  address. When no other thread intervenes and it is at work, it sends every \<open>n\<close>-th of them (every one
  for a package size \<open>n\<close> of 0 or 1) and drops the others, for a package size of at most 255; with a
  larger size its 8-bit counter never reaches it and nothing is ever sent, as when it is not at work.
  The next iteration blocks for ever.
\<close>

theorem send_worker_every_nth:
  fixes n :: cdraw_net
  assumes "wf_queue q" and "length others = length (contents q)"
  defines "xs \<equiv> contents q" and "addr \<equiv> n_remote_addr n"
  shows "(\<exists>s. sendDatesByUdpFromQueue package_size isWork others n q = Some s \<and> contents (snd_queue s) = []
      \<and> (\<exists>I \<subseteq> {i. i < length xs \<and> is_work_flags isWork others ! i}. snd_sent s = map (Pair addr) (nths xs I))
      \<and> (set others \<subseteq> {None} \<longrightarrow> snd_sent s = map (Pair addr) (if \<not> isWork \<or> 255 < unat package_size then []
           else nths xs {i. Suc i mod max 1 (unat package_size) = 0})))
    \<and> sendDatesByUdpFromQueue package_size isWork (others @ [other]) n q = None"
proof -
  let ?ws = "zip (is_work_flags isWork others) xs"
  obtain s where run: "sendDatesByUdpFromQueue package_size isWork others n q = Some s"
    and s: "wf_queue (snd_queue s)" "contents (snd_queue s) = []"
    and sent: "snd_sent s = map (Pair addr) (snd (pick package_size 0 ?ws))"
    using sender_run [OF assms(1,2), of package_size isWork n] by (auto simp: xs_def addr_def)
  have "send_iter package_size other s = None"
    using dequeueBlock_empty [OF s] by (simp add: send_iter_def)
  then have stuck: "sendDatesByUdpFromQueue package_size isWork (others @ [other]) n q = None"
    using run by (simp add: sendDatesByUdpFromQueue_def foldM_append)
  have len: "length ?ws = length xs" "map snd ?ws = xs" using assms(2) by (simp_all add: xs_def)
  then have "{i. i < length ?ws \<and> fst (?ws ! i)} = {i. i < length xs \<and> is_work_flags isWork others ! i}"
    by auto
  with pick_working [of package_size 0 ?ws] len(2) obtain I where
    "snd (pick package_size 0 ?ws) = nths xs I" "I \<subseteq> {i. i < length xs \<and> is_work_flags isWork others ! i}"
    by auto
  with run s(2) sent stuck pick_alone [of others xs package_size isWork] assms(2) show ?thesis
    by (intro conjI exI [of _ s] exI [of _ I]) (simp_all add: xs_def)
qed

text \<open>
  A send worker that is not at work does not keep the data: each of its iterations takes an
  element out of the queue and sends nothing.
\<close>

theorem idle_sender_drops:
  assumes "wf_queue q" and "k \<le> length (contents q)"
  shows "\<exists>s. sendDatesByUdpFromQueue package_size False (replicate k None) n q = Some s
    \<and> snd_sent s = [] \<and> contents (snd_queue s) = drop k (contents q)"
proof -
  let ?s = "\<lparr>snd_net = setIsWork False n, snd_queue = q, snd_count = 0, snd_sent = []\<rparr>"
  have off: "n_is_work (setIsWork False n) = False" by (simp add: setIsWork_def)
  have len: "length (replicate k None) = length (take k (contents q))"
    using assms(2) by (simp del: length_contents)
  have whole: "contents (snd_queue ?s) = take k (contents q) @ drop k (contents q)" by simp
  have "zip (is_work_flags False (replicate k None)) (take k (contents q)) = map (Pair False) (take k (contents q))"
    using len by (intro zip_always) auto
  with send_iters_pick [of ?s, OF _ whole len, of package_size] assms(1) off
    pick_off [of package_size 0 "take k (contents q)"]
  show ?thesis by (auto simp: sendDatesByUdpFromQueue_def)
qed

text \<open>
  C20: What the receive worker puts into its queue. Of the calls of \<^verbatim>\<open>recvfrom\<close> while it is at work,
  whenever other threads switch it on and off, the run is undefined exactly when one stores more
  bytes than the variable has: when both the datagram and \<open>rev_size\<close>, by default 1500, are larger than
  an element. Otherwise every call enqueues one element, a failing one and a short datagram too: each
  of its bytes is that of the last datagram so far that reached it, or what the uninitialised variable
  held. The elements that find room are in the queue behind what was there, in order, and the others
  are lost; the worker itself never blocks on the queue.
\<close>

theorem receive_worker_queue:
  fixes q :: "'a::zero cqueue" and work :: "(bool option \<times> u8 list option) list" and isWork :: bool
    and rev_size :: u32 and mem :: "u8 list"
  assumes "wf_queue q"
  defines "seen \<equiv> map snd (filter fst (zip (is_work_flags isWork (map fst work)) (map snd work)))"
  defines "element \<equiv> \<lambda>k. map (\<lambda>i.
      case find (\<lambda>d. i < min (length d) (unat rev_size)) (rev (List.map_filter (\<lambda>x. x) (take (Suc k) seen))) of
        Some d \<Rightarrow> d ! i | None \<Rightarrow> mem ! i) [0..<length mem]"
  shows "case revDatesByUdpToQueue of_bytes mem rev_size isWork work n q of
      None \<Rightarrow> \<exists>d. Some d \<in> set seen \<and> length mem < length d \<and> length mem < unat rev_size
    | Some (n', rev_data, q') \<Rightarrow> \<not> (\<exists>d. Some d \<in> set seen \<and> length mem < length d \<and> length mem < unat rev_size)
        \<and> wf_queue q'
        \<and> contents q' = take (qcap q) (contents q @ map (\<lambda>k. of_bytes (element k)) [0..<length seen])"
proof -
  let ?elements = "map (\<lambda>k. of_bytes (element k)) [0..<length seen]"
  let ?long = "\<lambda>dg. case dg of None \<Rightarrow> False | Some d \<Rightarrow> length mem < min (length d) (unat rev_size)"
  have elements: "prefix_map (\<lambda>seen. of_bytes (last_bytes rev_size mem seen)) [] seen = ?elements"
    by (simp add: prefix_map_def element_def last_bytes_def)
  have long: "(\<exists>dg \<in> set seen. ?long dg) \<longleftrightarrow>
      (\<exists>d. Some d \<in> set seen \<and> length mem < length d \<and> length mem < unat rev_size)"
    by (auto split: option.splits)
  have flag: "n_is_work (setIsWork isWork n) = isWork" by (simp add: setIsWork_def)
  have "map_option (snd \<circ> snd) (revDatesByUdpToQueue of_bytes mem rev_size isWork work n q) =
      (if \<exists>dg \<in> set seen. ?long dg then None
       else enq_all enqueue (prefix_map (\<lambda>seen. of_bytes (last_bytes rev_size mem seen)) [] seen) q)"
    using receiver_loop [of of_bytes rev_size work "setIsWork isWork n" mem "[]" q]
    unfolding seen_def last_bytes_Nil revDatesByUdpToQueue_def flag .
  moreover obtain q2 where "enq_all enqueue ?elements q = Some q2" "wf_queue q2" "contents q2 = take (qcap q) (contents q @ ?elements)"
    using cq.enq_all_contents [OF assms(1), of ?elements] by auto
  ultimately show ?thesis
    unfolding elements long by (auto split: option.splits if_splits simp: seen_def)
qed

text \<open>
  What the constructor with a remote address sets up. It is defined exactly when both addresses
  have less than 32 characters or the socket could not be bound; the object then has the given
  settings, its ports in network byte order and cut to 16 bits, and, if the socket is bound, the
  parameter record that a parameter file would restore.
\<close>

theorem net_constructor:
  "case net_new2 inet_addr sock bind_ok mem ident localIp remoteIp localPort remotePort isWork use_json of
     None \<Rightarrow> bind_ok \<and> (32 \<le> length localIp \<or> 32 \<le> length remoteIp)
   | Some n \<Rightarrow> (bind_ok \<longrightarrow> length localIp < 32 \<and> length remoteIp < 32)
       \<and> n_is_work n = isWork \<and> n_fd n = sock
       \<and> (ucast (sin_port (n_local_addr n)) :: u8) = ucast (drop_bit 8 localPort)
       \<and> (ucast (drop_bit 8 (sin_port (n_local_addr n))) :: u8) = ucast localPort
       \<and> (bind_ok \<and> use_json \<longrightarrow> net_init_by_json (Some (n_json n)) n = (0, n, None))"
proof -
  have "(ucast (htons (ucast p)) :: u8) = ucast (drop_bit 8 p)"
    "(ucast (drop_bit 8 (htons (ucast p))) :: u8) = ucast p" for p :: u32
    by (rule bit_word_eqI, auto simp: htons_def bit_simps dest: bit_imp_le_length)+
  then show ?thesis
    by (auto simp: net_new2_def strcpy_def Let_def net_init_by_json_def)
qed

section \<open>Witnesses\<close>

definition blank_net :: cdraw_net where
  "blank_net = \<lparr>n_is_work = False, n_use_json = False, n_id = 0, n_local_ip = [], n_remote_ip = [], n_fd = 0,
     n_local_port = 0, n_remote_port = 0, n_local_addr = \<lparr>s_addr = 0, sin_port = 0\<rparr>,
     n_remote_addr = \<lparr>s_addr = 0, sin_port = 0\<rparr>,
     n_json = \<lparr>out_ip = [], local_ip = [], out_port = 0, local_port = 0\<rparr>\<rparr>"

definition q_seven :: "int cqueue" where
  "q_seven = \<lparr>q_data = [1, 2, 3, 4, 5, 6, 7], q_head = 0, q_tail = 0, q_capacity = 7, q_count = 7, q_id = 0\<rparr>"

lemma q_seven_ok: "wf_queue q_seven" "contents q_seven = [1, 2, 3, 4, 5, 6, 7]"
  by (simp_all add: q_seven_def wf_queue_def contents_def slot_def upt_rec)

theorem send_worker_every_nth_witness:
  "(\<exists>s. sendDatesByUdpFromQueue 3 True (replicate 7 None) blank_net q_seven = Some s
      \<and> map snd (snd_sent s) = [3, 6])
   \<and> (\<exists>s. sendDatesByUdpFromQueue 256 True (replicate 7 None) blank_net q_seven = Some s \<and> snd_sent s = [])"
proof -
  have "nths [1, 2, 3, 4, 5, 6, 7 :: int] {i. Suc i mod 3 = 0} = [3, 6]"
    by (simp add: nths_Cons)
  moreover have "length (replicate 7 (None :: bool option)) = length (contents q_seven)"
    unfolding q_seven_ok(2) by simp
  ultimately have
    "\<exists>s. sendDatesByUdpFromQueue 3 True (replicate 7 None) blank_net q_seven = Some s
       \<and> snd_sent s = map (Pair (n_remote_addr blank_net)) [3, 6]"
    "\<exists>s. sendDatesByUdpFromQueue 256 True (replicate 7 None) blank_net q_seven = Some s \<and> snd_sent s = []"
    using send_worker_every_nth [OF q_seven_ok(1), of "replicate 7 None" 3 True blank_net None]
      send_worker_every_nth [OF q_seven_ok(1), of "replicate 7 None" 256 True blank_net None]
    unfolding q_seven_ok(2) by auto
  then show ?thesis by fastforce
qed

theorem idle_sender_drops_witness:
  "\<exists>s. sendDatesByUdpFromQueue 1 False [None, None] blank_net q_seven = Some s \<and> snd_sent s = []
    \<and> contents (snd_queue s) = [3, 4, 5, 6, 7]"
  using idle_sender_drops [OF q_seven_ok(1), of 2 1] unfolding q_seven_ok(2)
  by (simp add: eval_nat_numeral)

text \<open>
  Elements of two bytes: a datagram of both, a failing call, a short datagram, one while not at work,
  and one that finds no room; then a datagram of three bytes.
\<close>

theorem receive_worker_queue_witness:
  "(\<exists>n' v q'. revDatesByUdpToQueue (\<lambda>bs. map uint bs ! 0 * 256 + map uint bs ! 1) [9, 9] 2 True
      [(None, Some [1, 2]), (Some False, Some [3, 4]), (Some True, Some [5])] blank_net q_wrapped
      = Some (n', v, q') \<and> contents q' = [7, 8, 258])
   \<and> revDatesByUdpToQueue (\<lambda>bs. map uint bs ! 0 * 256 + map uint bs ! 1) [9, 9] 1500 True
      [(None, Some [1, 2, 3])] blank_net q_wrapped = None"
proof -
  have cap: "qcap q_wrapped = 3" "contents q_wrapped = [7, 8]"
    using q_wrapped_ok(2) by (simp_all add: qcap_def q_wrapped_def)
  have "revDatesByUdpToQueue (\<lambda>bs. map uint bs ! 0 * 256 + map uint bs ! 1) [9, 9] 1500 True
      [(None, Some [1, 2, 3])] blank_net q_wrapped = None"
    using receive_worker_queue [OF q_wrapped_ok(1), where isWork = True and work = "[(None, Some [1, 2, 3])]"
        and rev_size = 1500 and mem = "[9, 9]" and of_bytes = "\<lambda>bs. map uint bs ! 0 * 256 + map uint bs ! 1" and n = blank_net]
    by (fastforce split: option.splits)
  moreover have "\<exists>n' v q'. revDatesByUdpToQueue (\<lambda>bs. map uint bs ! 0 * 256 + map uint bs ! 1) [9, 9] 2 True
      [(None, Some [1, 2]), (Some False, Some [3, 4]), (Some True, Some [5])] blank_net q_wrapped
      = Some (n', v, q') \<and> contents q' = [7, 8, 258]"
    using receive_worker_queue [OF q_wrapped_ok(1), where isWork = True
        and work = "[(None, Some [1, 2]), (Some False, Some [3, 4]), (Some True, Some [5])]"
        and rev_size = 2 and mem = "[9, 9]" and of_bytes = "\<lambda>bs. map uint bs ! 0 * 256 + map uint bs ! 1" and n = blank_net] cap
    by (auto split: option.splits simp: Let_def upt_rec List.map_filter_def)
  ultimately show ?thesis by blast
qed

theorem net_constructor_witness:
  "net_new2 (\<lambda>_. 0) 3 True blank_net 1 (replicate 32 (CHR ''1'')) ''10.0.0.2'' 8080 8081 True True = None
   \<and> (\<exists>n. net_new2 (\<lambda>_. 0) 3 True blank_net 1 ''10.0.0.1'' ''10.0.0.2'' 8080 8081 True True = Some n \<and> n_fd n = 3)"
  using net_constructor [where inet_addr = "\<lambda>_. 0" and sock = 3 and bind_ok = True and mem = blank_net and ident = 1
      and localIp = "replicate 32 (CHR ''1'')" and remoteIp = "''10.0.0.2''" and localPort = 8080 and remotePort = 8081
      and isWork = True and use_json = True]
    net_constructor [where inet_addr = "\<lambda>_. 0" and sock = 3 and bind_ok = True and mem = blank_net and ident = 1
      and localIp = "''10.0.0.1''" and remoteIp = "''10.0.0.2''" and localPort = 8080 and remotePort = 8081
      and isWork = True and use_json = True]
  by (auto split: option.splits simp: net_new2_def strcpy_def Let_def)

end
