(* ===== verification/UartDev.thy ===== *)
theory UartDev
  imports Prelude
begin

text \<open>
  The serial port \<^verbatim>\<open>CdrawUart\<close> of \<^verbatim>\<open>cdrawTools/uart\<close>: opening and the terminal settings it
  prepares, applying them, reading, writing, the parameter file and the destructor. The kernel is
  the parameter \<open>env\<close>: the results of the calls as functions of the calls made before, newest first,
  and of their arguments. The settings are the four flag words and the two control characters of
  \<^verbatim>\<open>struct termios\<close> that the code sets, and the two speeds.

  Shown: the settings an open prepares are those of a raw 8N1 line and touch no other flag, but they
  do not reach the port before \<^verbatim>\<open>updateUartAttr\<close>; a failing open can leave a descriptor behind; the
  destructor closes the descriptor twice; reading and writing refuse a port that is not open.
\<close>

section \<open>The kernel\<close>

record tty =
  c_iflag :: u32
  c_oflag :: u32
  c_cflag :: u32
  c_lflag :: u32
  vmin :: u8
  vtime :: u8
  ispeed :: u32
  ospeed :: u32

datatype uart_call = UOpen string "int option" | UGetAttr int bool | USetAttr int tty bool
  | URead int int | UWrite int "u8 list" | UClose int bool

type_synonym uart_hist = "uart_call list"

record uart_env =
  u_open :: "uart_hist \<Rightarrow> string \<Rightarrow> int option"
  u_getattr :: "uart_hist \<Rightarrow> int \<Rightarrow> tty option"
  u_setattr :: "uart_hist \<Rightarrow> int \<Rightarrow> tty \<Rightarrow> bool"
  u_read :: "uart_hist \<Rightarrow> int \<Rightarrow> int \<Rightarrow> int \<times> u8 list"
  u_write :: "uart_hist \<Rightarrow> int \<Rightarrow> u8 list \<Rightarrow> int"
  u_close :: "uart_hist \<Rightarrow> int \<Rightarrow> bool"
  u_cfsetospeed :: "u32 \<Rightarrow> tty \<Rightarrow> tty"
  u_cfsetispeed :: "u32 \<Rightarrow> tty \<Rightarrow> tty"

fun uart_opened :: "uart_call \<Rightarrow> int multiset" where
  "uart_opened (UOpen p (Some d)) = {#d#}"
| "uart_opened _ = {#}"

fun uart_closed :: "uart_call \<Rightarrow> int multiset" where
  "uart_closed (UClose d True) = {#d#}"
| "uart_closed _ = {#}"

interpretation uart_fds: accounting uart_opened uart_closed
proof
  show "uart_opened e = {#} \<or> uart_closed e = {#}" for e
    by (cases e rule: uart_opened.cases) simp_all
qed

abbreviation ports :: "uart_hist \<Rightarrow> int multiset" where
  "ports \<equiv> live uart_opened uart_closed"

section \<open>The class\<close>

record uart_json =
  uj_name :: string
  uj_timeout :: u16
  uj_read_size :: u32
  uj_in_speed :: u32
  uj_out_speed :: u32

record cdraw_uart =
  use_json :: bool
  uart_id :: u8
  uart_read_timeout :: u16
  uart_fd :: int
  uart_read_size :: int
  uart_in_speed :: u32
  uart_out_speed :: u32
  uart_name :: string
  uart_tty :: tty
  uart_json :: uart_json

text \<open>The flags of \<^verbatim>\<open>termios.h\<close> on Linux.\<close>

definition CSIZE :: u32 where "CSIZE = 0x30"
definition CS8 :: u32 where "CS8 = 0x30"
definition CSTOPB :: u32 where "CSTOPB = 0x40"
definition CREAD :: u32 where "CREAD = 0x80"
definition PARENB :: u32 where "PARENB = 0x100"
definition CLOCAL :: u32 where "CLOCAL = 0x800"
definition CRTSCTS :: u32 where "CRTSCTS = 0x80000000"
definition IGNBRK :: u32 where "IGNBRK = 1"
definition BRKINT :: u32 where "BRKINT = 2"
definition PARMRK :: u32 where "PARMRK = 8"
definition ISTRIP :: u32 where "ISTRIP = 0x20"
definition INLCR :: u32 where "INLCR = 0x40"
definition IGNCR :: u32 where "IGNCR = 0x80"
definition ICRNL :: u32 where "ICRNL = 0x100"
definition IXON :: u32 where "IXON = 0x400"
definition IXANY :: u32 where "IXANY = 0x800"
definition IXOFF :: u32 where "IXOFF = 0x1000"
definition ISIG :: u32 where "ISIG = 1"
definition ICANON :: u32 where "ICANON = 2"
definition ECHO :: u32 where "ECHO = 8"
definition ECHOE :: u32 where "ECHOE = 0x10"
definition ECHONL :: u32 where "ECHONL = 0x40"
definition B115200 :: u32 where "B115200 = 0x1002"

lemmas termios_flags = CSIZE_def CS8_def CSTOPB_def CREAD_def PARENB_def CLOCAL_def CRTSCTS_def
  IGNBRK_def BRKINT_def PARMRK_def ISTRIP_def INLCR_def IGNCR_def ICRNL_def IXON_def IXANY_def IXOFF_def
  ISIG_def ICANON_def ECHO_def ECHOE_def ECHONL_def

text \<open>The constructor; \<open>mem\<close> is an object of unspecified contents (the descriptor is not set).\<close>

definition uart_new :: "cdraw_uart \<Rightarrow> string \<Rightarrow> u8 \<Rightarrow> bool \<Rightarrow> cdraw_uart" where
  "uart_new mem name ident use_j = mem\<lparr>uart_name := name, uart_id := ident, use_json := use_j,
     uart_read_timeout := 0, uart_read_size := 0, uart_in_speed := B115200, uart_out_speed := B115200\<rparr>"

text \<open>The assignments of \<^verbatim>\<open>openUart\<close>, in order.\<close>

definition prepare_tty :: "tty \<Rightarrow> tty" where
  "prepare_tty t =
     (let t = t\<lparr>c_cflag := (c_cflag t AND NOT CSIZE) OR CS8\<rparr>;
          t = t\<lparr>c_iflag := c_iflag t AND NOT IGNBRK\<rparr>;
          t = t\<lparr>c_lflag := 0\<rparr>;
          t = t\<lparr>c_oflag := 0\<rparr>;
          t = t\<lparr>vmin := 1\<rparr>;
          t = t\<lparr>vtime := 5\<rparr>;
          t = t\<lparr>c_cflag := c_cflag t AND NOT PARENB\<rparr>;
          t = t\<lparr>c_cflag := c_cflag t AND NOT CSTOPB\<rparr>;
          t = t\<lparr>c_cflag := c_cflag t AND NOT CSIZE\<rparr>;
          t = t\<lparr>c_cflag := c_cflag t OR CS8\<rparr>;
          t = t\<lparr>c_cflag := c_cflag t AND NOT CRTSCTS\<rparr>;
          t = t\<lparr>c_cflag := c_cflag t OR (CREAD OR CLOCAL)\<rparr>;
          t = t\<lparr>c_lflag := c_lflag t AND NOT ICANON\<rparr>;
          t = t\<lparr>c_lflag := c_lflag t AND NOT ECHO\<rparr>;
          t = t\<lparr>c_lflag := c_lflag t AND NOT ECHOE\<rparr>;
          t = t\<lparr>c_lflag := c_lflag t AND NOT ECHONL\<rparr>;
          t = t\<lparr>c_lflag := c_lflag t AND NOT ISIG\<rparr>;
          t = t\<lparr>c_iflag := c_iflag t AND NOT (IXON OR IXOFF OR IXANY)\<rparr>
      in t\<lparr>c_iflag := c_iflag t AND NOT (IGNBRK OR BRKINT OR PARMRK OR ISTRIP OR INLCR OR IGNCR OR ICRNL)\<rparr>)"

definition openUart :: "uart_env \<Rightarrow> cdraw_uart \<times> uart_hist \<Rightarrow> int \<times> cdraw_uart \<times> uart_hist" where
  "openUart env = (\<lambda>(u, h).
     case u_open env h (uart_name u) of
       None \<Rightarrow> (- 1, u\<lparr>uart_fd := - 1\<rparr>, UOpen (uart_name u) None # h)
     | Some d \<Rightarrow>
         let h1 = UOpen (uart_name u) (Some d) # h; u1 = u\<lparr>uart_fd := d\<rparr>
         in case u_getattr env h1 d of
              None \<Rightarrow> (- 1, u1, UGetAttr d False # h1)
            | Some t \<Rightarrow> (0, u1\<lparr>uart_tty := prepare_tty t\<rparr>, UGetAttr d True # h1))"

definition updateUartAttr :: "uart_env \<Rightarrow> cdraw_uart \<times> uart_hist \<Rightarrow> int \<times> cdraw_uart \<times> uart_hist" where
  "updateUartAttr env = (\<lambda>(u, h).
     let t = u_cfsetispeed env (uart_in_speed u) (u_cfsetospeed env (uart_out_speed u) (uart_tty u));
         ok = u_setattr env h (uart_fd u) t
     in (if ok then 0 else - 1, u\<lparr>uart_tty := t\<rparr>, USetAttr (uart_fd u) t ok # h))"

definition uart_do_read :: "uart_env \<Rightarrow> int \<Rightarrow> cdraw_uart \<times> uart_hist \<Rightarrow> (int \<times> u8 list) \<times> uart_hist" where
  "uart_do_read env n = (\<lambda>(u, h).
     if uart_fd u < 0 then ((- 1, []), h) else (u_read env h (uart_fd u) n, URead (uart_fd u) n # h))"

definition uart_do_write :: "uart_env \<Rightarrow> u8 list \<Rightarrow> cdraw_uart \<times> uart_hist \<Rightarrow> int \<times> uart_hist" where
  "uart_do_write env buf = (\<lambda>(u, h).
     if uart_fd u < 0 then (- 1, h) else (u_write env h (uart_fd u) buf, UWrite (uart_fd u) buf # h))"

definition uart_destroy :: "uart_env \<Rightarrow> cdraw_uart \<times> uart_hist \<Rightarrow> uart_hist" where
  "uart_destroy env = (\<lambda>(u, h).
     let ok = u_close env h (uart_fd u); h1 = UClose (uart_fd u) ok # h
     in if \<not> ok then h1 else UClose (uart_fd u) (u_close env h1 (uart_fd u)) # h1)"

definition uart_init_by_json :: "uart_json option \<Rightarrow> cdraw_uart \<Rightarrow> u8 \<times> cdraw_uart \<times> uart_json option" where
  "uart_init_by_json file u =
     (if use_json u then
        (case file of
           None \<Rightarrow> (0, u, Some (uart_json u))
         | Some j \<Rightarrow> (0, u\<lparr>uart_json := j, uart_name := uj_name j, uart_read_timeout := uj_timeout j,
                         uart_read_size := sint (uj_read_size j), uart_in_speed := uj_in_speed j,
                         uart_out_speed := uj_out_speed j\<rparr>, None))
      else (- 1, u, None))"

text \<open>The accessors: a setter always reports success.\<close>

definition setUartReadTimeout :: "u16 \<Rightarrow> cdraw_uart \<Rightarrow> bool \<times> cdraw_uart" where
  "setUartReadTimeout timeout u = (True, u\<lparr>uart_read_timeout := timeout\<rparr>)"

definition getUartReadTimeout :: "cdraw_uart \<Rightarrow> u16" where
  "getUartReadTimeout u = uart_read_timeout u"

definition setUartReadSize :: "int \<Rightarrow> cdraw_uart \<Rightarrow> bool \<times> cdraw_uart" where
  "setUartReadSize n u = (True, u\<lparr>uart_read_size := n\<rparr>)"

definition getUartReadSize :: "cdraw_uart \<Rightarrow> int" where
  "getUartReadSize u = uart_read_size u"

definition setUartInSpeed :: "u32 \<Rightarrow> cdraw_uart \<Rightarrow> bool \<times> cdraw_uart" where
  "setUartInSpeed speed u = (True, u\<lparr>uart_in_speed := speed\<rparr>)"

definition getUartInSpeed :: "cdraw_uart \<Rightarrow> u32" where
  "getUartInSpeed u = uart_in_speed u"

definition setUartOutSpeed :: "u32 \<Rightarrow> cdraw_uart \<Rightarrow> bool \<times> cdraw_uart" where
  "setUartOutSpeed speed u = (True, u\<lparr>uart_out_speed := speed\<rparr>)"

definition getUartOutSpeed :: "cdraw_uart \<Rightarrow> u32" where
  "getUartOutSpeed u = uart_out_speed u"

definition getUartName :: "cdraw_uart \<Rightarrow> string" where
  "getUartName u = uart_name u"

definition getUartFd :: "cdraw_uart \<Rightarrow> int" where
  "getUartFd u = uart_fd u"

lemmas uart_accessors = setUartReadTimeout_def getUartReadTimeout_def setUartReadSize_def getUartReadSize_def
  setUartInSpeed_def getUartInSpeed_def setUartOutSpeed_def getUartOutSpeed_def getUartName_def getUartFd_def

text \<open>\<open>k\<close> calls of \<^verbatim>\<open>openUart\<close> on one object, in a row.\<close>

definition uart_opens :: "uart_env \<Rightarrow> nat \<Rightarrow> cdraw_uart \<times> uart_hist \<Rightarrow> cdraw_uart \<times> uart_hist" where
  "uart_opens env k = (\<lambda>s. snd (openUart env s)) ^^ k"

section \<open>The settings\<close>

lemma openUart_spec:
  "openUart env (u, h) =
     (case u_open env h (uart_name u) of
        None \<Rightarrow> (- 1, u\<lparr>uart_fd := - 1\<rparr>, UOpen (uart_name u) None # h)
      | Some d \<Rightarrow> (case u_getattr env (UOpen (uart_name u) (Some d) # h) d of
            None \<Rightarrow> (- 1, u\<lparr>uart_fd := d\<rparr>, UGetAttr d False # UOpen (uart_name u) (Some d) # h)
          | Some t \<Rightarrow> (0, u\<lparr>uart_fd := d, uart_tty := prepare_tty t\<rparr>,
                        UGetAttr d True # UOpen (uart_name u) (Some d) # h)))"
  by (simp add: openUart_def Let_def split: option.split)

text \<open>
  The time limit and the read size that are set never reach the port: opening and updating make the
  same calls with the same results, whatever they are.
\<close>

lemma uart_limits_unused:
  fixes t :: u16 and n :: int
  defines "v \<equiv> \<lambda>u. snd (setUartReadSize n (snd (setUartReadTimeout t u)))"
  shows "openUart env (v u, h) = (case openUart env (u, h) of (r, u', h') \<Rightarrow> (r, v u', h'))"
    and "updateUartAttr env (v u, h) = (case updateUartAttr env (u, h) of (r, u', h') \<Rightarrow> (r, v u', h'))"
  unfolding v_def uart_accessors
  by (auto simp: openUart_spec updateUartAttr_def Let_def split: option.split)

text \<open>The constants of the flag words, bit by bit.\<close>

lemma flag_bit:
  "bit CSIZE n \<longleftrightarrow> n = 4 \<or> n = 5" "bit CS8 n \<longleftrightarrow> n = 4 \<or> n = 5" "bit CSTOPB n \<longleftrightarrow> n = 6"
  "bit CREAD n \<longleftrightarrow> n = 7" "bit PARENB n \<longleftrightarrow> n = 8" "bit CLOCAL n \<longleftrightarrow> n = 11" "bit CRTSCTS n \<longleftrightarrow> n = 31"
  "bit IGNBRK n \<longleftrightarrow> n = 0" "bit BRKINT n \<longleftrightarrow> n = 1" "bit PARMRK n \<longleftrightarrow> n = 3" "bit ISTRIP n \<longleftrightarrow> n = 5"
  "bit INLCR n \<longleftrightarrow> n = 6" "bit IGNCR n \<longleftrightarrow> n = 7" "bit ICRNL n \<longleftrightarrow> n = 8" "bit IXON n \<longleftrightarrow> n = 10"
  "bit IXANY n \<longleftrightarrow> n = 11" "bit IXOFF n \<longleftrightarrow> n = 12"
proof -
  have one: "bit (push_bit k 1 :: u32) n \<longleftrightarrow> n = k \<and> n < 32" for k
    by (auto simp: bit_simps)
  have e: "CSIZE = push_bit 4 1 OR push_bit 5 1" "CS8 = push_bit 4 1 OR push_bit 5 1"
    "CSTOPB = push_bit 6 1" "CREAD = push_bit 7 1" "PARENB = push_bit 8 1" "CLOCAL = push_bit 11 1"
    "CRTSCTS = push_bit 31 1" "IGNBRK = push_bit 0 1" "BRKINT = push_bit 1 1" "PARMRK = push_bit 3 1"
    "ISTRIP = push_bit 5 1" "INLCR = push_bit 6 1" "IGNCR = push_bit 7 1" "ICRNL = push_bit 8 1"
    "IXON = push_bit 10 1" "IXANY = push_bit 11 1" "IXOFF = push_bit 12 1"
    by code_simp+
  show "bit CSIZE n \<longleftrightarrow> n = 4 \<or> n = 5" "bit CS8 n \<longleftrightarrow> n = 4 \<or> n = 5" "bit CSTOPB n \<longleftrightarrow> n = 6"
    "bit CREAD n \<longleftrightarrow> n = 7" "bit PARENB n \<longleftrightarrow> n = 8" "bit CLOCAL n \<longleftrightarrow> n = 11" "bit CRTSCTS n \<longleftrightarrow> n = 31"
    "bit IGNBRK n \<longleftrightarrow> n = 0" "bit BRKINT n \<longleftrightarrow> n = 1" "bit PARMRK n \<longleftrightarrow> n = 3" "bit ISTRIP n \<longleftrightarrow> n = 5"
    "bit INLCR n \<longleftrightarrow> n = 6" "bit IGNCR n \<longleftrightarrow> n = 7" "bit ICRNL n \<longleftrightarrow> n = 8" "bit IXON n \<longleftrightarrow> n = 10"
    "bit IXANY n \<longleftrightarrow> n = 11" "bit IXOFF n \<longleftrightarrow> n = 12"
    unfolding e bit_or_iff one by auto
qed

lemma prepare_tty_fields:
  "c_lflag (prepare_tty t) = 0" "c_oflag (prepare_tty t) = 0" "vmin (prepare_tty t) = 1" "vtime (prepare_tty t) = 5"
  "ispeed (prepare_tty t) = ispeed t" "ospeed (prepare_tty t) = ospeed t"
  by (simp_all add: prepare_tty_def Let_def)

lemma prepare_tty_cflag:
  "bit (c_cflag (prepare_tty t)) n \<longleftrightarrow> n \<in> {4, 5, 7, 11} \<or> n \<notin> {6, 8, 31} \<and> bit (c_cflag t) n"
  by (auto simp: prepare_tty_def Let_def bit_simps flag_bit dest: bit_imp_le_length)

lemma prepare_tty_iflag:
  "bit (c_iflag (prepare_tty t)) n \<longleftrightarrow> n \<notin> {0, 1, 3, 5, 6, 7, 8, 10, 11, 12} \<and> bit (c_iflag t) n"
  by (auto simp: prepare_tty_def Let_def bit_simps flag_bit dest: bit_imp_le_length)

text \<open>
  C21: The settings a successful open prepares are those of a raw line: eight data bits, no parity, one
  stop bit, no flow control, the receiver on and the modem lines ignored, no input or output
  processing; every other flag is the port's. They stay in the object: opening the port only opens it
  and reads its attributes, and it is \<^verbatim>\<open>updateUartAttr\<close> that sets them, with the two speeds, in one
  call on the opened descriptor. A read then waits for one character whatever the object's time limit
  and read size are.
\<close>

theorem open_prepares_raw_line:
  assumes "openUart env (u, h) = (0, u', h')"
  shows "(\<exists>d t. h' = UGetAttr d True # UOpen (uart_name u) (Some d) # h \<and> uart_fd u' = d
      \<and> u_getattr env (UOpen (uart_name u) (Some d) # h) d = Some t
      \<and> c_lflag (uart_tty u') = 0 \<and> c_oflag (uart_tty u') = 0
      \<and> vmin (uart_tty u') = 1 \<and> vtime (uart_tty u') = 5
      \<and> (\<forall>n. bit (c_cflag (uart_tty u')) n \<longleftrightarrow> n \<in> {4, 5, 7, 11} \<or> n \<notin> {6, 8, 31} \<and> bit (c_cflag t) n)
      \<and> (\<forall>n. bit (c_iflag (uart_tty u')) n \<longleftrightarrow> n \<notin> {0, 1, 3, 5, 6, 7, 8, 10, 11, 12} \<and> bit (c_iflag t) n))
    \<and> (\<exists>ok. snd (snd (updateUartAttr env (u', h')))
        = USetAttr (uart_fd u') (u_cfsetispeed env (uart_in_speed u) (u_cfsetospeed env (uart_out_speed u) (uart_tty u'))) ok # h'
        \<and> fst (updateUartAttr env (u', h')) = (if ok then 0 else - 1))"
proof -
  obtain d t where d: "u_getattr env (UOpen (uart_name u) (Some d) # h) d = Some t"
    and u': "u' = u\<lparr>uart_fd := d, uart_tty := prepare_tty t\<rparr>"
    and h': "h' = UGetAttr d True # UOpen (uart_name u) (Some d) # h"
    using assms by (auto simp: openUart_spec split: option.splits)
  show ?thesis
    by (rule conjI, rule exI [of _ d], rule exI [of _ t])
      (simp_all add: d u' h' prepare_tty_fields prepare_tty_cflag prepare_tty_iflag updateUartAttr_def Let_def)
qed

section \<open>The descriptor\<close>

lemma openUart_ports:
  assumes "u_open env h (uart_name u) = Some d"
  shows "ports (snd (snd (openUart env (u, h)))) = add_mset d (ports h)"
    and "uart_fd (fst (snd (openUart env (u, h)))) = d"
    and "uart_name (fst (snd (openUart env (u, h)))) = uart_name u"
  using assms by (simp_all add: openUart_spec split: option.splits)

lemma openUart_refused:
  assumes "u_open env h (uart_name u) = None"
  shows "openUart env (u, h) = (- 1, u\<lparr>uart_fd := - 1\<rparr>, UOpen (uart_name u) None # h)"
  using assms by (simp add: openUart_spec)

text \<open>Each open after the first forgets the descriptor of the one before.\<close>

lemma uart_opens_ports:
  assumes grants: "\<And>h. \<exists>d. u_open env h (uart_name u) = Some d \<and> d \<notin># ports h"
  shows "\<exists>v h' ds. uart_opens env k (u, h) = (v, h') \<and> ports h' = mset ds + ports h \<and> length ds = k
    \<and> distinct ds \<and> set ds \<inter> set_mset (ports h) = {} \<and> uart_name v = uart_name u \<and> (0 < k \<longrightarrow> uart_fd v = hd ds)"
proof (induction k)
  case (Suc k)
  then obtain v h' ds where ih: "uart_opens env k (u, h) = (v, h')" "ports h' = mset ds + ports h" "length ds = k"
    "distinct ds" "set ds \<inter> set_mset (ports h) = {}" "uart_name v = uart_name u" by blast
  from grants [of h'] ih(6) obtain d where d: "u_open env h' (uart_name v) = Some d" "d \<notin># ports h'" by auto
  note o = openUart_ports [OF d(1)]
  show ?case
    by (rule exI [of _ "fst (snd (openUart env (v, h')))"], rule exI [of _ "snd (snd (openUart env (v, h')))"],
        rule exI [of _ "d # ds"])
      (use ih d(2) o in \<open>auto simp: uart_opens_def\<close>)
qed (simp add: uart_opens_def)

text \<open>
  C18: The descriptors of one object. When the port can be opened each time, and the kernel hands out
  descriptors not in use and closes exactly those that are open, an object on which \<^verbatim>\<open>openUart\<close> was
  called \<open>k\<close> times, whatever those calls returned, and which is then destroyed, leaves \<open>k - 1\<close>
  descriptors open: the destructor closes the last one, and then closes it a second time, which fails.
\<close>

theorem uart_descriptor_life:
  assumes grants: "\<And>h. \<exists>d. u_open env h (uart_name u) = Some d \<and> d \<notin># ports h"
    and closes: "\<And>h d. u_close env h d \<longleftrightarrow> d \<in># ports h" and "0 < k"
  shows "\<exists>v h1 d lost. uart_opens env k (u, h) = (v, h1) \<and> uart_fd v = d
    \<and> uart_destroy env (v, h1) = UClose d False # UClose d True # h1
    \<and> ports (uart_destroy env (v, h1)) = lost + ports h
    \<and> size lost = k - 1 \<and> set_mset lost \<inter> set_mset (ports h) = {} \<and> d \<notin># ports (uart_destroy env (v, h1))"
proof -
  obtain v h1 ds where op: "uart_opens env k (u, h) = (v, h1)" "ports h1 = mset ds + ports h" "length ds = k"
    "distinct ds" "set ds \<inter> set_mset (ports h) = {}" "uart_fd v = hd ds"
    using uart_opens_ports [OF grants, of k h] \<open>0 < k\<close> by blast
  obtain d es where ds: "ds = d # es" using op(3) \<open>0 < k\<close> by (cases ds) auto
  have d: "uart_fd v = d" "d \<in># ports h1" "d \<notin># mset es + ports h" "ports h1 = add_mset d (mset es + ports h)"
    using op ds by auto
  have rest: "ports (UClose d True # h1) = mset es + ports h" using d(4) by simp
  have dest: "uart_destroy env (v, h1) = UClose d False # UClose d True # h1"
    using d(2,3) rest by (auto simp: uart_destroy_def Let_def d(1) closes simp del: live.simps)
  have "ports (uart_destroy env (v, h1)) = mset es + ports h" using d(4) by (simp add: dest)
  moreover have "set_mset (mset es) \<inter> set_mset (ports h) = {}" using op(5) ds by auto
  ultimately show ?thesis using op(1,3) d(1,3) dest ds by auto
qed

text \<open>
  Reading and writing follow the last open. When the port cannot be opened, reading and writing
  return -1 without a call to the kernel; when it is open, also when the open returned -1 because the
  attributes could not be read, each makes one call, on the descriptor and with the bytes given, and
  returns its result.
\<close>

theorem uart_io_follows_open:
  "case openUart env (u, h) of (r, v, h1) \<Rightarrow>
     (case u_open env h (uart_name u) of
        None \<Rightarrow> r = - 1 \<and> uart_do_read env n (v, h1) = ((- 1, []), h1) \<and> uart_do_write env bs (v, h1) = (- 1, h1)
      | Some d \<Rightarrow> 0 \<le> d \<longrightarrow>
          uart_do_read env n (v, h1) = (u_read env h1 d n, URead d n # h1)
          \<and> uart_do_write env bs (v, h1) = (u_write env h1 d bs, UWrite d bs # h1))"
  by (auto simp: openUart_spec uart_do_read_def uart_do_write_def split: option.splits)

section \<open>Witnesses\<close>

text \<open>A kernel that always opens a descriptor above all others and keeps the attributes of one port.\<close>

definition demo_uart :: uart_env where
  "demo_uart = \<lparr>u_open = \<lambda>h p. Some (1 + Max (insert 2 (set_mset (ports h)))),
     u_getattr = \<lambda>h d. Some \<lparr>c_iflag = 0x4500, c_oflag = 5, c_cflag = 0xcbd, c_lflag = 0x8a3b,
       vmin = 1, vtime = 0, ispeed = 0xd, ospeed = 0xd\<rparr>,
     u_setattr = \<lambda>h d t. True, u_read = \<lambda>h d n. (1, [65]), u_write = \<lambda>h d bs. int (length bs),
     u_close = \<lambda>h d. d \<in># ports h, u_cfsetospeed = \<lambda>b t. t\<lparr>ospeed := b\<rparr>, u_cfsetispeed = \<lambda>b t. t\<lparr>ispeed := b\<rparr>\<rparr>"

definition blank_uart :: cdraw_uart where
  "blank_uart = \<lparr>use_json = False, uart_id = 0, uart_read_timeout = 0, uart_fd = 0, uart_read_size = 0,
     uart_in_speed = 0, uart_out_speed = 0, uart_name = [],
     uart_tty = \<lparr>c_iflag = 0, c_oflag = 0, c_cflag = 0, c_lflag = 0, vmin = 0, vtime = 0, ispeed = 0, ospeed = 0\<rparr>,
     uart_json = \<lparr>uj_name = [], uj_timeout = 0, uj_read_size = 0, uj_in_speed = 0, uj_out_speed = 0\<rparr>\<rparr>"

definition ttyS0 :: cdraw_uart where
  "ttyS0 = uart_new blank_uart ''/dev/ttyS0'' 1 False"

lemma demo_uart_grants: "\<exists>d. u_open demo_uart h p = Some d \<and> d \<notin># ports h"
proof -
  let ?m = "Max (insert 2 (set_mset (ports h)))"
  have "d \<le> ?m" if "d \<in># ports h" for d using that by simp
  then have "1 + ?m \<notin># ports h" by fastforce
  then show ?thesis by (simp add: demo_uart_def)
qed

theorem open_prepares_raw_line_witness:
  "\<exists>u'. openUart demo_uart (ttyS0, []) = (0, u', [UGetAttr 3 True, UOpen ''/dev/ttyS0'' (Some 3)])
    \<and> c_lflag (uart_tty u') = 0 \<and> bit (c_cflag (uart_tty u')) 4 \<and> \<not> bit (c_cflag (uart_tty u')) 31"
proof -
  obtain u' h' where o: "openUart demo_uart (ttyS0, []) = (0, u', h')"
    "h' = [UGetAttr 3 True, UOpen ''/dev/ttyS0'' (Some 3)]"
    by (simp add: openUart_spec demo_uart_def ttyS0_def uart_new_def)
  from open_prepares_raw_line [OF o(1)] have "c_lflag (uart_tty u') = 0" "bit (c_cflag (uart_tty u')) 4"
    "\<not> bit (c_cflag (uart_tty u')) 31" by auto
  with o show ?thesis by blast
qed

theorem uart_descriptor_life_witness:
  "\<exists>lost. ports (uart_destroy demo_uart (uart_opens demo_uart 3 (ttyS0, []))) = lost \<and> size lost = 2"
proof -
  have c: "u_close demo_uart h d \<longleftrightarrow> d \<in># ports h" for h d by (simp add: demo_uart_def)
  show ?thesis
    using uart_descriptor_life [where env = demo_uart and u = ttyS0 and k = 3 and h = "[]",
      OF demo_uart_grants c] by auto
qed

theorem uart_io_follows_open_witness:
  "uart_do_read demo_uart 8 (snd (openUart demo_uart (ttyS0, []))) =
     ((1, [65]), [URead 3 8, UGetAttr 3 True, UOpen ''/dev/ttyS0'' (Some 3)])"
proof -
  obtain u' h' where o: "openUart demo_uart (ttyS0, []) = (0, u', h')"
    "h' = [UGetAttr 3 True, UOpen ''/dev/ttyS0'' (Some 3)]"
    by (simp add: openUart_spec demo_uart_def ttyS0_def uart_new_def)
  have "u_open demo_uart [] (uart_name ttyS0) = Some 3" by (simp add: demo_uart_def)
  then show ?thesis
    using uart_io_follows_open [where env = demo_uart and u = ttyS0 and h = "[]" and n = 8] o by (simp add: demo_uart_def)
qed

end
