(* ===== verification/JsonBind.thy ===== *)
theory JsonBind
  imports Prelude
begin

text \<open>
  Binding C structures to JSON: the macros and functions of
  \<^verbatim>\<open>3rdparty/cxz_json/include/sjb_struct_api.h\<close> that the program's parameter records use. A node is
  \<^verbatim>\<open>struct cJSON\<close> of \<^verbatim>\<open>cJSON.h\<close>, by its type, with the value or the children that the type has; a
  node pointer is an option. The library behind that header is a binary: its functions are the
  parameter \<open>lib\<close>. \<open>cjson_tree\<close> states what the comments of the header promise of building and reading
  trees, which is all that the binding needs, and \<open>cjson_text\<close> that a tree rendered "for
  transfer/storage" is the tree that is parsed from the text.

  A \<^verbatim>\<open>char\<close> array of \<open>n\<close> elements is the text in front of its first NUL, so a text of \<open>n\<close>
  characters is an array without a terminator. A bind function runs in both directions: for
  \<open>m = 0\<close> it fills in the node from the value, otherwise the value from the node; it returns both.
  \<open>None\<close> is undefined behaviour.

  Shown: the contract \<open>codec\<close> that every bound structure satisfies, here for the scalars, the
  texts and the arrays.
\<close>

named_theorems bind_simps \<open>evaluating the binding macros\<close>

section \<open>The nodes and the library\<close>

datatype json = JFalse | JTrue | JNull | JNumber int | JString string | JArray "json list"
  | JObject "(string \<times> json) list"

record cjson_lib =
  cJSON_GetObjectItem :: "json \<Rightarrow> string \<Rightarrow> json option"
  cJSON_AddItemToObject :: "json \<Rightarrow> string \<Rightarrow> json \<Rightarrow> json"
  cJSON_GetArraySize :: "json \<Rightarrow> nat"
  cJSON_GetArrayItem :: "json \<Rightarrow> nat \<Rightarrow> json option"
  cJSON_AddItemToArray :: "json \<Rightarrow> json \<Rightarrow> json"
  cJSON_Print :: "json \<Rightarrow> string"
  cJSON_Parse :: "string \<Rightarrow> json option"

fun is_object :: "json \<Rightarrow> bool" where
  "is_object (JObject _) = True"
| "is_object _ = False"

fun is_array :: "json \<Rightarrow> bool" where
  "is_array (JArray _) = True"
| "is_array _ = False"

text \<open>Names are compared without regard to case, as the header says.\<close>

definition lower :: "char \<Rightarrow> char" where
  "lower c = (let n = of_char c :: nat in if 65 \<le> n \<and> n \<le> 90 then char_of (n + 32) else c)"

definition same_name :: "string \<Rightarrow> string \<Rightarrow> bool" where
  "same_name a b \<longleftrightarrow> map lower a = map lower b"

abbreviation NUL :: char where
  "NUL \<equiv> CHR 0x00"

text \<open>Trees that are printed without loss: C strings and numbers of type \<^verbatim>\<open>int\<close>.\<close>

fun printable :: "json \<Rightarrow> bool" where
  "printable (JNumber n) \<longleftrightarrow> in_i32 n"
| "printable (JString s) \<longleftrightarrow> NUL \<notin> set s"
| "printable (JArray js) \<longleftrightarrow> (\<forall>j \<in> set js. printable j)"
| "printable (JObject kvs) \<longleftrightarrow> (\<forall>kv \<in> set kvs. NUL \<notin> set (fst kv) \<and> printable (snd kv))"
| "printable _ \<longleftrightarrow> True"

text \<open>
  What the header promises of trees: an item is appended, an item is found by its name, array items
  are counted and numbered from 0. Where two items have the same name, the first is the one found.
\<close>

definition cjson_tree :: "cjson_lib \<Rightarrow> bool" where
  "cjson_tree lib \<longleftrightarrow>
     (\<forall>k. cJSON_GetObjectItem lib (JObject []) k = None)
   \<and> (\<forall>j k v k'. is_object j \<longrightarrow> is_object (cJSON_AddItemToObject lib j k v)
        \<and> cJSON_GetObjectItem lib (cJSON_AddItemToObject lib j k v) k'
          = (case cJSON_GetObjectItem lib j k' of Some x \<Rightarrow> Some x
             | None \<Rightarrow> if same_name k k' then Some v else None))
   \<and> (\<forall>j k v. is_object j \<longrightarrow> printable j \<longrightarrow> NUL \<notin> set k \<longrightarrow> printable v
        \<longrightarrow> printable (cJSON_AddItemToObject lib j k v))
   \<and> cJSON_GetArraySize lib (JArray []) = 0
   \<and> (\<forall>a v i. is_array a \<longrightarrow> is_array (cJSON_AddItemToArray lib a v)
        \<and> cJSON_GetArraySize lib (cJSON_AddItemToArray lib a v) = Suc (cJSON_GetArraySize lib a)
        \<and> cJSON_GetArrayItem lib (cJSON_AddItemToArray lib a v) i
          = (if i = cJSON_GetArraySize lib a then Some v else cJSON_GetArrayItem lib a i)
        \<and> (printable a \<longrightarrow> printable v \<longrightarrow> printable (cJSON_AddItemToArray lib a v)))"

text \<open>
  And of text: the rendering of a tree is a C string, from which the tree is parsed. The parser takes
  a C string, here the characters in front of its NUL; \<open>None\<close> is the null pointer of a syntax error.
\<close>

definition cjson_text :: "cjson_lib \<Rightarrow> bool" where
  "cjson_text lib \<longleftrightarrow> (\<forall>t. printable t \<longrightarrow> NUL \<notin> set (cJSON_Print lib t) \<and> cJSON_Parse lib (cJSON_Print lib t) = Some t)"

section \<open>Scalars and texts\<close>

type_synonym 'a bind = "int \<Rightarrow> json option \<Rightarrow> 'a \<Rightarrow> (json option \<times> 'a) option"

text \<open>
  \<^verbatim>\<open>sjb_bind_int\<close>, \<^verbatim>\<open>sjb_bind_short\<close> and \<^verbatim>\<open>sjb_bind_char\<close>, under the names of the unsigned types that
  the macros of the header give them: a word is written as its signed value and a number is read
  modulo the width. Whether a plain \<^verbatim>\<open>char\<close> is signed depends on the machine.
\<close>

definition sjb_bind_uint32 :: "u32 bind" where
  "sjb_bind_uint32 m json str =
     (if m \<noteq> 0 then (case json of Some (JNumber n) \<Rightarrow> Some (json, word_of_int n) | _ \<Rightarrow> Some (json, str))
      else map_option (\<lambda>_. (Some (JNumber (sint str)), str)) json)"

definition sjb_bind_uint16 :: "u16 bind" where
  "sjb_bind_uint16 m json str =
     (if m \<noteq> 0 then (case json of Some (JNumber n) \<Rightarrow> Some (json, word_of_int n) | _ \<Rightarrow> Some (json, str))
      else map_option (\<lambda>_. (Some (JNumber (sint str)), str)) json)"

definition char_value :: "bool \<Rightarrow> u8 \<Rightarrow> int" where
  "char_value char_signed c = (if char_signed then sint c else uint c)"

definition sjb_bind_uint8 :: "bool \<Rightarrow> u8 bind" where
  "sjb_bind_uint8 char_signed m json str =
     (if m \<noteq> 0 then (case json of Some (JNumber n) \<Rightarrow> Some (json, word_of_int n) | _ \<Rightarrow> Some (json, str))
      else map_option (\<lambda>_. (Some (JNumber (char_value char_signed str)), str)) json)"

text \<open>
  \<^verbatim>\<open>sjb_bind_string\<close>: \<^verbatim>\<open>strncpy\<close> keeps at most \<open>sz\<close> characters and then leaves no terminator;
  \<^verbatim>\<open>strdup\<close> of an array without a terminator reads beyond it.
\<close>

definition sjb_bind_string :: "nat \<Rightarrow> string bind" where
  "sjb_bind_string sz m json str =
     (if m \<noteq> 0 then (case json of Some (JString s) \<Rightarrow> Some (json, take sz (takeWhile (\<lambda>c. c \<noteq> NUL) s))
                      | _ \<Rightarrow> Some (json, str))
      else if length str < sz then map_option (\<lambda>_. (Some (JString str), str)) json else None)"

section \<open>Members\<close>

text \<open>The macros \<^verbatim>\<open>FIELD\<close> and \<^verbatim>\<open>STRING\<close> for one member of a structure.\<close>

definition FIELD :: "cjson_lib \<Rightarrow> 'a bind \<Rightarrow> string \<Rightarrow> 'a bind" where
  "FIELD lib cb holder m json str =
     (if m \<noteq> 0 then
        (case json of
           None \<Rightarrow> Some (json, str)
         | Some j \<Rightarrow> map_option (\<lambda>(_, v). (json, v)) (cb m (cJSON_GetObjectItem lib j holder) str))
      else
        (case (cb m (Some (JObject [])) str, json) of
           (Some (Some jani, v), Some j) \<Rightarrow> Some (Some (cJSON_AddItemToObject lib j holder jani), v)
         | _ \<Rightarrow> None))"

definition STRING :: "cjson_lib \<Rightarrow> string \<Rightarrow> nat \<Rightarrow> string bind" where
  "STRING lib holder sz = FIELD lib (sjb_bind_string sz) holder"

text \<open>
  The macro \<^verbatim>\<open>ARRAY\<close> and \<^verbatim>\<open>sjb_bind_array\<close> for an array of one dimension, the only kind that the
  program declares; its elements are no texts, so each is bound by the callback. The node of the
  array is added to its object before its items are bound and is filled in through the pointer.
\<close>

definition sjb_bind_array :: "cjson_lib \<Rightarrow> 'a bind \<Rightarrow> nat \<Rightarrow> 'a list bind" where
  "sjb_bind_array lib cb n m json str =
     (if m \<noteq> 0 then
        (case json of
           Some (JArray js) \<Rightarrow> map_option (\<lambda>xs. (json, xs))
             (foldM (\<lambda>j xs. do { x \<leftarrow> rd xs (int j);
                                 (_, x') \<leftarrow> cb m (cJSON_GetArrayItem lib (JArray js) j) x;
                                 wr xs (int j) x' }) [0..<n] str)
         | _ \<Rightarrow> Some (json, str))
      else
        (case json of
           None \<Rightarrow> None
         | Some a \<Rightarrow> map_option (\<lambda>a'. (Some a', str))
             (foldM (\<lambda>j a. do { x \<leftarrow> rd str (int j);
                                (jani, _) \<leftarrow> cb m (Some (JObject [])) x;
                                map_option (cJSON_AddItemToArray lib a) jani }) [0..<n] a)))"

definition ARRAY :: "cjson_lib \<Rightarrow> 'a bind \<Rightarrow> string \<Rightarrow> nat \<Rightarrow> 'a list bind" where
  "ARRAY lib cb holder sz m json str =
     (if m \<noteq> 0 then
        (case json of
           None \<Rightarrow> Some (json, str)
         | Some j \<Rightarrow>
             (case cJSON_GetObjectItem lib j holder of
                None \<Rightarrow> Some (json, str)
              | Some jani \<Rightarrow> map_option (\<lambda>(_, v). (json, v))
                  (sjb_bind_array lib cb (min (cJSON_GetArraySize lib jani) sz) m (Some jani) str)))
      else
        (case (sjb_bind_array lib cb sz m (Some (JArray [])) str, json) of
           (Some (Some jani, v), Some j) \<Rightarrow> Some (Some (cJSON_AddItemToObject lib j holder jani), v)
         | _ \<Rightarrow> None))"

section \<open>The laws, for the simplifier\<close>

lemma get_empty: "cjson_tree lib \<Longrightarrow> cJSON_GetObjectItem lib (JObject []) k = None"
  by (simp add: cjson_tree_def)

lemma object_add: "cjson_tree lib \<Longrightarrow> is_object j \<Longrightarrow> is_object (cJSON_AddItemToObject lib j k v)"
  by (simp add: cjson_tree_def)

lemma get_add:
  "cjson_tree lib \<Longrightarrow> is_object j \<Longrightarrow> cJSON_GetObjectItem lib (cJSON_AddItemToObject lib j k v) k'
    = (case cJSON_GetObjectItem lib j k' of Some x \<Rightarrow> Some x | None \<Rightarrow> if same_name k k' then Some v else None)"
  by (simp add: cjson_tree_def)

lemma printable_add:
  "cjson_tree lib \<Longrightarrow> is_object j \<Longrightarrow> printable j \<Longrightarrow> NUL \<notin> set k \<Longrightarrow> printable v \<Longrightarrow> printable (cJSON_AddItemToObject lib j k v)"
  unfolding cjson_tree_def by blast

lemma size_empty: "cjson_tree lib \<Longrightarrow> cJSON_GetArraySize lib (JArray []) = 0"
  by (simp add: cjson_tree_def)

lemma array_add:
  assumes laws: "cjson_tree lib" and "is_array a"
  shows "is_array (cJSON_AddItemToArray lib a v)"
    and "cJSON_GetArraySize lib (cJSON_AddItemToArray lib a v) = Suc (cJSON_GetArraySize lib a)"
    and "cJSON_GetArrayItem lib (cJSON_AddItemToArray lib a v) i
      = (if i = cJSON_GetArraySize lib a then Some v else cJSON_GetArrayItem lib a i)"
    and "printable a \<Longrightarrow> printable v \<Longrightarrow> printable (cJSON_AddItemToArray lib a v)"
  using assms unfolding cjson_tree_def by blast+

lemmas cjson_simps = get_empty object_add get_add printable_add size_empty array_add

lemma sint_i32: "in_i32 (sint (w :: u32))" "in_i32 (sint (w' :: u16))" "in_i32 (char_value sg w'')"
  using sint_greater_eq [of w] sint_less [of w] sint_greater_eq [of w'] sint_less [of w']
    sint_greater_eq [of w''] sint_less [of w''] unsigned_less [of w'', where ?'a = int]
    order_trans [OF _ unsigned_greater_eq [of w'', where ?'a = int], of "- 2147483648"]
  by (simp_all add: in_i32_def char_value_def)

lemma bind_scalars [bind_simps]:
  "sjb_bind_uint32 0 (Some j) a = Some (Some (JNumber (sint a)), a)"
  "sjb_bind_uint32 1 (Some (JNumber (sint a))) a' = Some (Some (JNumber (sint a)), a)"
  "sjb_bind_uint16 0 (Some j) b = Some (Some (JNumber (sint b)), b)"
  "sjb_bind_uint16 1 (Some (JNumber (sint b))) b' = Some (Some (JNumber (sint b)), b)"
  "sjb_bind_uint8 sg 0 (Some j) c = Some (Some (JNumber (char_value sg c)), c)"
  "sjb_bind_uint8 sg 1 (Some (JNumber (char_value sg c))) c'
    = Some (Some (JNumber (char_value sg c)), c)"
  by (simp_all add: sjb_bind_uint32_def sjb_bind_uint16_def sjb_bind_uint8_def char_value_def)

lemma takeWhile_text: "NUL \<notin> set s \<Longrightarrow> takeWhile (\<lambda>c. c \<noteq> NUL) s = s"
  by (induction s) auto

lemma takeWhile_text_end: "NUL \<notin> set s \<Longrightarrow> takeWhile (\<lambda>c. c \<noteq> NUL) (s @ [NUL]) = s"
  by (induction s) auto

lemma bind_text [bind_simps]:
  "length s < n \<Longrightarrow> sjb_bind_string n 0 (Some j) s = Some (Some (JString s), s)"
  "length s < n \<Longrightarrow> NUL \<notin> set s \<Longrightarrow> sjb_bind_string n 1 (Some (JString s)) s' = Some (Some (JString s), s)"
  by (simp_all add: sjb_bind_string_def takeWhile_text)

text \<open>Reading and writing one member, given the lookup of its name.\<close>

lemma FIELD_write [bind_simps]:
  "cb 0 (Some (JObject [])) v = Some (Some i, v') \<Longrightarrow>
   FIELD lib cb k 0 (Some j) v = Some (Some (cJSON_AddItemToObject lib j k i), v')"
  by (simp add: FIELD_def)

lemma FIELD_read [bind_simps]:
  "cJSON_GetObjectItem lib j k = Some i \<Longrightarrow> cb 1 (Some i) v = Some (i', w) \<Longrightarrow>
   FIELD lib cb k 1 (Some j) v = Some (Some j, w)"
  by (simp add: FIELD_def)

lemma FIELD_null [bind_simps]: "FIELD lib cb k 1 None v = Some (None, v)"
  by (simp add: FIELD_def)

text \<open>The object that a sequence of writes builds.\<close>

definition object_with :: "cjson_lib \<Rightarrow> (string \<times> json) list \<Rightarrow> json" where
  "object_with lib kvs = foldl (\<lambda>j (k, v). cJSON_AddItemToObject lib j k v) (JObject []) kvs"

lemma object_with_Nil: "JObject [] = object_with lib []"
  by (simp add: object_with_def)

lemma object_with_add [bind_simps]:
  "cJSON_AddItemToObject lib (object_with lib kvs) k v = object_with lib (kvs @ [(k, v)])"
  by (simp add: object_with_def)

lemma object_with_object:
  assumes "cjson_tree lib"
  shows "is_object (object_with lib kvs)"
proof (induction kvs rule: rev_induct)
  case (snoc kv kvs)
  then show ?case by (cases kv) (simp add: object_with_def object_add [OF assms])
qed (simp add: object_with_def)

lemma object_with_printable:
  assumes "cjson_tree lib" and "\<forall>kv \<in> set kvs. NUL \<notin> set (fst kv) \<and> printable (snd kv)"
  shows "printable (object_with lib kvs)"
  using assms(2)
proof (induction kvs rule: rev_induct)
  case (snoc kv kvs)
  then have "printable (object_with lib kvs)" by simp
  with snoc.prems show ?case
    by (cases kv) (simp add: printable_add [OF assms(1)] object_with_object [OF assms(1)]
        flip: object_with_add)
qed (simp add: object_with_def)

lemma find_app: "find P (xs @ ys) = (case find P xs of Some x \<Rightarrow> Some x | None \<Rightarrow> find P ys)"
  by (induction xs) auto

lemma object_with_get:
  assumes "cjson_tree lib"
  shows "cJSON_GetObjectItem lib (object_with lib kvs) k = map_option snd (find (\<lambda>kv. same_name (fst kv) k) kvs)"
proof (induction kvs rule: rev_induct)
  case Nil
  then show ?case by (simp add: object_with_def get_empty [OF assms])
next
  case (snoc kv kvs)
  then show ?case
    by (cases kv) (simp add: find_app get_add [OF assms] object_with_object [OF assms] flip: object_with_add
        split: option.split)
qed

section \<open>The contract of a bound structure\<close>

text \<open>
  What is written for a value is read back into any value of the shape, and no node at all, that of a
  missing member, leaves the value as it is.
\<close>

locale codec =
  fixes bnd :: "cjson_lib \<Rightarrow> 'a bind" and ok :: "'a \<Rightarrow> bool"
  assumes write_read: "cjson_tree lib \<Longrightarrow> ok s \<Longrightarrow>
      \<exists>j. bnd lib 0 (Some (JObject [])) s = Some (Some j, s) \<and> printable j
        \<and> (\<forall>t. ok t \<longrightarrow> bnd lib 1 (Some j) t = Some (Some j, s))"
    and read_null: "bnd lib 1 None t = Some (None, t)"
begin

definition reads_as :: "cjson_lib \<Rightarrow> json \<Rightarrow> 'a \<Rightarrow> bool" where
  "reads_as lib j s \<longleftrightarrow> (\<forall>t. ok t \<longrightarrow> bnd lib 1 (Some j) t = Some (Some j, s))"

lemma array_write:
  assumes laws: "cjson_tree lib" and "\<forall>x \<in> set xs. ok x" and "k \<le> length xs"
  shows "\<exists>a. foldM (\<lambda>j a. do { x \<leftarrow> rd xs (int j); (jani, _) \<leftarrow> bnd lib 0 (Some (JObject [])) x;
              map_option (cJSON_AddItemToArray lib a) jani }) [0..<k] (JArray []) = Some a
    \<and> is_array a \<and> printable a \<and> cJSON_GetArraySize lib a = k
    \<and> (\<forall>i < k. \<exists>j. cJSON_GetArrayItem lib a i = Some j \<and> reads_as lib j (xs ! i))"
  using assms(3)
proof (induction k)
  case 0
  then show ?case by (simp add: size_empty [OF laws])
next
  case (Suc k)
  then obtain a where a: "foldM (\<lambda>j a. do { x \<leftarrow> rd xs (int j); (jani, _) \<leftarrow> bnd lib 0 (Some (JObject [])) x;
      map_option (cJSON_AddItemToArray lib a) jani }) [0..<k] (JArray []) = Some a"
    "is_array a" "printable a" "cJSON_GetArraySize lib a = k"
    "\<forall>i < k. \<exists>j. cJSON_GetArrayItem lib a i = Some j \<and> reads_as lib j (xs ! i)" by auto
  from Suc.prems assms(2) obtain j where j: "bnd lib 0 (Some (JObject [])) (xs ! k) = Some (Some j, xs ! k)"
    "printable j" "reads_as lib j (xs ! k)"
    using write_read [OF laws, of "xs ! k"] by (auto simp: reads_as_def)
  note add = array_add [OF laws a(2), of j]
  show ?case
    by (rule exI [of _ "cJSON_AddItemToArray lib a j"])
      (use a j add Suc.prems in \<open>auto simp: foldM_append rd_in less_Suc_eq\<close>)
qed

lemma array_read:
  assumes "length ys = length xs" and "\<forall>y \<in> set ys. ok y"
    and items: "\<forall>i < length xs. \<exists>j. cJSON_GetArrayItem lib a i = Some j \<and> reads_as lib j (xs ! i)"
    and "k \<le> length xs"
  shows "foldM (\<lambda>j zs. do { x \<leftarrow> rd zs (int j); (_, x') \<leftarrow> bnd lib 1 (cJSON_GetArrayItem lib a j) x;
              wr zs (int j) x' }) [0..<k] ys = Some (take k xs @ drop k ys)"
  using assms(4)
proof (induction k)
  case (Suc k)
  from items [rule_format, of k] Suc.prems obtain j where j: "cJSON_GetArrayItem lib a k = Some j" "reads_as lib j (xs ! k)"
    by auto
  have y: "(take k xs @ drop k ys) ! k = ys ! k" "length (take k xs @ drop k ys) = length xs"
    using Suc.prems assms(1) by (simp_all add: nth_append)
  have "bnd lib 1 (Some j) (ys ! k) = Some (Some j, xs ! k)"
    using j(2) assms(1,2) Suc.prems by (simp add: reads_as_def)
  moreover have "(take k xs @ drop k ys)[k := xs ! k] = take (Suc k) xs @ drop (Suc k) ys"
    using Suc.prems assms(1) by (simp add: list_update_append take_Suc_conv_app_nth Cons_nth_drop_Suc [symmetric])
  ultimately show ?case
    using Suc j y by (simp add: foldM_append rd_in wr_in)
qed simp

lemma array_round_trip:
  assumes laws: "cjson_tree lib" and "length xs = n" and "\<forall>x \<in> set xs. ok x"
  shows "\<exists>a. sjb_bind_array lib (bnd lib) n 0 (Some (JArray [])) xs = Some (Some a, xs)
    \<and> printable a \<and> cJSON_GetArraySize lib a = n
    \<and> (\<forall>ys. length ys = n \<longrightarrow> (\<forall>y \<in> set ys. ok y) \<longrightarrow>
          sjb_bind_array lib (bnd lib) n 1 (Some a) ys = Some (Some a, xs))"
proof -
  from array_write [OF laws assms(3), of n] assms(2) obtain a where
    a: "foldM (\<lambda>j a. do { x \<leftarrow> rd xs (int j); (jani, _) \<leftarrow> bnd lib 0 (Some (JObject [])) x;
      map_option (cJSON_AddItemToArray lib a) jani }) [0..<n] (JArray []) = Some a"
    "is_array a" "printable a" "cJSON_GetArraySize lib a = n"
    "\<forall>i < n. \<exists>j. cJSON_GetArrayItem lib a i = Some j \<and> reads_as lib j (xs ! i)" by auto
  from a(2) obtain js where js: "a = JArray js" by (cases a rule: is_array.cases) auto
  have "sjb_bind_array lib (bnd lib) n 1 (Some a) ys = Some (Some a, xs)"
    if "length ys = n" "\<forall>y \<in> set ys. ok y" for ys
    using array_read [of ys xs lib a n] a that assms(2) js by (simp add: sjb_bind_array_def)
  with a show ?thesis by (auto simp: sjb_bind_array_def)
qed

end

text \<open>The contract of a structure, from the members it writes.\<close>

lemma codecI:
  assumes "\<And>lib s. cjson_tree lib \<Longrightarrow> ok s \<Longrightarrow>
      bnd lib 0 (Some (object_with lib [])) s = Some (Some (object_with lib (pairs lib s)), s)
      \<and> (\<forall>kv \<in> set (pairs lib s). NUL \<notin> set (fst kv) \<and> printable (snd kv))
      \<and> (\<forall>t. ok t \<longrightarrow> bnd lib 1 (Some (object_with lib (pairs lib s))) t
           = Some (Some (object_with lib (pairs lib s)), s))"
    and "\<And>lib t. bnd lib 1 None t = Some (None, t)"
  shows "codec bnd ok"
proof
  fix lib s
  assume laws: "cjson_tree lib" and s: "ok s"
  show "\<exists>j. bnd lib 0 (Some (JObject [])) s = Some (Some j, s) \<and> printable j
      \<and> (\<forall>t. ok t \<longrightarrow> bnd lib 1 (Some j) t = Some (Some j, s))"
    using assms(1) [OF laws s] object_with_printable [OF laws] unfolding object_with_Nil [of lib] by blast
qed (rule assms(2))

end
