(* ===== verification/CdrawJSON.thy ===== *)
theory CdrawJSON
  imports JsonBind
begin

text \<open>
  Parameter files: the class \<^verbatim>\<open>CdrawJSON\<close> of \<^verbatim>\<open>cdrawTools/json\<close> and the file functions of
  \<^verbatim>\<open>3rdparty/cxz_json/include/cxz_json.h\<close> that it calls. The file system is a state: the contents of
  each path, and the paths that can be opened for reading and for writing. The bind function of
  the structure is an argument, as it is in the source. \<open>None\<close> is undefined behaviour: the null
  pointer of a file that could not be opened is used, the parser is given a block without a
  terminator, or the error pointer into the freed block is printed.

  Shown, for every structure that satisfies the contract of its bind function: a saved value is what
  any object on that path reads, provided that the unset byte behind the text is a NUL, and otherwise
  the reading is undefined. The laws of a file that keeps the last value saved are the locale
  \<open>param_file\<close>, which every \<open>codec\<close> provides.
\<close>

record filesys =
  contents_of :: "string \<Rightarrow> string option"
  can_read :: "string \<Rightarrow> bool"
  can_write :: "string \<Rightarrow> bool"

record cdraw_json =
  cj_id :: u8
  json_path :: string
  json_name :: string
  full_path :: string

definition json_new :: "string \<Rightarrow> string \<Rightarrow> u8 \<Rightarrow> cdraw_json" where
  "json_new path name ident =
     \<lparr>cj_id = ident, json_path = path, json_name = name, full_path = path @ name\<rparr>"

text \<open>\<^verbatim>\<open>access(full_path_.c_str(), F_OK)\<close>.\<close>

definition file_exists :: "cdraw_json \<Rightarrow> filesys \<Rightarrow> int" where
  "file_exists js fs = (if contents_of fs (full_path js) = None then - 1 else 0)"

text \<open>Writing: the tree is built first, then \<^verbatim>\<open>fopen(..., "wb+")\<close> truncates the file.\<close>

definition save_to_json_file :: "cjson_lib \<Rightarrow> 'a bind \<Rightarrow> 'a \<Rightarrow> cdraw_json \<Rightarrow> filesys \<Rightarrow> filesys option" where
  "save_to_json_file lib func t js fs =
     (case func 0 (Some (JObject [])) t of
        Some (Some save_json, _) \<Rightarrow>
          if can_write fs (full_path js)
          then Some (fs\<lparr>contents_of := (contents_of fs)(full_path js \<mapsto> cJSON_Print lib save_json)\<rparr>)
          else None
      | _ \<Rightarrow> None)"

definition call_init_json :: "cjson_lib \<Rightarrow> 'a bind \<Rightarrow> 'a \<Rightarrow> cdraw_json \<Rightarrow> filesys \<Rightarrow> filesys option" where
  "call_init_json = save_to_json_file"

text \<open>
  Reading: \<^verbatim>\<open>_cJSON_FromFile\<close> reads the bytes into a block with one byte more, which it does not set
  (\<open>mem\<close>), and parses the block as a C string. After a syntax error it prints the text at
  \<^verbatim>\<open>cJSON_GetErrorPtr\<close>, which points into the block that it has just freed.
\<close>

definition cJSON_FromFile :: "cjson_lib \<Rightarrow> char \<Rightarrow> string \<Rightarrow> filesys \<Rightarrow> json option" where
  "cJSON_FromFile lib mem path fs =
     (case contents_of fs path of
        Some data \<Rightarrow>
          if can_read fs path \<and> NUL \<in> set (data @ [mem])
          then cJSON_Parse lib (takeWhile (\<lambda>c. c \<noteq> NUL) (data @ [mem])) else None
      | None \<Rightarrow> None)"

text \<open>\<open>zero\<close> is the structure after \<^verbatim>\<open>memset(&t, 0, sizeof(t))\<close>.\<close>

definition get_by_json :: "cjson_lib \<Rightarrow> 'a bind \<Rightarrow> 'a \<Rightarrow> char \<Rightarrow> cdraw_json \<Rightarrow> filesys \<Rightarrow> 'a option" where
  "get_by_json lib func zero mem js fs = do {
     parse_json \<leftarrow> cJSON_FromFile lib mem (full_path js) fs;
     map_option snd (func 1 (Some parse_json) zero)
   }"

section \<open>The contract of a parameter file\<close>

text \<open>
  What the classes with a parameter file rely on: saving replaces the file at the path by a text that
  every object on the path loads as the value saved, if the byte behind it is a NUL, and loading
  depends on that file only.
\<close>

primrec save_all :: "('a \<Rightarrow> cdraw_json \<Rightarrow> filesys \<Rightarrow> filesys option) \<Rightarrow> ('a \<times> cdraw_json) list \<Rightarrow> filesys \<Rightarrow> filesys option" where
  "save_all save [] fs = Some fs"
| "save_all save (x # xs) fs = Option.bind (save (fst x) (snd x) fs) (save_all save xs)"

definition same_file :: "string \<Rightarrow> filesys \<Rightarrow> filesys \<Rightarrow> bool" where
  "same_file p fs fs' \<longleftrightarrow> contents_of fs p = contents_of fs' p \<and> can_read fs p = can_read fs' p"

locale param_file =
  fixes ok :: "'a \<Rightarrow> bool"
    and save :: "'a \<Rightarrow> cdraw_json \<Rightarrow> filesys \<Rightarrow> filesys option"
    and load :: "char \<Rightarrow> cdraw_json \<Rightarrow> filesys \<Rightarrow> 'a option"
  assumes save_law: "ok t \<Longrightarrow> can_write fs (full_path js) \<Longrightarrow>
      \<exists>data. save t js fs = Some (fs\<lparr>contents_of := (contents_of fs)(full_path js \<mapsto> data)\<rparr>)
        \<and> (\<forall>js' mem fs'. contents_of fs' (full_path js') = Some data \<longrightarrow> can_read fs' (full_path js')
             \<longrightarrow> load mem js' fs' = (if mem = NUL then Some t else None))"
    and load_law: "full_path js' = full_path js \<Longrightarrow> same_file (full_path js) fs fs' \<Longrightarrow> load mem js' fs' = load mem js fs"
begin

lemma save_then_get:
  assumes "ok t" and "can_write fs (full_path js)" and "can_read fs (full_path js)"
  shows "\<exists>fs'. save t js fs = Some fs' \<and> (\<forall>p. p \<noteq> full_path js \<longrightarrow> contents_of fs' p = contents_of fs p)
    \<and> (\<forall>js' mem. full_path js' = full_path js \<longrightarrow> file_exists js' fs' = 0
         \<and> load mem js' fs' = (if mem = NUL then Some t else None))"
proof -
  from save_law [OF assms(1,2)] obtain data where
    d: "save t js fs = Some (fs\<lparr>contents_of := (contents_of fs)(full_path js \<mapsto> data)\<rparr>)"
      "\<And>js' mem fs'. contents_of fs' (full_path js') = Some data \<Longrightarrow> can_read fs' (full_path js')
        \<Longrightarrow> load mem js' fs' = (if mem = NUL then Some t else None)"
    by blast
  show ?thesis
    by (rule exI, rule conjI [OF d(1)]) (simp add: file_exists_def d(2) assms(3))
qed

text \<open>After any sequence of saves, an object loads the last value saved on its path, or what was there.\<close>

lemma save_all_load:
  assumes "\<forall>x \<in> set xs. ok (fst x) \<and> can_write fs (full_path (snd x)) \<and> can_read fs (full_path (snd x))"
  shows "\<exists>fs'. save_all save xs fs = Some fs'
    \<and> (\<forall>js mem. load mem js fs' = (case find (\<lambda>x. full_path (snd x) = full_path js) (rev xs) of
          Some x \<Rightarrow> if mem = NUL then Some (fst x) else None | None \<Rightarrow> load mem js fs))"
  using assms
proof (induction xs arbitrary: fs)
  case (Cons x xs)
  let ?p = "full_path (snd x)"
  from Cons.prems have x: "ok (fst x)" "can_write fs ?p" "can_read fs ?p" by simp_all
  from save_law [OF x(1,2)] obtain data where
    d: "save (fst x) (snd x) fs = Some (fs\<lparr>contents_of := (contents_of fs)(?p \<mapsto> data)\<rparr>)"
      "\<And>js' mem fs'. contents_of fs' (full_path js') = Some data \<Longrightarrow> can_read fs' (full_path js')
        \<Longrightarrow> load mem js' fs' = (if mem = NUL then Some (fst x) else None)"
    by blast
  let ?fs = "fs\<lparr>contents_of := (contents_of fs)(?p \<mapsto> data)\<rparr>"
  obtain fs' where fs': "save_all save xs ?fs = Some fs'"
    "\<And>js mem. load mem js fs' = (case find (\<lambda>x. full_path (snd x) = full_path js) (rev xs) of
          Some x \<Rightarrow> if mem = NUL then Some (fst x) else None | None \<Rightarrow> load mem js ?fs)"
    using Cons.IH [of ?fs] Cons.prems by auto
  have one: "load mem js ?fs = (if ?p = full_path js then if mem = NUL then Some (fst x) else None else load mem js fs)"
    for mem js
    using d(2) [of ?fs js mem] x(3) load_law [of js js fs ?fs mem] by (auto simp: same_file_def)
  show ?case
    using d(1) fs' by (intro exI [of _ fs']) (auto simp: find_app one split: option.split)
qed simp

end

section \<open>Every bound structure has one\<close>

lemma get_local:
  "full_path js' = full_path js \<Longrightarrow> same_file (full_path js) fs fs' \<Longrightarrow>
   get_by_json lib func zero mem js' fs' = get_by_json lib func zero mem js fs"
  by (simp add: get_by_json_def cJSON_FromFile_def same_file_def cong: option.case_cong)

sublocale codec \<subseteq> store: param_file "\<lambda>t. cjson_tree lib \<and> cjson_text lib \<and> ok zero \<and> ok t" "save_to_json_file lib (bnd lib)"
    "get_by_json lib (bnd lib) zero"
  for lib zero
proof (unfold_locales, goal_cases)
  case (1 t fs js)
  then have laws: "cjson_tree lib" and text_law: "cjson_text lib" and "ok t" by simp_all
  from write_read [OF laws this(3)] obtain j where j: "bnd lib 0 (Some (JObject [])) t = Some (Some j, t)"
    "printable j" "\<forall>u. ok u \<longrightarrow> bnd lib 1 (Some j) u = Some (Some j, t)" by auto
  from text_law j(2) have printed: "NUL \<notin> set (cJSON_Print lib j)" "cJSON_Parse lib (cJSON_Print lib j) = Some j"
    by (simp_all add: cjson_text_def)
  show ?case
    using 1 j printed by (intro exI [of _ "cJSON_Print lib j"])
      (simp add: save_to_json_file_def get_by_json_def cJSON_FromFile_def takeWhile_text_end)
qed (rule get_local)

end
