(* ===== verification/JsonSample.thy ===== *)
theory JsonSample
  imports JsonBind CFormat
begin

text \<open>
  A concrete library for the header \<^verbatim>\<open>cJSON.h\<close>, for evaluating the parameter files: children as
  lists, and JSON text as RFC 8259 has it, for the trees that the parameter records build (numbers
  without fraction or exponent, ASCII escapes). It shows that the laws assumed of the library can
  hold; the program's own library also formats its text and reads the rest of JSON.
\<close>

section \<open>JSON text\<close>

abbreviation QUOTE :: char where "QUOTE \<equiv> CHR 0x22"
abbreviation BACKSLASH :: char where "BACKSLASH \<equiv> CHR 0x5C"

definition escape :: "char \<Rightarrow> string" where
  "escape c =
     (if c = QUOTE \<or> c = BACKSLASH then [BACKSLASH, c]
      else if (of_char c :: nat) < 32 then BACKSLASH # CHR ''u'' # hex 4 (of_char c) else [c])"

definition quoted :: "string \<Rightarrow> string" where
  "quoted s = QUOTE # concat (map escape s) @ [QUOTE]"

fun commas :: "string list \<Rightarrow> string" where
  "commas [] = []"
| "commas [x] = x"
| "commas (x # y # ys) = x @ CHR '','' # commas (y # ys)"

fun enc :: "json \<Rightarrow> string" where
  "enc JFalse = ''false''"
| "enc JTrue = ''true''"
| "enc JNull = ''null''"
| "enc (JNumber n) = dec n"
| "enc (JString s) = quoted s"
| "enc (JArray js) = CHR ''['' # commas (map enc js) @ '']''"
| "enc (JObject kvs) = CHR ''{'' # commas (map (\<lambda>kv. quoted (fst kv) @ CHR '':'' # enc (snd kv)) kvs) @ ''}''"

definition skip :: "string \<Rightarrow> string" where
  "skip s = dropWhile (\<lambda>c. (of_char c :: nat) \<le> 32) s"

definition is_digit :: "char \<Rightarrow> bool" where
  "is_digit c \<longleftrightarrow> digit_value c < 10"

definition parse_number :: "string \<Rightarrow> json \<times> string" where
  "parse_number s =
     (let neg = (hd s = CHR ''-''); ds = (if neg then tl s else s); n = int (number_of 10 (takeWhile is_digit ds))
      in (JNumber (if neg then - n else n), dropWhile is_digit ds))"

definition unescape :: "char \<Rightarrow> char" where
  "unescape c =
     (if c = CHR ''b'' then CHR 0x08 else if c = CHR ''f'' then CHR 0x0C else if c = CHR ''n'' then CHR 0x0A
      else if c = CHR ''r'' then CHR 0x0D else if c = CHR ''t'' then CHR 0x09 else c)"

text \<open>The rest of a text after its opening quote.\<close>

fun parse_text :: "string \<Rightarrow> (string \<times> string) option" where
  "parse_text [] = None"
| "parse_text (c # s) =
     (if c = QUOTE then Some ([], s)
      else if c = BACKSLASH then
        (case s of
           [] \<Rightarrow> None
         | e # s' \<Rightarrow>
             if e = CHR ''u'' then
               (let n = number_of 16 (take 4 s')
                in if length s' < 4 \<or> n \<ge> 128 then None
                   else map_option (\<lambda>(x, r). (char_of n # x, r)) (parse_text (drop 4 s')))
             else map_option (\<lambda>(x, r). (unescape e # x, r)) (parse_text s'))
      else map_option (\<lambda>(x, r). (c # x, r)) (parse_text s))"

fun parse :: "nat \<Rightarrow> string \<Rightarrow> (json \<times> string) option"
  and parse_items :: "nat \<Rightarrow> string \<Rightarrow> (json list \<times> string) option"
  and parse_members :: "nat \<Rightarrow> string \<Rightarrow> ((string \<times> json) list \<times> string) option" where
  "parse (Suc f) s =
     (case skip s of
        [] \<Rightarrow> None
      | c # r \<Rightarrow>
          if c = CHR ''['' then
            (case skip r of
               [] \<Rightarrow> None
             | c' # r' \<Rightarrow> if c' = CHR '']'' then Some (JArray [], r')
                 else map_option (\<lambda>(js, t). (JArray js, t)) (parse_items f r))
          else if c = CHR ''{'' then
            (case skip r of
               [] \<Rightarrow> None
             | c' # r' \<Rightarrow> if c' = CHR ''}'' then Some (JObject [], r')
                 else map_option (\<lambda>(kvs, t). (JObject kvs, t)) (parse_members f r))
          else if c = QUOTE then map_option (\<lambda>(x, t). (JString x, t)) (parse_text r)
          else if c = CHR ''-'' \<or> is_digit c then Some (parse_number (c # r))
          else if take 4 (c # r) = ''null'' then Some (JNull, drop 4 (c # r))
          else if take 4 (c # r) = ''true'' then Some (JTrue, drop 4 (c # r))
          else if take 5 (c # r) = ''false'' then Some (JFalse, drop 5 (c # r))
          else None)"
| "parse 0 s = None"
| "parse_items (Suc f) s = do {
     (j, r) \<leftarrow> parse f s;
     case skip r of
       [] \<Rightarrow> None
     | c # r' \<Rightarrow> if c = CHR '','' then map_option (\<lambda>(js, t). (j # js, t)) (parse_items f r')
         else if c = CHR '']'' then Some ([j], r') else None
   }"
| "parse_items 0 s = None"
| "parse_members (Suc f) s =
     (case skip s of
        [] \<Rightarrow> None
      | q # s' \<Rightarrow>
          if q \<noteq> QUOTE then None
          else do {
            (k, r) \<leftarrow> parse_text s';
            case skip r of
              [] \<Rightarrow> None
            | c # r' \<Rightarrow>
                if c \<noteq> CHR '':'' then None
                else do {
                  (j, r1) \<leftarrow> parse f r';
                  case skip r1 of
                    [] \<Rightarrow> None
                  | c' # r2 \<Rightarrow> if c' = CHR '','' then map_option (\<lambda>(kvs, t). ((k, j) # kvs, t)) (parse_members f r2)
                      else if c' = CHR ''}'' then Some ([(k, j)], r2) else None
                }
          })"
| "parse_members 0 s = None"

section \<open>Printed trees are parsed back\<close>

lemma parse_text_escape:
  "c \<noteq> NUL \<Longrightarrow> parse_text (escape c @ s) = map_option (\<lambda>(x, r). (c # x, r)) (parse_text s)"
proof -
  assume "c \<noteq> NUL"
  have "(of_char c :: nat) < 16 ^ 4"
    by (rule less_trans [OF nat_of_char_less_256]) simp
  then have small: "length (hex 4 (of_char c)) = 4" by (intro hex_length) simp_all
  have "(of_char c :: nat) < 32 \<Longrightarrow> (of_char c :: nat) < 128" by simp
  moreover have "unescape c = c" if "c = QUOTE \<or> c = BACKSLASH" using that by (auto simp: unescape_def)
  moreover have "QUOTE \<noteq> CHR ''u''" "BACKSLASH \<noteq> CHR ''u''" "BACKSLASH \<noteq> QUOTE" by simp_all
  ultimately show ?thesis
    using small by (auto simp: escape_def number_of_hex)
qed

lemma parse_text_quoted: "NUL \<notin> set s \<Longrightarrow> parse_text (concat (map escape s) @ QUOTE # r) = Some (s, r)"
  by (induction s) (auto simp: parse_text_escape)

lemma digits_are: "2 \<le> base \<Longrightarrow> base \<le> 10 \<Longrightarrow> c \<in> set (digits base n) \<Longrightarrow> is_digit c"
proof (induction base n rule: digits.induct)
  case (1 base n)
  have "n mod base < 10" using "1.prems" by (meson less_le_trans mod_less_divisor zero_less_numeral)
  moreover have "set (digits base n) = (if base < 2 \<or> n < base then {digit n} else set (digits base (n div base)) \<union> {digit (n mod base)})"
    by (subst digits.simps) simp
  ultimately show ?case using 1 by (auto simp: is_digit_def digit_value_digit split: if_splits)
qed

definition ends :: "string \<Rightarrow> bool" where
  "ends r \<longleftrightarrow> r = [] \<or> hd r \<in> {CHR '','', CHR '']'', CHR ''}''}"

lemma ends_simps [simp]: "ends []" "ends (CHR '','' # r)" "ends (CHR '']'' # r)" "ends (CHR ''}'' # r)"
  by (simp_all add: ends_def)

lemma not_digits: "\<not> is_digit (CHR '','')" "\<not> is_digit (CHR '']'')" "\<not> is_digit (CHR ''}'')" "\<not> is_digit (CHR ''-'')"
  by (simp add: is_digit_def, code_simp)+

lemma number_end:
  assumes "ends r"
  shows "takeWhile is_digit (digits 10 n @ r) = digits 10 n" "dropWhile is_digit (digits 10 n @ r) = r"
proof -
  have "\<forall>c \<in> set (digits 10 n). is_digit c" using digits_are [of 10] by simp
  moreover have "takeWhile is_digit r = []" "dropWhile is_digit r = r"
    using assms not_digits by (cases r; auto simp: ends_def)+
  ultimately show "takeWhile is_digit (digits 10 n @ r) = digits 10 n" "dropWhile is_digit (digits 10 n @ r) = r"
    by simp_all
qed

lemma parse_number_dec: "ends r \<Longrightarrow> parse_number (dec n @ r) = (JNumber n, r)"
proof -
  assume r: "ends r"
  have "hd (digits 10 k @ r) \<noteq> CHR ''-''" for k
    using digits_are [of 10 "hd (digits 10 k)" k] not_digits(4) by (cases "digits 10 k") auto
  then show ?thesis
    using number_end [OF r] by (simp add: parse_number_def dec_def number_of_digits Let_def)
qed

text \<open>How the text of a value begins.\<close>

definition starts :: "char \<Rightarrow> bool" where
  "starts c \<longleftrightarrow> (of_char c :: nat) > 32 \<and> c \<noteq> CHR '']'' \<and> c \<noteq> CHR ''}''"

lemma digit_starts:
  assumes "is_digit c"
  shows "starts c \<and> c \<noteq> CHR ''['' \<and> c \<noteq> CHR ''{'' \<and> c \<noteq> QUOTE"
proof -
  have "\<forall>c \<in> set (map char_of [0..<256]). is_digit c \<longrightarrow> starts c \<and> c \<noteq> CHR ''['' \<and> c \<noteq> CHR ''{'' \<and> c \<noteq> QUOTE"
    by code_simp
  moreover have "c \<in> set (map char_of [0..<256])"
    using nat_of_char_less_256 [of c] by (force simp: image_iff intro: bexI [of _ "of_char c"])
  ultimately show ?thesis using assms by blast
qed

lemma dec_start: "\<exists>c s. dec n = c # s \<and> (c = CHR ''-'' \<or> is_digit c)"
proof -
  have "\<exists>c s. digits 10 k = c # s \<and> is_digit c" for k
    using digits_are [of 10 _ k] by (cases "digits 10 k") auto
  then show ?thesis by (simp add: dec_def) blast
qed

lemma enc_start: "\<exists>c s. enc t = c # s \<and> starts c"
proof (cases t)
  case (JNumber n)
  with dec_start [of n] show ?thesis using digit_starts by (fastforce simp: starts_def)
qed (auto simp: quoted_def starts_def)

lemma skip_start: "starts c \<Longrightarrow> skip (c # s) = c # s"
  by (simp add: skip_def starts_def)

lemma skip_punct [simp]:
  "skip (CHR '','' # r) = CHR '','' # r" "skip (CHR '']'' # r) = CHR '']'' # r" "skip (CHR ''}'' # r) = CHR ''}'' # r"
  "skip (CHR '':'' # r) = CHR '':'' # r" "skip (QUOTE # r) = QUOTE # r" "skip (CHR ''['' # r) = CHR ''['' # r"
  "skip (CHR ''{'' # r) = CHR ''{'' # r"
  by (simp_all add: skip_def)

lemma skip_enc: "skip (enc t @ s) = enc t @ s"
  using enc_start [of t] skip_start by fastforce


lemma not_NUL_digit: "\<not> is_digit NUL"
  by (simp add: is_digit_def, code_simp)

lemma digit_not_NUL: "d < 16 \<Longrightarrow> digit d \<noteq> NUL"
proof -
  have "\<forall>d \<in> set [0..<16]. digit d \<noteq> NUL" by code_simp
  then show "d < 16 \<Longrightarrow> digit d \<noteq> NUL" by simp
qed

lemma hex_no_NUL: "NUL \<notin> set (hex w n)"
proof -
  have "NUL \<notin> set (digits 16 n)" for n
  proof (induction n rule: less_induct)
    case (less n)
    then show ?case by (cases "n < 16"; subst digits.simps) (auto dest: sym simp: digit_not_NUL [symmetric])
  qed
  then show ?thesis by (simp add: hex_def Let_def)
qed

lemma quoted_no_NUL: "NUL \<notin> set s \<Longrightarrow> NUL \<notin> set (quoted s)"
  by (auto simp: quoted_def escape_def hex_no_NUL)

lemma parse_enc:
  "printable t \<Longrightarrow> ends r \<Longrightarrow> 2 * length (enc t @ r) < f \<Longrightarrow> parse f (enc t @ r) = Some (t, r)"
proof (induction t arbitrary: f r)
  case (JArray js)
  have items: "(\<And>j f r. j \<in> set js \<Longrightarrow> printable j \<Longrightarrow> ends r \<Longrightarrow> 2 * length (enc j @ r) < f
        \<Longrightarrow> parse f (enc j @ r) = Some (j, r))
      \<Longrightarrow> \<forall>j \<in> set js. printable j \<Longrightarrow> js \<noteq> []
      \<Longrightarrow> 2 * length (commas (map enc js) @ CHR '']'' # r) + 1 < f
      \<Longrightarrow> parse_items f (commas (map enc js) @ CHR '']'' # r) = Some (js, r)" for js f
  proof (induction js arbitrary: f)
    case (Cons j js)
    obtain g where f: "f = Suc g" using Cons.prems(4) by (cases f) auto
    show ?case
    proof (cases js)
      case Nil
      have "parse g (enc j @ CHR '']'' # r) = Some (j, CHR '']'' # r)"
        using Cons.prems Nil f by (intro Cons.prems(1)) auto
      then show ?thesis by (simp add: Nil f)
    next
      case (Cons j' js')
      let ?rest = "commas (map enc js) @ CHR '']'' # r"
      have "parse g (enc j @ CHR '','' # ?rest) = Some (j, CHR '','' # ?rest)"
        using Cons.prems Cons f by (intro Cons.prems(1)) auto
      moreover have "parse_items g ?rest = Some (js, r)"
        using Cons.prems Cons f by (intro Cons.IH) auto
      ultimately show ?thesis using Cons f by simp
    qed
  qed simp
  obtain g where f: "f = Suc g" using JArray.prems(3) by (cases f) auto
  show ?case
  proof (cases js)
    case (Cons j js')
    have "parse_items g (commas (map enc js) @ CHR '']'' # r) = Some (js, r)"
      using JArray f Cons by (intro items) auto
    moreover obtain c s where "enc j = c # s" "starts c" using enc_start by blast
    moreover from this have "\<exists>s'. commas (map enc js) @ CHR '']'' # r = c # s'" using Cons by (cases js') auto
    ultimately show ?thesis using f skip_start by (auto simp: starts_def)
  qed (simp add: f)
next
  case (JObject kvs)
  let ?enc = "\<lambda>kv. quoted (fst kv) @ CHR '':'' # enc (snd kv)"
  have members: "(\<And>kv f r. kv \<in> set kvs \<Longrightarrow> printable (snd kv) \<Longrightarrow> ends r \<Longrightarrow> 2 * length (enc (snd kv) @ r) < f
        \<Longrightarrow> parse f (enc (snd kv) @ r) = Some (snd kv, r))
      \<Longrightarrow> \<forall>kv \<in> set kvs. NUL \<notin> set (fst kv) \<and> printable (snd kv) \<Longrightarrow> kvs \<noteq> []
      \<Longrightarrow> 2 * length (commas (map ?enc kvs) @ CHR ''}'' # r) + 1 < f
      \<Longrightarrow> parse_members f (commas (map ?enc kvs) @ CHR ''}'' # r) = Some (kvs, r)" for kvs f
  proof (induction kvs arbitrary: f)
    case (Cons kv kvs)
    obtain g where f: "f = Suc g" using Cons.prems(4) by (cases f) auto
    have k: "parse_text (concat (map escape (fst kv)) @ QUOTE # s) = Some (fst kv, s)" for s
      using Cons.prems(2) by (intro parse_text_quoted) simp
    show ?case
    proof (cases kvs)
      case Nil
      have "parse g (enc (snd kv) @ CHR ''}'' # r) = Some (snd kv, CHR ''}'' # r)"
        using Cons.prems Nil f by (intro Cons.prems(1)) auto
      then show ?thesis by (simp add: Nil f k quoted_def)
    next
      case (Cons kv' kvs')
      let ?rest = "commas (map ?enc kvs) @ CHR ''}'' # r"
      have "parse g (enc (snd kv) @ CHR '','' # ?rest) = Some (snd kv, CHR '','' # ?rest)"
        using Cons.prems Cons f by (intro Cons.prems(1)) auto
      moreover have "parse_members g ?rest = Some (kvs, r)"
        using Cons.prems Cons f by (intro Cons.IH) auto
      ultimately show ?thesis using Cons f by (simp add: k quoted_def)
    qed
  qed simp
  obtain g where f: "f = Suc g" using JObject.prems(3) by (cases f) auto
  show ?case
  proof (cases kvs)
    case (Cons kv kvs')
    have "parse_members g (commas (map ?enc kvs) @ CHR ''}'' # r) = Some (kvs, r)"
      using JObject f Cons by (intro members) (auto simp: snds.simps)
    moreover have "\<exists>s'. commas (map ?enc kvs) @ CHR ''}'' # r = QUOTE # s'" using Cons by (cases kvs') (auto simp: quoted_def)
    ultimately show ?thesis using f by auto
  qed (simp add: f)
next
  case (JNumber n)
  obtain c s where c: "dec n = c # s" "c = CHR ''-'' \<or> is_digit c" using dec_start by blast
  moreover from this(2) have "starts c \<and> c \<noteq> CHR ''['' \<and> c \<noteq> CHR ''{'' \<and> c \<noteq> QUOTE"
    using digit_starts by (auto simp: starts_def)
  ultimately show ?case
    using JNumber.prems parse_number_dec [of r n] by (cases f) (auto simp: skip_start)
next
  case (JString s)
  then show ?case by (cases f) (simp_all add: quoted_def parse_text_quoted)
qed (case_tac f; simp add: skip_def is_digit_def digit_value_def)+

lemma enc_text: "printable t \<Longrightarrow> NUL \<notin> set (enc t)"
proof (induction t)
  case (JArray js)
  have "NUL \<notin> set (commas xs)" if "\<forall>x \<in> set xs. NUL \<notin> set x" for xs
    using that by (induction xs rule: commas.induct) auto
  with JArray show ?case by simp
next
  case (JObject kvs)
  have "NUL \<notin> set (commas xs)" if "\<forall>x \<in> set xs. NUL \<notin> set x" for xs
    using that by (induction xs rule: commas.induct) auto
  with JObject show ?case by (auto simp: snds.simps quoted_no_NUL)
next
  case (JNumber n)
  then show ?case using digits_are [of 10 NUL] not_NUL_digit by (auto simp: dec_def)
qed (simp_all add: quoted_no_NUL)

section \<open>The library\<close>

definition sample_lib :: cjson_lib where
  "sample_lib =
     \<lparr>cJSON_GetObjectItem = \<lambda>j k. (case j of JObject kvs \<Rightarrow> map_option snd (find (\<lambda>kv. same_name (fst kv) k) kvs)
        | _ \<Rightarrow> None),
      cJSON_AddItemToObject = \<lambda>j k v. (case j of JObject kvs \<Rightarrow> JObject (kvs @ [(k, v)]) | _ \<Rightarrow> j),
      cJSON_GetArraySize = \<lambda>j. (case j of JArray js \<Rightarrow> length js | JObject kvs \<Rightarrow> length kvs | _ \<Rightarrow> 0),
      cJSON_GetArrayItem = \<lambda>j i. (case j of JArray js \<Rightarrow> if i < length js then Some (js ! i) else None | _ \<Rightarrow> None),
      cJSON_AddItemToArray = \<lambda>j v. (case j of JArray js \<Rightarrow> JArray (js @ [v]) | _ \<Rightarrow> j),
      cJSON_Print = enc,
      cJSON_Parse = \<lambda>s. map_option fst (parse (2 * length s + 1) s)\<rparr>"

lemma object_cases: "is_object j \<Longrightarrow> \<exists>kvs. j = JObject kvs"
  by (cases j) auto

lemma array_cases: "is_array j \<Longrightarrow> \<exists>js. j = JArray js"
  by (cases j) auto

lemma sample_tree: "cjson_tree sample_lib"
  by (auto simp: cjson_tree_def sample_lib_def find_app nth_append less_Suc_eq dest!: object_cases array_cases
      split: option.splits)

lemma sample_text: "cjson_text sample_lib"
proof -
  have "parse (Suc (2 * length (enc t))) (enc t) = Some (t, [])" if "printable t" for t
    using parse_enc [OF that, of "[]" "Suc (2 * length (enc t))"] by (simp del: parse.simps)
  then show ?thesis by (simp add: cjson_text_def sample_lib_def enc_text del: parse.simps)
qed

end
