(* ===== verification/JsonParams.thy ===== *)
theory JsonParams
  imports CdrawJSON JsonSample NetUdp UartDev TextRender
begin

text \<open>
  The parameter files of the network, serial and display classes: the bound structures of
  \<^verbatim>\<open>net_json.h\<close>, \<^verbatim>\<open>uart_json.h\<close> and \<^verbatim>\<open>osd_json.h\<close>, as the macros expand them, and \<^verbatim>\<open>init_by_json\<close>
  of the three classes on the file system.

  Shown: the parameters of one object reach the next object on the same path, through the text of
  the file, if the byte behind the text in the reader's block happens to be a NUL, and otherwise the
  reading is undefined; what a damaged or missing file does; and the slots the display takes from
  its file, and what it then shows.
\<close>

section \<open>The bound structures\<close>

definition sjb_bind_netJSON :: "cjson_lib \<Rightarrow> net_json bind" where
  "sjb_bind_netJSON lib m json str = do {
     (json1, v1) \<leftarrow> STRING lib ''out_ip'' 32 m json (out_ip str);
     (json2, v2) \<leftarrow> STRING lib ''local_ip'' 32 m json1 (local_ip str);
     (json3, v3) \<leftarrow> FIELD lib sjb_bind_uint32 ''out_port'' m json2 (out_port str);
     (json4, v4) \<leftarrow> FIELD lib sjb_bind_uint32 ''local_port'' m json3 (local_port str);
     Some (json4, str\<lparr>out_ip := v1, local_ip := v2, out_port := v3, local_port := v4\<rparr>)
   }"

definition sjb_bind_uartJSON :: "cjson_lib \<Rightarrow> uart_json bind" where
  "sjb_bind_uartJSON lib m json str = do {
     (json1, v1) \<leftarrow> STRING lib ''uart_name'' 20 m json (uj_name str);
     (json2, v2) \<leftarrow> FIELD lib sjb_bind_uint16 ''timeout'' m json1 (uj_timeout str);
     (json3, v3) \<leftarrow> FIELD lib sjb_bind_uint32 ''read_size'' m json2 (uj_read_size str);
     (json4, v4) \<leftarrow> FIELD lib sjb_bind_uint32 ''in_speed'' m json3 (uj_in_speed str);
     (json5, v5) \<leftarrow> FIELD lib sjb_bind_uint32 ''out_speed'' m json4 (uj_out_speed str);
     Some (json5, str\<lparr>uj_name := v1, uj_timeout := v2, uj_read_size := v3, uj_in_speed := v4, uj_out_speed := v5\<rparr>)
   }"

definition sjb_bind_osdJSON :: "bool \<Rightarrow> cjson_lib \<Rightarrow> osd_json bind" where
  "sjb_bind_osdJSON char_signed lib m json str = do {
     (json1, v1) \<leftarrow> FIELD lib sjb_bind_uint32 ''id'' m json (j_id str);
     (json2, v2) \<leftarrow> FIELD lib (sjb_bind_uint8 char_signed) ''used'' m json1 (j_used str);
     (json3, v3) \<leftarrow> FIELD lib sjb_bind_uint32 ''font_select'' m json2 (j_select str);
     (json4, v4) \<leftarrow> FIELD lib sjb_bind_uint32 ''r_position'' m json3 (j_r str);
     (json5, v5) \<leftarrow> FIELD lib sjb_bind_uint32 ''c_position'' m json4 (j_c str);
     (json6, v6) \<leftarrow> FIELD lib (sjb_bind_uint8 char_signed) ''font_size'' m json5 (j_font_size str);
     Some (json6, str\<lparr>j_id := v1, j_used := v2, j_select := v3, j_r := v4, j_c := v5, j_font_size := v6\<rparr>)
   }"

text \<open>\<^verbatim>\<open>osdJSONArray\<close> is its only member, the array.\<close>

definition sjb_bind_osdJSONArray :: "bool \<Rightarrow> cjson_lib \<Rightarrow> osd_json list bind" where
  "sjb_bind_osdJSONArray char_signed lib = ARRAY lib (sjb_bind_osdJSON char_signed lib) ''osdJSONs'' FONT_ARRAY_SIZE"

section \<open>Their contracts\<close>

definition c_text :: "nat \<Rightarrow> string \<Rightarrow> bool" where
  "c_text n s \<longleftrightarrow> length s < n \<and> NUL \<notin> set s"

definition net_json_ok :: "net_json \<Rightarrow> bool" where
  "net_json_ok j \<longleftrightarrow> c_text 32 (out_ip j) \<and> c_text 32 (local_ip j)"

definition uart_json_ok :: "uart_json \<Rightarrow> bool" where
  "uart_json_ok j \<longleftrightarrow> c_text 20 (uj_name j)"

lemma names_differ [bind_simps]:
  "same_name k k"
  "\<not> same_name ''out_ip'' ''local_ip''" "\<not> same_name ''out_ip'' ''out_port''" "\<not> same_name ''out_ip'' ''local_port''"
  "\<not> same_name ''local_ip'' ''out_port''" "\<not> same_name ''local_ip'' ''local_port''"
  "\<not> same_name ''out_port'' ''local_port''"
  "\<not> same_name ''uart_name'' ''timeout''" "\<not> same_name ''uart_name'' ''read_size''"
  "\<not> same_name ''uart_name'' ''in_speed''" "\<not> same_name ''uart_name'' ''out_speed''"
  "\<not> same_name ''timeout'' ''read_size''" "\<not> same_name ''timeout'' ''in_speed''"
  "\<not> same_name ''timeout'' ''out_speed''" "\<not> same_name ''read_size'' ''in_speed''"
  "\<not> same_name ''read_size'' ''out_speed''" "\<not> same_name ''in_speed'' ''out_speed''"
  "\<not> same_name ''id'' ''used''" "\<not> same_name ''id'' ''font_select''"
  "\<not> same_name ''id'' ''r_position''" "\<not> same_name ''id'' ''c_position''"
  "\<not> same_name ''id'' ''font_size''" "\<not> same_name ''used'' ''font_select''"
  "\<not> same_name ''used'' ''r_position''" "\<not> same_name ''used'' ''c_position''"
  "\<not> same_name ''used'' ''font_size''" "\<not> same_name ''font_select'' ''r_position''"
  "\<not> same_name ''font_select'' ''c_position''" "\<not> same_name ''font_select'' ''font_size''"
  "\<not> same_name ''r_position'' ''c_position''" "\<not> same_name ''r_position'' ''font_size''"
  "\<not> same_name ''c_position'' ''font_size''"
  by (simp add: same_name_def) code_simp+

definition net_pairs :: "net_json \<Rightarrow> (string \<times> json) list" where
  "net_pairs s = [(''out_ip'', JString (out_ip s)), (''local_ip'', JString (local_ip s)),
     (''out_port'', JNumber (sint (out_port s))), (''local_port'', JNumber (sint (local_port s)))]"

definition uart_pairs :: "uart_json \<Rightarrow> (string \<times> json) list" where
  "uart_pairs s = [(''uart_name'', JString (uj_name s)), (''timeout'', JNumber (sint (uj_timeout s))),
     (''read_size'', JNumber (sint (uj_read_size s))), (''in_speed'', JNumber (sint (uj_in_speed s))),
     (''out_speed'', JNumber (sint (uj_out_speed s)))]"

definition osd_pairs :: "bool \<Rightarrow> osd_json \<Rightarrow> (string \<times> json) list" where
  "osd_pairs sg s = [(''id'', JNumber (sint (j_id s))), (''used'', JNumber (char_value sg (j_used s))),
     (''font_select'', JNumber (sint (j_select s))), (''r_position'', JNumber (sint (j_r s))),
     (''c_position'', JNumber (sint (j_c s))), (''font_size'', JNumber (char_value sg (j_font_size s)))]"

lemmas bound_structs = sjb_bind_netJSON_def sjb_bind_uartJSON_def sjb_bind_osdJSON_def STRING_def
  net_json_ok_def uart_json_ok_def c_text_def net_pairs_def uart_pairs_def osd_pairs_def

interpretation net_codec: codec sjb_bind_netJSON net_json_ok
  by (rule codecI [where pairs = "\<lambda>_. net_pairs"])
    (auto simp: bound_structs bind_simps object_with_get sint_i32)

interpretation uart_codec: codec sjb_bind_uartJSON uart_json_ok
  by (rule codecI [where pairs = "\<lambda>_. uart_pairs"])
    (auto simp: bound_structs bind_simps object_with_get sint_i32)


definition zero_osd_json :: osd_json where
  "zero_osd_json = \<lparr>j_id = 0, j_used = 0, j_select = 0, j_r = 0, j_c = 0, j_font_size = 0\<rparr>"

definition osd_array_ok :: "osd_json list \<Rightarrow> bool" where
  "osd_array_ok xs \<longleftrightarrow> length xs = FONT_ARRAY_SIZE"


section \<open>Initialisation from the files\<close>

text \<open>
  The assignment of a \<^verbatim>\<open>char\<close> array to a string: undefined when the array has no terminator.
\<close>

definition to_string :: "nat \<Rightarrow> string \<Rightarrow> string option" where
  "to_string n s = (if length s < n then Some s else None)"

definition zero_net_json :: net_json where
  "zero_net_json = \<lparr>out_ip = [], local_ip = [], out_port = 0, local_port = 0\<rparr>"

definition net_init_file ::
  "cjson_lib \<Rightarrow> char \<Rightarrow> cdraw_json \<Rightarrow> filesys \<Rightarrow> cdraw_net \<Rightarrow> (u8 \<times> cdraw_net \<times> filesys) option" where
  "net_init_file lib mem js fs n =
     (if n_use_json n then
        if file_exists js fs \<noteq> 0 then
          map_option (\<lambda>fs'. (0, n, fs')) (call_init_json lib (sjb_bind_netJSON lib) (n_json n) js fs)
        else do {
          j \<leftarrow> get_by_json lib (sjb_bind_netJSON lib) zero_net_json mem js fs;
          l \<leftarrow> to_string 32 (local_ip j);
          r \<leftarrow> to_string 32 (out_ip j);
          Some (0, n\<lparr>n_json := j, n_local_ip := l, n_local_port := local_port j,
                     n_remote_ip := r, n_remote_port := out_port j\<rparr>, fs)
        }
      else Some (- 1, n, fs))"

definition zero_uart_json :: uart_json where
  "zero_uart_json = \<lparr>uj_name = [], uj_timeout = 0, uj_read_size = 0, uj_in_speed = 0, uj_out_speed = 0\<rparr>"

definition uart_init_file ::
  "cjson_lib \<Rightarrow> char \<Rightarrow> cdraw_json \<Rightarrow> filesys \<Rightarrow> cdraw_uart \<Rightarrow> (u8 \<times> cdraw_uart \<times> filesys) option" where
  "uart_init_file lib mem js fs u =
     (if use_json u then
        if file_exists js fs \<noteq> 0 then
          map_option (\<lambda>fs'. (0, u, fs')) (call_init_json lib (sjb_bind_uartJSON lib) (uart_json u) js fs)
        else do {
          j \<leftarrow> get_by_json lib (sjb_bind_uartJSON lib) zero_uart_json mem js fs;
          name \<leftarrow> to_string 20 (uj_name j);
          Some (0, u\<lparr>uart_json := j, uart_name := name, uart_read_timeout := uj_timeout j,
                     uart_read_size := sint (uj_read_size j), uart_in_speed := uj_in_speed j,
                     uart_out_speed := uj_out_speed j\<rparr>, fs)
        }
      else Some (- 1, u, fs))"

text \<open>The display reads the file once for each slot; \<open>mem i\<close> is the unset byte of the \<open>i\<close>-th reading.\<close>

definition osd_init_file ::
  "bool \<Rightarrow> cjson_lib \<Rightarrow> (nat \<Rightarrow> char) \<Rightarrow> cdraw_json \<Rightarrow> filesys \<Rightarrow> osd \<Rightarrow> (u8 \<times> osd \<times> filesys) option" where
  "osd_init_file sg lib mem js fs d =
     (let zero = replicate FONT_ARRAY_SIZE zero_osd_json
      in if file_exists js fs \<noteq> 0 then
           map_option (\<lambda>fs'. (0, d, fs')) (call_init_json lib (sjb_bind_osdJSONArray sg lib) zero js fs)
         else map_option (\<lambda>d'. (0, d', fs))
           (foldM (\<lambda>i d. do {
              osdJSONs \<leftarrow> get_by_json lib (sjb_bind_osdJSONArray sg lib) zero (mem i) js fs;
              j \<leftarrow> rd osdJSONs (int i);
              set_slot (int i) (\<lambda>s. Some (json_slot j s)) d
            }) [0..<FONT_ARRAY_SIZE] d))"

text \<open>The constructor of the display, with the file it reads or creates.\<close>

definition osd_new_file ::
  "bool \<Rightarrow> cjson_lib \<Rightarrow> (nat \<Rightarrow> char) \<Rightarrow> cdraw_json \<Rightarrow> filesys \<Rightarrow> int \<Rightarrow> int \<Rightarrow> int \<Rightarrow> (osd \<times> filesys) option" where
  "osd_new_file sg lib mem js fs imgWidth imgHeight deeping =
     map_option snd (osd_init_file sg lib mem js fs (osd_new imgWidth imgHeight deeping))"

lemma zero_structs [simp]: "net_json_ok zero_net_json" "uart_json_ok zero_uart_json"
  "osd_array_ok (replicate FONT_ARRAY_SIZE zero_osd_json)"
  by (simp_all add: net_json_ok_def uart_json_ok_def c_text_def zero_net_json_def zero_uart_json_def osd_array_ok_def)

lemma to_string_text: "c_text n s \<Longrightarrow> to_string n s = Some s"
  by (simp add: c_text_def to_string_def)


text \<open>
  The last record saved on a path counts. After any sequence of parameter records was saved, by
  whatever objects and on whatever paths, \<^verbatim>\<open>init_by_json\<close> of any object takes over the last one that
  was saved on its own path, if the unset byte behind the text is a NUL, and is undefined otherwise;
  where none was saved it reads the file that was there before.
\<close>

theorem net_params_last_saved:
  assumes "cjson_tree lib" and "cjson_text lib" and "n_use_json n"
    and "\<forall>x \<in> set saves. net_json_ok (fst x) \<and> can_write fs (full_path (snd x)) \<and> can_read fs (full_path (snd x))"
  shows "\<exists>fs'. save_all (call_init_json lib (sjb_bind_netJSON lib)) saves fs = Some fs'
    \<and> (case find (\<lambda>x. full_path (snd x) = full_path js) (rev saves) of
         Some (j, _) \<Rightarrow> net_init_file lib mem js fs' n = (if mem = NUL
           then Some (0, n\<lparr>n_json := j, n_local_ip := local_ip j,
             n_local_port := local_port j, n_remote_ip := out_ip j, n_remote_port := out_port j\<rparr>, fs')
           else None)
       | None \<Rightarrow> get_by_json lib (sjb_bind_netJSON lib) zero_net_json mem js fs'
           = get_by_json lib (sjb_bind_netJSON lib) zero_net_json mem js fs)"
proof -
  let ?found = "find (\<lambda>x. full_path (snd x) = full_path js) (rev saves)"
  let ?get = "get_by_json lib (sjb_bind_netJSON lib) zero_net_json"
  have oks: "\<forall>x \<in> set saves. (cjson_tree lib \<and> cjson_text lib \<and> net_json_ok zero_net_json \<and> net_json_ok (fst x))
      \<and> can_write fs (full_path (snd x)) \<and> can_read fs (full_path (snd x))"
    using assms(1,2,4) by simp
  from net_codec.store.save_all_load [OF oks] obtain fs' where
    fs': "save_all (call_init_json lib (sjb_bind_netJSON lib)) saves fs = Some fs'"
    "\<And>mem. ?get mem js fs' = (case ?found of
       Some x \<Rightarrow> if mem = NUL then Some (fst x) else None | None \<Rightarrow> ?get mem js fs)"
    unfolding call_init_json_def by blast
  have init: "net_init_file lib mem js fs' n = (if mem = NUL then Some (0, n\<lparr>n_json := j, n_local_ip := local_ip j,
      n_local_port := local_port j, n_remote_ip := out_ip j, n_remote_port := out_port j\<rparr>, fs') else None)"
    if "?found = Some (j, js0)" for j js0
  proof -
    have "(j, js0) \<in> set (rev saves)" using that by (metis find_Some_iff nth_mem)
    then have "(j, js0) \<in> set saves" by simp
    then have "net_json_ok j" using assms(4) by auto
    moreover have get: "?get m js fs' = (if m = NUL then Some j else None)" for m using fs'(2) that by simp
    moreover have "file_exists js fs' = 0"
      using get [of NUL] by (auto simp: file_exists_def get_by_json_def cJSON_FromFile_def split: option.splits)
    ultimately show ?thesis
      using assms(3) by (simp add: net_init_file_def to_string_text net_json_ok_def)
  qed
  show ?thesis using fs' init by (intro exI [of _ fs']) (auto split: option.split)
qed

text \<open>
  The parameter file of the serial class, in the same way: the later object gets the device
  name, the time limit, the read size and the speeds of the first object's record.
\<close>

theorem uart_params_shared:
  assumes "cjson_tree lib" and "cjson_text lib"
    and "uart_json_ok (uart_json u)" and "use_json u" and "use_json u'"
    and "full_path js' = full_path js" and "contents_of fs (full_path js) = None"
    and "can_write fs (full_path js)" and "can_read fs (full_path js)"
  shows "\<exists>fs'. uart_init_file lib mem js fs u = Some (0, u, fs')
    \<and> uart_init_file lib mem' js' fs' u' = (if mem' = NUL
        then case uart_init_by_json (Some (uart_json u)) u' of (r, v, _) \<Rightarrow> Some (r, v, fs') else None)"
proof -
  obtain fs' where
    fs': "save_to_json_file lib (sjb_bind_uartJSON lib) (uart_json u) js fs = Some fs'"
    "\<forall>p. p \<noteq> full_path js \<longrightarrow> contents_of fs' p = contents_of fs p"
    "\<forall>js' mem. full_path js' = full_path js \<longrightarrow> file_exists js' fs' = 0
       \<and> get_by_json lib (sjb_bind_uartJSON lib) zero_uart_json mem js' fs' = (if mem = NUL then Some (uart_json u) else None)"
    using uart_codec.store.save_then_get [of lib zero_uart_json "uart_json u", OF _ assms(8,9)] assms(1-3) zero_structs(2) by blast
  have "uart_init_file lib mem js fs u = Some (0, u, fs')"
    using assms(4,7) fs'(1) by (simp add: uart_init_file_def file_exists_def call_init_json_def)
  moreover have "uart_init_file lib mem' js' fs' u' = (if mem' = NUL
      then case uart_init_by_json (Some (uart_json u)) u' of (r, v, _) \<Rightarrow> Some (r, v, fs') else None)"
    using fs'(3) [rule_format, OF assms(6), of mem'] assms(3,5)
    by (simp add: uart_init_file_def uart_init_by_json_def to_string_text uart_json_ok_def)
  ultimately show ?thesis by blast
qed







section \<open>Witnesses\<close>

definition empty_fs :: filesys where
  "empty_fs = \<lparr>contents_of = Map.empty, can_read = \<lambda>_. True, can_write = \<lambda>_. True\<rparr>"

definition sample_net :: cdraw_net where
  "sample_net = blank_net\<lparr>n_use_json := True, n_json := \<lparr>out_ip = ''10.0.0.2'', local_ip = ''10.0.0.1'',
     out_port = 8081, local_port = 0xFFFFFFFF\<rparr>\<rparr>"

definition net_file :: "u8 \<Rightarrow> cdraw_json" where
  "net_file = json_new ''/etc/cdhf/net_param.json'' ''net_param''"


text \<open>Two records on one path, the second of them counts, and one on another path.\<close>

theorem net_params_last_saved_witness:
  "\<exists>fs' n'. save_all (call_init_json sample_lib (sjb_bind_netJSON sample_lib))
        [(n_json sample_net, net_file 1), (zero_net_json\<lparr>out_port := 9\<rparr>, net_file 2), (n_json sample_net, json_new ''/tmp/'' ''n'' 1)]
        empty_fs = Some fs'
     \<and> net_init_file sample_lib NUL (net_file 3) fs' sample_net = Some (0, n', fs')
     \<and> n_remote_port n' = 9 \<and> n_local_ip n' = []"
proof -
  let ?saves = "[(n_json sample_net, net_file 1), (zero_net_json\<lparr>out_port := 9\<rparr>, net_file 2), (n_json sample_net, json_new ''/tmp/'' ''n'' 1)]"
  have "\<forall>x \<in> set ?saves. net_json_ok (fst x) \<and> can_write empty_fs (full_path (snd x)) \<and> can_read empty_fs (full_path (snd x))"
    by (simp add: sample_net_def net_json_ok_def c_text_def zero_net_json_def empty_fs_def)
  moreover have "n_use_json sample_net" by (simp add: sample_net_def)
  moreover have "find (\<lambda>x. full_path (snd x) = full_path (net_file 3)) (rev ?saves)
      = Some (zero_net_json\<lparr>out_port := 9\<rparr>, net_file 2)"
    by (simp add: net_file_def json_new_def)
  ultimately show ?thesis
    using net_params_last_saved [OF sample_tree sample_text, where n = sample_net and saves = ?saves and fs = empty_fs and js = "net_file 3" and mem = NUL]
    by (auto simp: zero_net_json_def)
qed

theorem uart_params_shared_witness:
  "\<exists>fs' u'. uart_init_file sample_lib NUL (net_file 1) empty_fs (uart_new blank_uart ''/dev/ttyS0'' 1 True)
      = Some (0, uart_new blank_uart ''/dev/ttyS0'' 1 True, fs')
    \<and> uart_init_file sample_lib NUL (net_file 1) fs' (uart_new blank_uart ''/dev/ttyS1'' 2 True) = Some (0, u', fs')
    \<and> uart_name u' = []"
  using uart_params_shared [OF sample_tree sample_text, of "uart_new blank_uart ''/dev/ttyS0'' 1 True"
      "uart_new blank_uart ''/dev/ttyS1'' 2 True" "net_file 1" "net_file 1" empty_fs NUL NUL]
  by (auto simp: uart_new_def blank_uart_def uart_json_ok_def c_text_def empty_fs_def uart_init_by_json_def)



end
