(* ===== verification/DrawLoop.thy ===== *)
theory DrawLoop
  imports OsdDraw TextRender JsonParams Modeset
begin

text \<open>
  The demonstration \<^verbatim>\<open>modeset_draw\<close> and the \<^verbatim>\<open>main\<close> of \<^verbatim>\<open>test-drm-full.cc\<close>; of the former, one definition per part of its loop: the
  moving box, the rule, the status line, the number line, the rendering and the copy to the mapped
  framebuffers. FreeType, the contents of fresh memory, the order of the work items and the
  background image are fields of \<open>denv\<close>; a mapping is its bytes. \<open>None\<close> is undefined behaviour.

  Shown: the box stays inside of the image for the whole animation; where the status line puts its
  characters; that the number line writes outside of the slot array in the first iteration, so that
  the function has no defined run; and what this makes of the program: it returns from a card that
  cannot be opened or read, with everything released, and has no defined run on any other.
\<close>

record draw_env =
  de_glyph :: freetype
  de_box_mem :: "int \<Rightarrow> nat \<Rightarrow> u8"
  de_yaw_mem :: "int \<Rightarrow> nat \<Rightarrow> u8"
  de_cross_mem :: "nat \<Rightarrow> u8"
  de_file :: "u8 list"
  de_origin_mem :: "nat \<Rightarrow> u8"
  de_sched :: "int \<Rightarrow> (int \<times> int) list"
  de_late :: bool

definition IMG_WIDTH :: int where "IMG_WIDTH = 1920"
definition IMG_HEIGHT :: int where "IMG_HEIGHT = 1080"
definition IMG_DEEP :: int where "IMG_DEEP = 4"

section \<open>The parts of an iteration\<close>

text \<open>The static variables of the box, and the two counters.\<close>

record draw_state =
  box_r_position :: int
  box_c_position :: int
  box_width :: int
  box_rows :: int
  integer_num :: int
  decimal_num :: int

definition draw_start :: draw_state where
  "draw_start = \<lparr>box_r_position = 450, box_c_position = 900, box_width = 50, box_rows = 50,
     integer_num = 200, decimal_num = 0\<rparr>"

definition count_up :: "int \<Rightarrow> draw_state \<Rightarrow> draw_state" where
  "count_up num st = st\<lparr>integer_num := (if num mod 20 = 0 then integer_num st + 1 else integer_num st),
     decimal_num := decimal_num st + 1\<rparr>"

definition move_box :: "int \<Rightarrow> draw_state \<Rightarrow> draw_state" where
  "move_box num st =
     (let st1 = (if box_width st > 800 \<or> box_rows st > 1200
                 then st\<lparr>box_width := 50, box_rows := 50, box_r_position := 450, box_c_position := 900\<rparr> else st);
          st2 = st1\<lparr>box_width := box_width st1 + 1, box_rows := box_rows st1 + 1\<rparr>
      in if num mod 2 = 0
         then st2\<lparr>box_r_position := box_r_position st2 - 1, box_c_position := box_c_position st2 - 1\<rparr>
         else st2)"

definition put_box :: "draw_env \<Rightarrow> int \<Rightarrow> draw_state \<Rightarrow> osd \<Rightarrow> osd option" where
  "put_box denv num st d = do {
     box_buf \<leftarrow> draw_box (img_width d) (img_height d) (de_box_mem denv num) (box_width st) (box_rows st) 3 1;
     create_font_add_array (de_glyph denv) 0 0 (box_r_position st) (box_c_position st)
       (word_of_int (box_width st * box_rows st)) box_buf (word_of_int (box_width st)) (word_of_int (box_rows st)) d
   }"

definition put_yaw :: "draw_env \<Rightarrow> int \<Rightarrow> osd \<Rightarrow> osd option" where
  "put_yaw denv num d =
     (let yaw_width = to_i32 (img_width d - 400 * 2); yaw_rows = 9
      in do {
        yaw_buf \<leftarrow> draw_yaw_rule (img_width d) (img_height d) (de_yaw_mem denv num) yaw_width yaw_rows 3;
        create_font_add_array (de_glyph denv) 1 0 50 400 (word_of_int (yaw_width * yaw_rows)) yaw_buf
          (word_of_int yaw_width) (word_of_int yaw_rows) d
      })"

text \<open>The code points of the status text, two characters that alternate in groups.\<close>

definition wstr :: "int list" where
  "wstr = [21457, 21457, 21457, 23556, 20987, 21457, 21457, 23556, 20987, 21457, 21457, 23556, 21457,
     21457, 23556, 20987, 21457, 21457, 23556, 20987, 21457, 21457, 23556, 20987, 21457, 21457, 23556,
     20987, 21457, 21457, 23556, 20987, 21457, 21457, 23556, 20987, 21457, 21457, 23556, 20987, 21457]"

text \<open>One character of the status line: the position is part of the loop's state.\<close>

definition status_step :: "draw_env \<Rightarrow> int \<Rightarrow> int \<Rightarrow> int \<times> int \<times> osd \<Rightarrow> (int \<times> int \<times> osd) option" where
  "status_step denv num l = (\<lambda>(r, c, d).
     let (num_base, r1, c1) = (if num mod 20 = 0 then (2, r + 50, 100) else (0, r, c)); c2 = c1 + 50
     in do {
       ch \<leftarrow> rd wstr (num_base + l);
       d' \<leftarrow> create_font_add_array (de_glyph denv) l ch r1 c2 50 [] 0 0 d;
       Some (r1, c2, d')
     })"

definition put_status :: "draw_env \<Rightarrow> int \<Rightarrow> osd \<Rightarrow> osd option" where
  "put_status denv num d =
     map_option (\<lambda>(_, _, d'). d') (for_range 3 30 (status_step denv num) (300, 100, d))"

text \<open>
  One character of the number line, in slot \<open>l\<close>. The column grows by \<open>halves / 2\<close> times the width of
  slot \<^verbatim>\<open>l - 1\<close>; C++ leaves open whether the argument that reads it is evaluated before or after the
  argument \<^verbatim>\<open>l++\<close> (\<open>de_late\<close>).
\<close>

definition number_step :: "draw_env \<Rightarrow> int \<Rightarrow> int \<Rightarrow> int \<Rightarrow> int \<times> int \<times> osd \<Rightarrow> (int \<times> int \<times> osd) option" where
  "number_step denv ch r halves = (\<lambda>(l, c, d). do {
     s \<leftarrow> rd (slots d) (if de_late denv then l else l - 1);
     c' \<leftarrow> chk32 ((2 * c + halves * f_width s) div 2);
     d' \<leftarrow> create_font_add_array (de_glyph denv) l ch r c' 30 [] 0 0 d;
     Some (l + 1, c', d')
   })"

text \<open>The first character of \<^verbatim>\<open>std::to_string\<close> of a number between 0 and 9.\<close>

definition digit :: "int \<Rightarrow> int" where
  "digit n = 48 + n"

definition put_numbers :: "draw_env \<Rightarrow> draw_state \<Rightarrow> osd \<Rightarrow> osd option" where
  "put_numbers denv st d = do {
     s1 \<leftarrow> number_step denv (digit (integer_num st div 100 mod 10)) 300 3 (30, 1600, d);
     s2 \<leftarrow> number_step denv (digit (integer_num st div 10 mod 10)) 300 3 s1;
     s3 \<leftarrow> number_step denv (digit (integer_num st mod 10)) 300 3 s2;
     s4 \<leftarrow> number_step denv 46 (300 + 30 - 10) 7 s3;
     s5 \<leftarrow> number_step denv (digit (decimal_num st div 100 mod 10)) 300 3 s4;
     s6 \<leftarrow> number_step denv (digit (decimal_num st div 10 mod 10)) 300 3 s5;
     (_, _, d') \<leftarrow> number_step denv (digit (decimal_num st mod 10)) 300 3 s6;
     Some d'
   }"

text \<open>\<^verbatim>\<open>memcpy\<close> of the whole image to one mapping.\<close>

definition show_image :: "osd \<Rightarrow> u8 list \<Rightarrow> u8 list option" where
  "show_image d m =
     (if nat (buffer_size d) \<le> length m \<and> nat (buffer_size d) \<le> length (image_buffer d)
      then Some (take (nat (buffer_size d)) (image_buffer d) @ drop (nat (buffer_size d)) m) else None)"

section \<open>The function\<close>

text \<open>
  \<^verbatim>\<open>originBuf\<close>: a block of \<^verbatim>\<open>buffer_size_\<close> bytes; what \<^verbatim>\<open>read\<close> delivers of the image file
  (\<open>de_file\<close>, nothing on an error) fills its start.
\<close>

definition origin_buf :: "draw_env \<Rightarrow> osd \<Rightarrow> u8 list" where
  "origin_buf denv d =
     (let r_size = min (length (de_file denv)) (nat (IMG_WIDTH * IMG_HEIGHT * IMG_DEEP))
      in map (\<lambda>k. if k < r_size then de_file denv ! k else de_origin_mem denv k) [0..<nat (buffer_size d)])"

definition draw_iter :: "draw_env \<Rightarrow> int \<Rightarrow> draw_state \<times> osd \<times> u8 list list \<Rightarrow> (draw_state \<times> osd \<times> u8 list list) option" where
  "draw_iter denv num = (\<lambda>(st, d, maps).
     let st1 = move_box num (count_up num st);
         d0 = d\<lparr>image_buffer := origin_buf denv d\<rparr>
     in do {
       d1 \<leftarrow> put_box denv num st1 d0;
       d2 \<leftarrow> put_yaw denv num d1;
       d3 \<leftarrow> put_status denv num d2;
       d4 \<leftarrow> put_numbers denv st1 d3;
       d5 \<leftarrow> process_font (de_sched denv num) d4;
       maps' \<leftarrow> those (map (show_image d5) maps);
       Some (st1, d5, maps')
     })"

definition modeset_draw ::
  "draw_env \<Rightarrow> bool \<Rightarrow> cjson_lib \<Rightarrow> (nat \<Rightarrow> char) \<Rightarrow> filesys \<Rightarrow> u8 list list \<Rightarrow> (draw_state \<times> osd \<times> u8 list list) option" where
  "modeset_draw denv sg lib mem fs maps = do {
     (clProcesser, _) \<leftarrow> osd_new_file sg lib mem (json_new ''/etc/cdhf/'' ''osd_param.json'' 0) fs
                          IMG_WIDTH IMG_HEIGHT IMG_DEEP;
     cross_buf \<leftarrow> draw_cross IMG_WIDTH IMG_HEIGHT (de_cross_mem denv) 200 200;
     for_range 0 5000 (draw_iter denv) (draw_start, clProcesser, maps)
   }"

section \<open>The program\<close>

text \<open>
  \<^verbatim>\<open>main\<close>: \<open>mapping\<close> gives the bytes behind the mapping of a device. The drawing makes no call of the
  graphics stack. A result is the exit value and the calls made; what the drawing leaves in the
  mappings is not kept, because the cleanup unmaps them.
\<close>

definition modeset_main ::
  "drm_env \<Rightarrow> draw_env \<Rightarrow> bool \<Rightarrow> cjson_lib \<Rightarrow> (nat \<Rightarrow> char) \<Rightarrow> filesys \<Rightarrow> (modeset_dev \<Rightarrow> u8 list) \<Rightarrow> mstate \<Rightarrow>
    (int \<times> mstate) option" where
  "modeset_main env denv sg lib mem fs mapping s =
     (case modeset_open env s of
        (Inl ret, s1) \<Rightarrow> Some (ret, s1)
      | (Inr fd, s1) \<Rightarrow>
          let (ret, s2) = modeset_prepare env s1
          in if ret \<noteq> 0 then Some (ret, call (Close fd) s2)
             else let (ds, h) = set_crtcs env (modeset_list s2) (calls s2)
                  in do {
                    _ \<leftarrow> modeset_draw denv sg lib mem fs (map mapping ds);
                    s3 \<leftarrow> modeset_cleanup env (s2\<lparr>calls := h, modeset_list := ds\<rparr>);
                    Some (0, call (Close fd) s3)
                  })"

section \<open>The slots of a display\<close>

lemma set_slot_length: "set_slot i f d = Some d' \<Longrightarrow> length (slots d') = length (slots d)"
  by (auto simp: set_slot_def dest!: wr_length split: bind_splits)

lemma osd_new_file_slots: "osd_new_file sg lib mem js fs w h deep = Some (d, fs') \<Longrightarrow> length (slots d) = 30"
proof -
  assume "osd_new_file sg lib mem js fs w h deep = Some (d, fs')"
  then obtain r where i: "osd_init_file sg lib mem js fs (osd_new w h deep) = Some (r, d, fs')"
    by (auto simp: osd_new_file_def)
  have new: "length (slots (osd_new w h deep)) = 30" by (simp add: osd_new_def Let_def FONT_ARRAY_SIZE_def)
  show "length (slots d) = 30"
  proof (cases "file_exists js fs = 0")
    case True
    with i obtain arrs where "foldM (\<lambda>i d. Option.bind (arrs i) (\<lambda>osdJSONs. Option.bind (rd osdJSONs (int i))
        (\<lambda>j. set_slot (int i) (\<lambda>s. Some (json_slot j s)) d))) [0..<FONT_ARRAY_SIZE] (osd_new w h deep) = Some d"
      by (auto simp: osd_init_file_def Let_def)
    then show ?thesis
      by (rule foldM_result [where P = "\<lambda>d. length (slots d) = 30"])
        (auto simp: new dest: set_slot_length split: bind_splits)
  qed (use i new in \<open>auto simp: osd_init_file_def Let_def\<close>)
qed

section \<open>The moving box\<close>

text \<open>The box that iteration \<open>n\<close> draws, from the static variables.\<close>

primrec boxes :: "nat \<Rightarrow> draw_state" where
  "boxes 0 = draw_start"
| "boxes (Suc n) = move_box (int n) (count_up (int n) (boxes n))"

definition box_inv :: "nat \<Rightarrow> draw_state \<Rightarrow> bool" where
  "box_inv n st \<longleftrightarrow> box_rows st = box_width st \<and> 50 \<le> box_width st \<and> box_width st \<le> 801
     \<and> 450 - box_r_position st = 900 - box_c_position st \<and> box_r_position st \<le> 450
     \<and> 2 * (450 - box_r_position st) \<le> box_width st - 50 + int (n mod 2)
     \<and> box_width st - 51 + int (n mod 2) \<le> 2 * (450 - box_r_position st)"

lemma boxes_inv: "box_inv n (boxes n)"
proof (induction n)
  case 0
  then show ?case by (simp add: box_inv_def draw_start_def)
next
  case (Suc n)
  show ?case
  proof (cases "even n")
    case True
    then have "int n mod 2 = 0" "n mod 2 = 0" "Suc n mod 2 = 1" by presburger+
    with Suc show ?thesis
      by (simp add: box_inv_def move_box_def count_up_def Let_def split: if_split)
  next
    case False
    then have "int n mod 2 = 1" "n mod 2 = 1" "Suc n mod 2 = 0" by presburger+
    with Suc show ?thesis
      by (simp add: box_inv_def move_box_def count_up_def Let_def split: if_split)
  qed
qed

lemma boxes_moved: "51 \<le> box_width (boxes (Suc n))"
  using boxes_inv [of n] by (auto simp: box_inv_def move_box_def count_up_def Let_def)

section \<open>The first parts of an iteration are defined\<close>

lemma image_1080: "image_ok 1920 1080"
  by (simp add: image_ok_def)

lemma word_small: "0 \<le> n \<Longrightarrow> n < 2 ^ 31 \<Longrightarrow> uint (word_of_int n :: u32) = n"
  by (simp add: uint_word_of_int)

text \<open>A slot filled in with a bitmap of the program that fits into the image.\<close>

lemma put_bitmap:
  assumes ok: "osd_ok d" and "0 \<le> i" "i < int FONT_ARRAY_SIZE" and b: "block_ok b w h"
    and pos: "0 \<le> r" "0 \<le> c" "r + h < 2 ^ 31" "c + w < 2 ^ 31" and fit: "w \<le> img_width d" "h \<le> img_height d"
  shows "\<exists>s. create_font_add_array glyph i 0 r c fsz b (word_of_int w) (word_of_int h) d
        = Some (d\<lparr>slots := (slots d)[nat i := s]\<rparr>)
    \<and> f_used s \<and> slot_ok s \<and> (f_r s, f_c s, f_width s, f_rows s) = (r, c, w, h) \<and> f_buf s = b"
proof -
  have u: "uint (word_of_int w :: u32) = w" "uint (word_of_int h :: u32) = h"
    using b by (simp_all add: word_small block_ok_def)
  have arg: "bitmap_arg_ok glyph 0 r c fsz b (word_of_int w) (word_of_int h)"
    unfolding bitmap_arg_ok_def using b pos u by simp
  from create_font_slot [OF ok assms(2,3) arg] show ?thesis
    using fit unfolding slot_bitmap_def u by auto
qed

lemma put_box_slot:
  assumes ok: "osd_ok d" and size: "img_width d = 1920" "img_height d = 1080" and inv: "box_inv n st"
  defines "w \<equiv> box_width st"
  shows "\<exists>s. put_box denv num st d = Some (d\<lparr>slots := (slots d)[0 := s]\<rparr>) \<and> slot_ok s \<and> f_used s
    \<and> (f_r s, f_c s, f_width s, f_rows s) = (box_r_position st, box_c_position st, w, w)
    \<and> f_buf s = overlay (pixels w w (box_pixel w w 3 1)) (malloc_bytes (de_box_mem denv num) w w)"
proof -
  have w: "50 \<le> w" "w \<le> 801" "box_rows st = w" using inv by (simp_all add: box_inv_def w_def)
  have pos: "0 \<le> box_r_position st" "box_r_position st \<le> 450" "0 \<le> box_c_position st" "box_c_position st \<le> 900"
    using inv by (auto simp: box_inv_def)
  let ?b = "overlay (pixels w w (box_pixel w w 3 1)) (malloc_bytes (de_box_mem denv num) w w)"
  have in32: "in_i32 w" using w by (simp add: in_i32_def)
  have dims: "clamp_dim 1920 w = w" "clamp_dim 1080 w = w"
    using w by (simp_all add: clamp_dim_eq [OF in32])
  have "draw_box 1920 1080 (de_box_mem denv num) w w 3 1 = Some ?b"
    using box_picture [OF image_1080 in32 in32, of "de_box_mem denv num" 3 1] by (simp add: dims)
  moreover have "block_ok ?b w w" using w mult_mono [of w 801 w 801] by (simp add: block_ok_def)
  then have "\<exists>s. create_font_add_array (de_glyph denv) 0 0 (box_r_position st) (box_c_position st)
        (word_of_int (w * w)) ?b (word_of_int w) (word_of_int w) d = Some (d\<lparr>slots := (slots d)[nat 0 := s]\<rparr>)
    \<and> f_used s \<and> slot_ok s \<and> (f_r s, f_c s, f_width s, f_rows s) = (box_r_position st, box_c_position st, w, w)
    \<and> f_buf s = ?b"
    using w pos size by (intro put_bitmap [OF ok]) (simp_all add: FONT_ARRAY_SIZE_def)
  ultimately show ?thesis
    by (auto simp: put_box_def size w(3) w_def [symmetric])
qed

lemma osd_ok_slot: "osd_ok d \<Longrightarrow> slot_ok s \<Longrightarrow> osd_ok (d\<lparr>slots := (slots d)[i := s]\<rparr>)"
  by (auto simp: osd_ok_def dest: set_update_subset_insert [THEN subsetD])

lemma put_yaw_slot:
  assumes ok: "osd_ok d" and size: "img_width d = 1920" "img_height d = 1080"
  shows "\<exists>s. put_yaw denv num d = Some (d\<lparr>slots := (slots d)[1 := s]\<rparr>) \<and> slot_ok s"
proof -
  let ?b = "overlay (pixels 1120 9 (yaw_pixel 1120 9 3)) (malloc_bytes (de_yaw_mem denv num) 1120 9)"
  have in32: "in_i32 1120" "in_i32 9" by (simp_all add: in_i32_def)
  have dims: "clamp_dim 1920 1120 = 1120" "clamp_dim 1080 9 = 9"
    by (simp_all add: clamp_dim_eq [OF in32(1)] clamp_dim_eq [OF in32(2)])
  have "draw_yaw_rule 1920 1080 (de_yaw_mem denv num) 1120 9 3 = Some ?b"
    using yaw_rule_picture [OF image_1080 in32, of "de_yaw_mem denv num" 3] by (simp add: dims)
  moreover have "\<exists>s. create_font_add_array (de_glyph denv) 1 0 50 400 (word_of_int (1120 * 9)) ?b
        (word_of_int 1120) (word_of_int 9) d = Some (d\<lparr>slots := (slots d)[nat 1 := s]\<rparr>)
    \<and> f_used s \<and> slot_ok s \<and> (f_r s, f_c s, f_width s, f_rows s) = (50, 400, 1120, 9) \<and> f_buf s = ?b"
    using size by (intro put_bitmap [OF ok]) (simp_all add: FONT_ARRAY_SIZE_def block_ok_def)
  ultimately show ?thesis
    by (auto simp: put_yaw_def size to_i32_def Let_def)
qed

section \<open>The status line\<close>

text \<open>Glyphs that FreeType renders within reason, for the two characters of the text.\<close>

definition glyphs_ok :: "freetype \<Rightarrow> bool" where
  "glyphs_ok glyph \<longleftrightarrow> (\<forall>ch \<in> set wstr. case glyph 50 (word_of_int ch) of (w, h, b) \<Rightarrow>
     block_ok b w h \<and> w < 2 ^ 30 \<and> h < 2 ^ 30)"

definition status_pos :: "int \<Rightarrow> int \<Rightarrow> int \<times> int" where
  "status_pos num l = (if num mod 20 = 0 then (300 + 50 * (l - 2), 150) else (300, 100 + 50 * (l - 2)))"

lemma status_glyph:
  assumes "glyphs_ok glyph" and "0 \<le> i" "i < 41" "0 \<le> r" "r < 2 ^ 20" "0 \<le> c" "c < 2 ^ 20"
  shows "bitmap_arg_ok glyph (wstr ! nat i) r c 50 [] 0 0"
proof -
  have len: "length wstr = 41" by (simp add: wstr_def)
  have mem: "wstr ! nat i \<in> set wstr" using assms(2,3) by (simp add: len)
  have "0 \<notin> set wstr" by (simp add: wstr_def)
  with mem have "wstr ! nat i \<noteq> 0" by metis
  moreover obtain w h b where g: "glyph 50 (word_of_int (wstr ! nat i)) = (w, h, b)" by (metis prod_cases3)
  moreover have "block_ok b w h" "w < 2 ^ 30" "h < 2 ^ 30"
    using assms(1) mem g by (auto simp: glyphs_ok_def)
  ultimately show ?thesis using assms by (simp add: bitmap_arg_ok_def)
qed

lemma status_loop:
  assumes ok: "osd_ok d" and glyphs: "glyphs_ok (de_glyph denv)" and "k \<le> 27"
  shows "\<exists>r c d'. for_range 3 (3 + int k) (status_step denv num) (300, 100, d) = Some (r, c, d')
    \<and> (r, c) = (if num mod 20 = 0 then (300 + 50 * int k, if k = 0 then 100 else 150) else (300, 100 + 50 * int k))
    \<and> osd_ok d' \<and> d' = d\<lparr>slots := slots d'\<rparr>
    \<and> (\<forall>i. i < 3 \<or> 3 + k \<le> i \<longrightarrow> slots d' ! i = slots d ! i)
    \<and> (\<forall>l. 3 \<le> l \<and> l < 3 + int k \<longrightarrow> f_used (slots d' ! nat l)
         \<and> (f_r (slots d' ! nat l), f_c (slots d' ! nat l)) = status_pos num l)"
  using assms(3)
proof (induction k)
  case 0
  then show ?case using ok by auto
next
  case (Suc k)
  then obtain r c d' where ih: "for_range 3 (3 + int k) (status_step denv num) (300, 100, d) = Some (r, c, d')"
    "(r, c) = (if num mod 20 = 0 then (300 + 50 * int k, if k = 0 then 100 else 150) else (300, 100 + 50 * int k))"
    "osd_ok d'" "d' = d\<lparr>slots := slots d'\<rparr>" "\<forall>i. i < 3 \<or> 3 + k \<le> i \<longrightarrow> slots d' ! i = slots d ! i"
    "\<forall>l. 3 \<le> l \<and> l < 3 + int k \<longrightarrow> f_used (slots d' ! nat l)
       \<and> (f_r (slots d' ! nat l), f_c (slots d' ! nat l)) = status_pos num l" by auto
  define base r1 c1 where "base = (if num mod 20 = 0 then 2 else 0 :: int)"
    and "r1 = (if num mod 20 = 0 then r + 50 else r)" and "c1 = (if num mod 20 = 0 then 100 else c) + 50"
  let ?l = "3 + int k"
  have pos: "(r1, c1) = status_pos num ?l" using ih(2) by (auto simp: r1_def c1_def status_pos_def split: if_splits)
  have rng: "0 \<le> r1" "r1 < 2 ^ 20" "0 \<le> c1" "c1 < 2 ^ 20" "0 \<le> base + ?l" "base + ?l < 41"
    using pos Suc.prems by (auto simp: status_pos_def base_def split: if_splits)
  have arg: "bitmap_arg_ok (de_glyph denv) (wstr ! nat (base + ?l)) r1 c1 50 [] 0 0"
    using rng by (intro status_glyph [OF glyphs])
  have "0 \<le> ?l" "?l < int FONT_ARRAY_SIZE" using Suc.prems by (simp_all add: FONT_ARRAY_SIZE_def)
  from create_font_slot [OF ih(3) this arg] obtain s where
    s: "create_font_add_array (de_glyph denv) ?l (wstr ! nat (base + ?l)) r1 c1 50 [] 0 0 d'
        = Some (d'\<lparr>slots := (slots d')[nat ?l := s]\<rparr>)" "f_used s" "f_r s = r1" "f_c s = c1" "slot_ok s" by blast
  have len: "length (slots d') = 30" using ih(3) by (simp add: osd_ok_def FONT_ARRAY_SIZE_def)
  have "length wstr = 41" by (simp add: wstr_def)
  then have step: "status_step denv num ?l (r, c, d') = Some (r1, c1, d'\<lparr>slots := (slots d')[nat ?l := s]\<rparr>)"
    using s(1) rng by (auto simp: status_step_def Let_def rd_in base_def r1_def c1_def)
  have frame: "d'\<lparr>slots := x\<rparr> = d\<lparr>slots := x\<rparr>" for x by (subst ih(4)) simp
  show ?case
  proof (intro exI conjI)
    show "d'\<lparr>slots := (slots d')[nat ?l := s]\<rparr> = d\<lparr>slots := slots (d'\<lparr>slots := (slots d')[nat ?l := s]\<rparr>)\<rparr>"
      by (simp add: frame)
    show "for_range 3 (3 + int (Suc k)) (status_step denv num) (300, 100, d)
        = Some (r1, c1, d'\<lparr>slots := (slots d')[nat ?l := s]\<rparr>)"
      using for_range_last [of 3 ?l "status_step denv num" "(300, 100, d)"] ih(1) step by (simp add: algebra_simps)
    show "osd_ok (d'\<lparr>slots := (slots d')[nat ?l := s]\<rparr>)" by (rule osd_ok_slot [OF ih(3) s(5)])
  qed (use ih(2,5,6) pos s len Suc.prems in \<open>auto simp: r1_def c1_def nth_list_update nat_add_distrib status_pos_def\<close>)
qed

lemma put_status_slots:
  assumes "osd_ok d" and "glyphs_ok (de_glyph denv)"
  shows "\<exists>d'. put_status denv num d = Some d' \<and> osd_ok d' \<and> d' = d\<lparr>slots := slots d'\<rparr>
    \<and> (\<forall>i < 3. slots d' ! i = slots d ! i)
    \<and> (\<forall>l. 3 \<le> l \<and> l < 30 \<longrightarrow> f_used (slots d' ! nat l)
         \<and> (f_r (slots d' ! nat l), f_c (slots d' ! nat l)) = status_pos num l)"
  using status_loop [OF assms, of 27 num] by (auto simp: put_status_def)

section \<open>The number line\<close>

lemma number_step_outside:
  assumes "length (slots d) = 30"
  shows "number_step denv ch r halves (30, c, d) = None"
  using assms by (auto simp: number_step_def create_font_add_array_def set_slot_out split: bind_splits)

lemma put_numbers_undefined: "length (slots d) = 30 \<Longrightarrow> put_numbers denv st d = None"
  by (simp add: put_numbers_def number_step_outside)

lemma create_length: "create_font_add_array glyph i sel r c fsz buf fw fr d = Some d' \<Longrightarrow> length (slots d') = length (slots d)"
  by (auto simp: create_font_add_array_def set_slot_def dest!: wr_length split: bind_splits)

lemma status_step_length:
  "status_step denv num l (r, c, d) = Some (r', c', d') \<Longrightarrow> length (slots d') = length (slots d)"
  by (cases "num mod 20 = 0") (auto simp: status_step_def Let_def dest: create_length split: bind_splits)

lemma put_lengths:
  "put_box denv num st d = Some d' \<Longrightarrow> length (slots d') = length (slots d)"
  "put_yaw denv num d = Some d' \<Longrightarrow> length (slots d') = length (slots d)"
  "put_status denv num d = Some d' \<Longrightarrow> length (slots d') = length (slots d)"
proof -
  show "put_box denv num st d = Some d' \<Longrightarrow> length (slots d') = length (slots d)"
    by (auto simp: put_box_def dest: create_length split: bind_splits)
  show "put_yaw denv num d = Some d' \<Longrightarrow> length (slots d') = length (slots d)"
    by (auto simp: put_yaw_def Let_def dest: create_length split: bind_splits)
  assume "put_status denv num d = Some d'"
  then obtain r c where "foldM (status_step denv num) [3..30 - 1] (300, 100, d) = Some (r, c, d')"
    by (auto simp: put_status_def for_range_def)
  then have "(\<lambda>(_, _, e). length (slots e) = length (slots d)) (r, c, d')"
    by (rule foldM_result) (use status_step_length in \<open>fastforce+\<close>)
  then show "length (slots d') = length (slots d)" by simp
qed

lemma draw_iter_undefined: "length (slots d) = 30 \<Longrightarrow> draw_iter denv num (st, d, maps) = None"
  by (auto simp: draw_iter_def Let_def put_numbers_undefined dest!: put_lengths split: bind_splits)

lemma draw_None: "modeset_draw denv sg lib mem fs maps = None"
  by (auto simp: modeset_draw_def for_range_first draw_iter_undefined dest!: osd_new_file_slots split: bind_splits)

section \<open>The animation\<close>

text \<open>
  C23: The box of the animation. Before every iteration, however many there were, the box is a square
  of at least 50 and at most 801 pixels, and the one that is drawn lies inside of the image; so,
  on a display of that size, drawing it and filling in slot 0 is defined, and the slot holds the
  frame of the box at its position.
\<close>

theorem box_stays_inside:
  fixes n :: nat
  assumes "osd_ok d" and "img_width d = 1920" and "img_height d = 1080"
  defines "st \<equiv> boxes (Suc n)"
  shows "51 \<le> box_width st \<and> box_width st \<le> 801 \<and> box_rows st = box_width st
    \<and> 74 \<le> box_r_position st \<and> box_r_position st + box_rows st \<le> 1080
    \<and> 524 \<le> box_c_position st \<and> box_c_position st + box_width st \<le> 1920
    \<and> (\<exists>s. put_box denv (int n) st d = Some (d\<lparr>slots := (slots d)[0 := s]\<rparr>) \<and> slot_ok s
        \<and> (f_r s, f_c s, f_width s, f_rows s) = (box_r_position st, box_c_position st, box_width st, box_width st)
        \<and> f_buf s = overlay (pixels (box_width st) (box_width st) (box_pixel (box_width st) (box_width st) 3 1))
             (malloc_bytes (de_box_mem denv (int n)) (box_width st) (box_width st)))"
proof -
  have inv: "box_inv (Suc n) st" unfolding st_def by (rule boxes_inv)
  have m: "0 \<le> int (Suc n mod 2)" "int (Suc n mod 2) \<le> 1" by simp_all
  have low: "51 \<le> box_width st" unfolding st_def by (rule boxes_moved)
  have "box_width st \<le> 801" "box_rows st = box_width st" "450 - box_r_position st = 900 - box_c_position st"
    "box_r_position st \<le> 450" "2 * (450 - box_r_position st) \<le> box_width st - 50 + 1"
    "box_width st - 51 \<le> 2 * (450 - box_r_position st)"
    using inv m unfolding box_inv_def by linarith+
  then have "74 \<le> box_r_position st \<and> box_r_position st + box_rows st \<le> 1080
    \<and> 524 \<le> box_c_position st \<and> box_c_position st + box_width st \<le> 1920" by presburger
  moreover obtain s where "put_box denv (int n) st d = Some (d\<lparr>slots := (slots d)[0 := s]\<rparr>)" "slot_ok s"
    "(f_r s, f_c s, f_width s, f_rows s) = (box_r_position st, box_c_position st, box_width st, box_width st)"
    "f_buf s = overlay (pixels (box_width st) (box_width st) (box_pixel (box_width st) (box_width st) 3 1))
       (malloc_bytes (de_box_mem denv (int n)) (box_width st) (box_width st))"
    using put_box_slot [OF assms(1-3) inv, of denv "int n"] by blast
  ultimately show ?thesis
    using low \<open>box_width st \<le> 801\<close> \<open>box_rows st = box_width st\<close> by blast
qed

text \<open>
  C24: The status line. With glyphs that hold their pixels, it fills in the slots 3 to 29 and no
  other: the characters stand side by side in row 300, 50 columns apart, except in every twentieth
  iteration, where they stand one below the other in column 150, the last twelve of them below the
  image.
\<close>

theorem status_line_places:
  assumes "osd_ok d" and "glyphs_ok (de_glyph denv)"
  shows "\<exists>d'. put_status denv num d = Some d' \<and> osd_ok d'
    \<and> (\<forall>i < 3. slots d' ! i = slots d ! i)
    \<and> (\<forall>l. 3 \<le> l \<and> l < 30 \<longrightarrow> f_used (slots d' ! nat l) \<and>
         (f_r (slots d' ! nat l), f_c (slots d' ! nat l)) =
           (if num mod 20 = 0 then (200 + 50 * l, 150) else (300, 50 * l)))
    \<and> (num mod 20 = 0 \<longrightarrow> (\<forall>l. 18 \<le> l \<and> l < 30 \<longrightarrow> slot_picture (img_width d) 1080 (slots d' ! nat l) = Map.empty))"
proof -
  obtain d' where d': "put_status denv num d = Some d'" "osd_ok d'" "\<forall>i < 3. slots d' ! i = slots d ! i"
    and pos: "\<forall>l. 3 \<le> l \<and> l < 30 \<longrightarrow> f_used (slots d' ! nat l) \<and>
         (f_r (slots d' ! nat l), f_c (slots d' ! nat l)) =
           (if num mod 20 = 0 then (200 + 50 * l, 150) else (300, 50 * l))"
    using put_status_slots [OF assms, of num] by (auto simp: status_pos_def)
  have "slot_picture (img_width d) 1080 (slots d' ! nat l) = Map.empty" if "num mod 20 = 0" "18 \<le> l" "l < 30" for l
  proof -
    have r: "1080 < f_r (slots d' ! nat l)" using pos that by simp
    have "0 \<le> img_width d" using assms(1) by (simp add: osd_ok_def image_ok_def)
    then have "int k div img_width d < 1080" if "int k < img_width d * 1080" for k
      using row_of_cell [OF that] by simp
    with r show ?thesis by (fastforce simp: slot_picture_def pixels_def fun_eq_iff)
  qed
  with d' pos show ?thesis by blast
qed

text \<open>
  C25: The drawing has no defined run. In every iteration, whatever FreeType, the file system and
  the OpenCL runtime do, the number line writes to slot 30 of the array of 30 slots, so the first
  iteration is undefined; the parts before it are defined on a display in its initial state, when
  the glyphs hold their pixels, so the number line is what makes it so.
\<close>

theorem modeset_draw_undefined:
  "modeset_draw denv sg lib mem fs maps = None
   \<and> (length (slots d) = 30 \<longrightarrow> put_numbers denv st d = None)
   \<and> (glyphs_ok (de_glyph denv) \<longrightarrow>
        (\<exists>d1 d2 d3. put_box denv 0 (boxes 1) (osd_new 1920 1080 4) = Some d1 \<and> put_yaw denv 0 d1 = Some d2
          \<and> put_status denv 0 d2 = Some d3 \<and> osd_ok d3))"
proof -
  have "\<exists>d1 d2 d3. put_box denv 0 (boxes 1) (osd_new 1920 1080 4) = Some d1 \<and> put_yaw denv 0 d1 = Some d2
      \<and> put_status denv 0 d2 = Some d3 \<and> osd_ok d3" if g: "glyphs_ok (de_glyph denv)"
  proof -
    let ?d = "osd_new 1920 1080 4"
    have d: "osd_ok ?d" by (rule osd_new_ok [OF image_1080])
    have wh: "img_width ?d = 1920" "img_height ?d = 1080" by (simp_all add: osd_new_def Let_def)
    have "box_inv 1 (boxes 1)" by (rule boxes_inv)
    from put_box_slot [OF d wh this, of denv 0] obtain s where
      s: "put_box denv 0 (boxes 1) ?d = Some (?d\<lparr>slots := (slots ?d)[0 := s]\<rparr>)" "slot_ok s" by blast
    let ?d1 = "?d\<lparr>slots := (slots ?d)[0 := s]\<rparr>"
    have d1: "osd_ok ?d1" "img_width ?d1 = 1920" "img_height ?d1 = 1080"
      using osd_ok_slot [OF d s(2), of 0] wh by simp_all
    from put_yaw_slot [OF d1, of denv 0] obtain s' where
      s': "put_yaw denv 0 ?d1 = Some (?d1\<lparr>slots := (slots ?d1)[1 := s']\<rparr>)" "slot_ok s'" by blast
    from put_status_slots [OF osd_ok_slot [OF d1(1) s'(2), of 1] g, of 0] s(1) s'(1) show ?thesis by blast
  qed
  then show ?thesis using put_numbers_undefined draw_None by blast
qed

text \<open>
  C5: How the program ends. When the card cannot be opened, or its resources cannot be read, it
  returns that error, which is not zero, with an empty device list, the card closed and nothing held
  that was not held before. In every other case it has no defined run: once the card is prepared the
  drawing is undefined (it fills in a slot that does not exist), so that the cleanup is not reached
  and the program never returns 0.
\<close>

theorem main_outcome:
  assumes "errno_ok env" and "modeset_list s = []"
  shows "case modeset_main env denv sg lib mem fs mapping s of
      Some (ret, s') \<Rightarrow> ret \<noteq> 0 \<and> modeset_list s' = [] \<and> held (calls s') = held (calls s)
        \<and> (fst (modeset_open env s) = Inl ret
           \<or> (\<exists>fd s1. modeset_open env s = (Inr fd, s1) \<and> fst (modeset_prepare env s1) = ret))
    | None \<Rightarrow> \<exists>fd s1 s2. modeset_open env s = (Inr fd, s1) \<and> modeset_prepare env s1 = (0, s2)"
proof -
  obtain r1 s1 where op: "modeset_open env s = (r1, s1)" by fastforce
  have list1: "modeset_list s1 = []"
    and held1: "held (calls s1) = (case r1 of Inl _ \<Rightarrow> held (calls s) | Inr fd \<Rightarrow> add_mset (Fd fd) (held (calls s)))"
    and err1: "r1 = Inl e \<Longrightarrow> e \<noteq> 0" for e
    using op assms by (auto simp: modeset_open_def Let_def errno_ok_def EOPNOTSUPP_def split: sum.splits if_splits)
  show ?thesis
  proof (cases r1)
    case (Inl e)
    then show ?thesis using op held1 list1 err1 by (simp add: modeset_main_def)
  next
    case (Inr fd)
    obtain ret s2 where pr: "modeset_prepare env s1 = (ret, s2)" by fastforce
    show ?thesis
    proof (cases "ret = 0")
      case True
      then have "modeset_main env denv sg lib mem fs mapping s = None"
        using op Inr pr by (auto simp: modeset_main_def draw_None split: prod.split)
      then show ?thesis using op Inr pr True by simp
    next
      case False
      then have "modeset_list s2 = []" using pr list1 by (auto simp: modeset_prepare_def split: sum.splits)
      with prepare_inv [OF assms(1) list1 pr] show ?thesis
        using False op Inr pr held1 by (simp add: modeset_main_def list_inv_def)
    qed
  qed
qed

section \<open>Witnesses\<close>

definition plain_env :: draw_env where
  "plain_env = \<lparr>de_glyph = \<lambda>size ch. (2, 1, [9, 9]), de_box_mem = \<lambda>_ _. 0, de_yaw_mem = \<lambda>_ _. 0,
     de_cross_mem = \<lambda>_. 0, de_file = [], de_origin_mem = \<lambda>_. 0, de_sched = \<lambda>_. work_items 1920 1080,
     de_late = False\<rparr>"

lemma plain_glyphs: "glyphs_ok (de_glyph plain_env)"
  by (simp add: glyphs_ok_def plain_env_def block_ok_def)

theorem box_stays_inside_witness:
  "\<exists>s. put_box plain_env 0 (boxes 1) (osd_new 1920 1080 4)
      = Some ((osd_new 1920 1080 4)\<lparr>slots := (slots (osd_new 1920 1080 4))[0 := s]\<rparr>)
    \<and> (f_r s, f_c s, f_width s, f_rows s) = (449, 899, 51, 51)"
proof -
  have "box_r_position (boxes 1) = 449" "box_c_position (boxes 1) = 899" "box_width (boxes 1) = 51"
    by (simp_all add: move_box_def count_up_def draw_start_def)
  then show ?thesis
    using box_stays_inside [OF osd_new_ok [OF image_1080], of 4 0 plain_env] by (simp add: osd_new_def Let_def) blast
qed

theorem status_line_places_witness:
  "\<exists>d'. put_status plain_env 40 (osd_new 1920 1080 4) = Some d' \<and> f_r (slots d' ! 29) = 1650
    \<and> slot_picture 1920 1080 (slots d' ! 29) = Map.empty"
proof -
  obtain d' where "put_status plain_env 40 (osd_new 1920 1080 4) = Some d'"
    and pos: "\<forall>l. 3 \<le> l \<and> l < 30 \<longrightarrow> f_used (slots d' ! nat l) \<and>
         (f_r (slots d' ! nat l), f_c (slots d' ! nat l)) = (200 + 50 * l, 150)"
    and out: "\<forall>l. 18 \<le> l \<and> l < 30 \<longrightarrow> slot_picture 1920 1080 (slots d' ! nat l) = Map.empty"
    using status_line_places [OF osd_new_ok [OF image_1080, of 4] plain_glyphs, of 40] by (auto simp: osd_new_def Let_def)
  then show ?thesis using pos [rule_format, of 29] out [rule_format, of 29] by auto
qed

theorem main_outcome_witness:
  "(\<exists>s'. modeset_main (demo_env\<lparr>e_resources := \<lambda>_. Inl 13\<rparr>) plain_env True sample_lib (\<lambda>_. NUL) empty_fs
      (\<lambda>_. []) demo_start = Some (- 13, s') \<and> held (calls s') = {#})
   \<and> modeset_main demo_env plain_env True sample_lib (\<lambda>_. NUL) empty_fs (\<lambda>_. []) demo_start = None"
proof -
  let ?bad = "demo_env\<lparr>e_resources := \<lambda>_. Inl 13\<rparr>"
  have errno: "errno_ok ?bad" using demo_errno by (simp add: errno_ok_def)
  have start: "modeset_list demo_start = []" "held (calls demo_start) = {#}" by (simp_all add: demo_start_def)
  have o1: "\<exists>s1. modeset_open ?bad demo_start = (Inr 3, s1)" "fst (modeset_prepare ?bad s1) = - 13" for s1
    by (simp_all add: modeset_open_def modeset_prepare_def demo_env_def Let_def)
  have o2: "\<exists>s1. modeset_open demo_env demo_start = (Inr 3, s1)" "fst (modeset_prepare demo_env s1) = 0" for s1
    by (simp_all add: modeset_open_def modeset_prepare_def demo_env_def Let_def)
  note run1 = main_outcome [OF errno start(1), of plain_env True sample_lib "\<lambda>_. NUL" empty_fs "\<lambda>_. []"]
  note run2 = main_outcome [OF demo_errno start(1), of plain_env True sample_lib "\<lambda>_. NUL" empty_fs "\<lambda>_. []"]
  have "\<exists>s'. modeset_main ?bad plain_env True sample_lib (\<lambda>_. NUL) empty_fs (\<lambda>_. []) demo_start = Some (- 13, s')
      \<and> held (calls s') = {#}"
  proof (cases "modeset_main ?bad plain_env True sample_lib (\<lambda>_. NUL) empty_fs (\<lambda>_. []) demo_start")
    case None
    from run1 [unfolded None option.case] obtain s1 s2 where "modeset_prepare ?bad s1 = (0, s2)" by blast
    with o1(2) [of s1] show ?thesis by simp
  next
    case (Some p)
    then obtain ret s' where p: "p = (ret, s')" by fastforce
    with run1 Some o1 start(2) have "ret = - 13" "held (calls s') = {#}" by auto
    with Some p show ?thesis by simp
  qed
  moreover have "modeset_main demo_env plain_env True sample_lib (\<lambda>_. NUL) empty_fs (\<lambda>_. []) demo_start = None"
  proof (rule ccontr)
    assume "\<not> ?thesis"
    then obtain ret s' where "modeset_main demo_env plain_env True sample_lib (\<lambda>_. NUL) empty_fs (\<lambda>_. []) demo_start
        = Some (ret, s')" by fastforce
    with run2 o2 show False by auto
  qed
  ultimately show ?thesis by blast
qed

theorem modeset_draw_undefined_witness:
  "put_numbers plain_env draw_start (osd_new 1920 1080 4) = None
   \<and> (\<exists>d3. osd_ok d3 \<and> put_numbers plain_env draw_start d3 = None)"
  using modeset_draw_undefined [where denv = plain_env and d = "osd_new 1920 1080 4" and st = draw_start]
    osd_new_ok [OF image_1080, of 4]
  by (auto simp: osd_new_def Let_def FONT_ARRAY_SIZE_def)

end
