(* ===== verification/Pcie.thy ===== *)
theory Pcie
  imports Prelude
begin

text \<open>
  The PCIe classes \<^verbatim>\<open>cdrawTools/PCIe-rc\<close> and \<^verbatim>\<open>cdrawTools/PCIe-ep\<close> and the two test programs
  \<^verbatim>\<open>test_pcie_rc.cc\<close> and \<^verbatim>\<open>test_pcie_ep.cc\<close>. The vendor's library is the parameter \<open>env\<close>, the results
  of its functions from the calls made before; a device handle is a number, the null handle \<open>None\<close>.
  Uninitialised members have the values of \<open>mem\<close>.

  Shown: no failure of the library stops a constructor, so the null handle is passed on; the handle
  of a device is released once by the destructor, and the test programs never call it.
\<close>

section \<open>The library\<close>

record pcie_bus =
  dev_max_num :: int
  pci_bus_address :: "string list"

record pcie_mode =
  md_mode :: int
  md_submode :: int

record pcie_dev =
  send_buff_num :: int
  send_buff_size :: int
  recv_buff_num :: int
  recv_buff_size :: int
  wait_timeout_ms :: int
  is_show_speed :: int
  using_rc_dma :: int
  rc_dma_chn :: int

datatype pcie_call =
    GetBus u16 u16 int
  | DeviceInit u16 u16 string "nat option"
  | GetEpMode "nat option"
  | MutexInit
  | ApInit "nat option" pcie_dev int
  | DeviceDeinit "nat option" int

record pcie_env =
  p_bus :: "pcie_call list \<Rightarrow> int \<times> pcie_bus option"
  p_device :: "pcie_call list \<Rightarrow> string \<Rightarrow> nat option"
  p_mode :: "pcie_call list \<Rightarrow> nat option \<Rightarrow> pcie_mode option"
  p_ap :: "pcie_call list \<Rightarrow> nat option \<Rightarrow> pcie_dev \<Rightarrow> int"

fun handle_gained :: "pcie_call \<Rightarrow> nat multiset" where
  "handle_gained (DeviceInit v d a (Some h)) = {#h#}"
| "handle_gained _ = {#}"

fun handle_lost :: "pcie_call \<Rightarrow> nat multiset" where
  "handle_lost (DeviceDeinit (Some h) n) = {#h#}"
| "handle_lost _ = {#}"

interpretation pcie_handles: accounting handle_gained handle_lost
proof
  show "handle_gained e = {#} \<or> handle_lost e = {#}" for e
    by (cases e rule: handle_gained.cases) simp_all
qed

abbreviation handles :: "pcie_call list \<Rightarrow> nat multiset" where
  "handles \<equiv> live handle_gained handle_lost"

section \<open>The root complex\<close>

definition VENDOR_ID :: u16 where "VENDOR_ID = 0x1d87"
definition DEVICE_ID :: u16 where "DEVICE_ID = 0x356a"

record pcie_rc =
  rk_handle :: "nat option"
  rc_dev :: pcie_dev
  buff_size :: int
  rc_devmode :: pcie_mode
  rc_dev_bus :: pcie_bus

text \<open>
  A function that fails may leave its result structure as it was. The first bus address is read also
  when no device was found; \<open>None\<close> when the structure has no such entry.
\<close>

definition or_old :: "'a option \<Rightarrow> 'a \<Rightarrow> 'a" where
  "or_old new old = (case new of None \<Rightarrow> old | Some x \<Rightarrow> x)"

definition get_ep_mode :: "pcie_env \<Rightarrow> pcie_rc \<times> pcie_call list \<Rightarrow> pcie_rc \<times> pcie_call list" where
  "get_ep_mode env = (\<lambda>(c, h). (c\<lparr>rc_devmode := or_old (p_mode env h (rk_handle c)) (rc_devmode c)\<rparr>,
     GetEpMode (rk_handle c) # h))"

definition pcie_rc_new :: "pcie_env \<Rightarrow> pcie_rc \<Rightarrow> int \<Rightarrow> pcie_call list \<Rightarrow> (pcie_rc \<times> pcie_call list) option" where
  "pcie_rc_new env mem buf_size h0 =
     (let c0 = mem\<lparr>buff_size := buf_size\<rparr>;
          (ret, bus) = p_bus env h0;
          c1 = c0\<lparr>rc_dev_bus := or_old bus (rc_dev_bus c0)\<rparr>; h1 = GetBus VENDOR_ID DEVICE_ID ret # h0
      in do {
        address \<leftarrow> rd (pci_bus_address (rc_dev_bus c1)) 0;
        let dev = p_device env h1 address;
            (c3, h3) = get_ep_mode env (c1\<lparr>rk_handle := dev\<rparr>, DeviceInit VENDOR_ID DEVICE_ID address dev # h1);
            c4 = c3\<lparr>rc_dev := (rc_dev c3)\<lparr>send_buff_num := 10, send_buff_size := buff_size c3, recv_buff_num := 10,
                    recv_buff_size := buff_size c3, wait_timeout_ms := - 1, is_show_speed := 1, using_rc_dma := 1,
                    rc_dma_chn := 0\<rparr>\<rparr>;
            h4 = MutexInit # h3;
            h5 = ApInit (rk_handle c4) (rc_dev c4) (p_ap env h4 (rk_handle c4) (rc_dev c4)) # h4
        in Some (get_ep_mode env (c4, h5))
      })"

definition pcie_rc_destroy :: "pcie_rc \<times> pcie_call list \<Rightarrow> pcie_call list" where
  "pcie_rc_destroy = (\<lambda>(c, h). DeviceDeinit (rk_handle c) 1 # h)"

text \<open>\<^verbatim>\<open>main\<close> of \<^verbatim>\<open>test_pcie_rc.cc\<close>: an object that is never deleted.\<close>

definition test_pcie_rc :: "pcie_env \<Rightarrow> pcie_rc \<Rightarrow> pcie_call list \<Rightarrow> (int \<times> pcie_call list) option" where
  "test_pcie_rc env mem h = map_option (\<lambda>(_, h'). (0, h')) (pcie_rc_new env mem 0xA00000 h)"

section \<open>The endpoint\<close>

datatype ep_call = EpDeviceInit int | EpApInit int | EpApDeinit | EpDeviceDeinit

record ep_env =
  ep_device :: "ep_call list \<Rightarrow> int"
  ep_ap :: "ep_call list \<Rightarrow> int"

definition pcie_ep_new :: "ep_env \<Rightarrow> int \<Rightarrow> ep_call list \<Rightarrow> ep_call list" where
  "pcie_ep_new env buf_size h =
     (let h1 = EpDeviceInit (ep_device env h) # h in EpApInit (ep_ap env h1) # h1)"

definition pcie_ep_destroy :: "ep_call list \<Rightarrow> ep_call list" where
  "pcie_ep_destroy h = EpDeviceDeinit # EpApDeinit # h"

definition test_pcie_ep :: "ep_env \<Rightarrow> ep_call list \<Rightarrow> int \<times> ep_call list" where
  "test_pcie_ep env h = (0, pcie_ep_new env 0xA00000 h)"

section \<open>What the classes do on a failure\<close>

lemma pcie_rc_new_calls:
  assumes "pcie_rc_new env mem buf_size h0 = Some (c, h)"
  shows "\<exists>ret address ap. h = [GetEpMode (rk_handle c), ApInit (rk_handle c) (rc_dev c) ap, MutexInit,
      GetEpMode (rk_handle c), DeviceInit VENDOR_ID DEVICE_ID address (rk_handle c), GetBus VENDOR_ID DEVICE_ID ret] @ h0
    \<and> ret = fst (p_bus env h0) \<and> rk_handle c = p_device env (GetBus VENDOR_ID DEVICE_ID ret # h0) address
    \<and> pci_bus_address (rc_dev_bus c) \<noteq> [] \<and> address = hd (pci_bus_address (rc_dev_bus c))
    \<and> send_buff_size (rc_dev c) = buf_size \<and> recv_buff_size (rc_dev c) = buf_size"
proof -
  obtain ret bus where "p_bus env h0 = (ret, bus)" by fastforce
  with assms show ?thesis
    by (auto simp: pcie_rc_new_def get_ep_mode_def Let_def rd_Some_iff hd_conv_nth split: bind_splits)
qed

text \<open>
  A failing step does not stop the root complex. Every construction makes the same calls in the
  same order, with the buffer size asked for, whatever the enumeration of the bus returns; when the
  device cannot be opened, the null handle is passed to every later call and to the destructor.
\<close>

theorem pcie_rc_goes_on:
  assumes "pcie_rc_new env mem buf_size h0 = Some (c, h)"
  shows "(\<exists>ret address ap. h = [GetEpMode (rk_handle c), ApInit (rk_handle c) (rc_dev c) ap, MutexInit,
      GetEpMode (rk_handle c), DeviceInit VENDOR_ID DEVICE_ID address (rk_handle c), GetBus VENDOR_ID DEVICE_ID ret] @ h0
        \<and> address = hd (pci_bus_address (rc_dev_bus c)))
    \<and> send_buff_size (rc_dev c) = buf_size \<and> recv_buff_size (rc_dev c) = buf_size
    \<and> ((\<forall>h a. p_device env h a = None) \<longrightarrow> pcie_rc_destroy (c, h) = DeviceDeinit None 1 # h)"
  using pcie_rc_new_calls [OF assms] by (auto simp: pcie_rc_destroy_def)

text \<open>
  C38: The handle of the root complex. An object that is constructed and destroyed leaves the open
  handles as they were; the test program, which never destroys its object, leaves open the handle of
  the device when there was one.
\<close>

theorem pcie_rc_handle_balance:
  assumes "pcie_rc_new env mem buf_size h0 = Some (c, h)"
  shows "handles (pcie_rc_destroy (c, h)) = handles h0
    \<and> (\<forall>m h' x. test_pcie_rc env m h0 = Some (x, h') \<longrightarrow>
         (\<exists>dev. handles h' = handles h0 + (case dev of None \<Rightarrow> {#} | Some d \<Rightarrow> {#d#})
           \<and> (\<exists>address. DeviceInit VENDOR_ID DEVICE_ID address dev \<in> set h')))"
proof -
  have new: "handles h' = handles h0 + (case rk_handle c' of None \<Rightarrow> {#} | Some d \<Rightarrow> {#d#})
      \<and> (\<exists>address. DeviceInit VENDOR_ID DEVICE_ID address (rk_handle c') \<in> set h')"
    if "pcie_rc_new env m b h0 = Some (c', h')" for m b c' h'
  proof -
    from pcie_rc_new_calls [OF that] obtain ret address ap where h': "h' = [GetEpMode (rk_handle c'),
      ApInit (rk_handle c') (rc_dev c') ap, MutexInit, GetEpMode (rk_handle c'),
      DeviceInit VENDOR_ID DEVICE_ID address (rk_handle c'), GetBus VENDOR_ID DEVICE_ID ret] @ h0" by blast
    show ?thesis unfolding h' by (cases "rk_handle c'") auto
  qed
  from new [OF assms] have "handles (pcie_rc_destroy (c, h)) = handles h0"
    by (cases "rk_handle c") (auto simp: pcie_rc_destroy_def)
  with new show ?thesis by (fastforce simp: test_pcie_rc_def)
qed

section \<open>Witnesses\<close>

definition one_card :: pcie_env where
  "one_card = \<lparr>p_bus = \<lambda>h. (0, Some \<lparr>dev_max_num = 1, pci_bus_address = [''0000:01:00.0'']\<rparr>),
     p_device = \<lambda>h a. Some 7, p_mode = \<lambda>h d. None, p_ap = \<lambda>h d c. 0\<rparr>"

definition blank_rc :: pcie_rc where
  "blank_rc = \<lparr>rk_handle = None, rc_dev = \<lparr>send_buff_num = 0, send_buff_size = 0, recv_buff_num = 0, recv_buff_size = 0,
     wait_timeout_ms = 0, is_show_speed = 0, using_rc_dma = 0, rc_dma_chn = 0\<rparr>, buff_size = 0,
     rc_devmode = \<lparr>md_mode = 0, md_submode = 0\<rparr>, rc_dev_bus = \<lparr>dev_max_num = 0, pci_bus_address = ['''']\<rparr>\<rparr>"

definition no_card :: pcie_env where
  "no_card = one_card\<lparr>p_bus := \<lambda>h. (- 1, None), p_device := \<lambda>h a. None\<rparr>"

theorem pcie_rc_goes_on_witness:
  "\<exists>c h. pcie_rc_new no_card blank_rc 4096 [] = Some (c, h) \<and> pcie_rc_destroy (c, h) = DeviceDeinit None 1 # h
    \<and> send_buff_size (rc_dev c) = 4096"
proof -
  obtain c h where new: "pcie_rc_new no_card blank_rc 4096 [] = Some (c, h)"
    by (simp add: pcie_rc_new_def no_card_def one_card_def blank_rc_def or_old_def rd_def get_ep_mode_def Let_def)
  have "\<forall>h a. p_device no_card h a = None" by (simp add: no_card_def)
  with pcie_rc_goes_on [OF new] new show ?thesis by blast
qed

theorem pcie_rc_handle_balance_witness:
  "\<exists>c h. pcie_rc_new one_card blank_rc 4096 [] = Some (c, h) \<and> handles (pcie_rc_destroy (c, h)) = {#}"
proof -
  obtain c h where new: "pcie_rc_new one_card blank_rc 4096 [] = Some (c, h)"
    by (simp add: pcie_rc_new_def one_card_def blank_rc_def or_old_def rd_def get_ep_mode_def Let_def)
  with pcie_rc_handle_balance [OF new] show ?thesis by simp
qed

end
