(* ===== verification/OsdOpenCL.thy ===== *)
theory OsdOpenCL
  imports Prelude
begin

text \<open>
  What the class \<^verbatim>\<open>COSD_OpenCL\<close> acquires and releases: the buffers of the constructor, the OpenCL
  objects, the FreeType library and face of \<^verbatim>\<open>cl_kernel_init\<close>, the glyph copies of
  \<^verbatim>\<open>create_font_add_array\<close>, the device buffers of \<^verbatim>\<open>process_font\<close>, and the destructor. OpenCL, FreeType
  and the C library are the parameter \<open>env\<close>; a handle is a number, the null handle \<open>None\<close>. Members
  that the constructor does not set have the values of \<open>mem\<close>, and a FreeType call that fails leaves
  its out-parameter as it is. \<open>None\<close> as a result is undefined behaviour: a handle that is neither null
  nor of a live object, a face whose library is gone, a null pointer printed as a string. Allocations
  are taken to succeed.

  Shown: when OpenCL and FreeType are set up, then after any sequence of glyphs and renderings the
  destructor is defined and releases every object and buffer, but neither the block of the kernel
  source nor a glyph copy is ever freed; when FreeType fails, the initialisation is undefined or
  reports success on an object that cannot be destroyed.
\<close>

section \<open>Calls\<close>

datatype cl_obj = Context nat | Queue nat | Program nat | Kernel nat | MemObj nat | FtLibrary nat | FtFace nat | Block nat
  | SourceFile

datatype cl_call =
    Malloc int nat
  | Free nat
  | FOpen string bool
  | FRead int
  | FClose
  | GetPlatform int
  | GetDevice int
  | CreateContext "nat option"
  | CreateQueue "nat option" "nat option"
  | CreateProgram "nat option" "nat option"
  | BuildProgram "nat option" int
  | GetBuildInfo "nat option"
  | CreateKernel "nat option" "nat option"
  | GetWorkGroupInfo "nat option"
  | CreateBuffer "nat option" "nat option"
  | FtInit "nat option"
  | FtNewFace "nat option" "nat option"
  | ReleaseProgram "nat option"
  | ReleaseQueue "nat option"
  | ReleaseContext "nat option"
  | ReleaseKernel "nat option"
  | ReleaseMem "nat option"
  | FtDoneFace "nat option"
  | FtDone "nat option"

definition one :: "('a \<Rightarrow> 'b) \<Rightarrow> 'a option \<Rightarrow> 'b multiset" where
  "one f x = (case x of None \<Rightarrow> {#} | Some a \<Rightarrow> {#f a#})"

fun cl_gained :: "cl_call \<Rightarrow> cl_obj multiset" where
  "cl_gained (Malloc n a) = {#Block a#}"
| "cl_gained (FOpen p True) = {#SourceFile#}"
| "cl_gained (CreateContext x) = one Context x"
| "cl_gained (CreateQueue c x) = one Queue x"
| "cl_gained (CreateProgram c x) = one Program x"
| "cl_gained (CreateKernel p x) = one Kernel x"
| "cl_gained (CreateBuffer c x) = one MemObj x"
| "cl_gained (FtInit x) = one FtLibrary x"
| "cl_gained (FtNewFace l x) = one FtFace x"
| "cl_gained _ = {#}"

fun cl_lost :: "cl_call \<Rightarrow> cl_obj multiset" where
  "cl_lost (Free a) = {#Block a#}"
| "cl_lost FClose = {#SourceFile#}"
| "cl_lost (ReleaseContext x) = one Context x"
| "cl_lost (ReleaseQueue x) = one Queue x"
| "cl_lost (ReleaseProgram x) = one Program x"
| "cl_lost (ReleaseKernel x) = one Kernel x"
| "cl_lost (ReleaseMem x) = one MemObj x"
| "cl_lost (FtDoneFace x) = one FtFace x"
| "cl_lost (FtDone x) = one FtLibrary x"
| "cl_lost _ = {#}"

interpretation cl_objects: accounting cl_gained cl_lost
proof
  show "cl_gained e = {#} \<or> cl_lost e = {#}" for e
    by (cases e rule: cl_gained.cases) simp_all
qed

abbreviation objects :: "cl_call list \<Rightarrow> cl_obj multiset" where
  "objects \<equiv> live cl_gained cl_lost"

lemma one_simps [simp]: "one f None = {#}" "one f (Some a) = {#f a#}"
  by (simp_all add: one_def)

text \<open>
  Which calls are defined. A released handle is null or that of a live object; a face is used and
  released while the library that made it is live.
\<close>

fun face_library :: "cl_call list \<Rightarrow> nat \<Rightarrow> nat option" where
  "face_library [] f = None"
| "face_library (FtNewFace l x # h) f = (if x = Some f then l else face_library h f)"
| "face_library (_ # h) f = face_library h f"

definition live_face :: "cl_call list \<Rightarrow> nat \<Rightarrow> bool" where
  "live_face h f \<longleftrightarrow> FtFace f \<in># objects h
     \<and> (case face_library h f of Some l \<Rightarrow> FtLibrary l \<in># objects h | None \<Rightarrow> False)"

fun call_ok :: "cl_call list \<Rightarrow> cl_call \<Rightarrow> bool" where
  "call_ok h (ReleaseProgram (Some a)) = (Program a \<in># objects h)"
| "call_ok h (ReleaseQueue (Some a)) = (Queue a \<in># objects h)"
| "call_ok h (ReleaseContext (Some a)) = (Context a \<in># objects h)"
| "call_ok h (ReleaseKernel (Some a)) = (Kernel a \<in># objects h)"
| "call_ok h (ReleaseMem (Some a)) = (MemObj a \<in># objects h)"
| "call_ok h (Free a) = (Block a \<in># objects h)"
| "call_ok h (FtNewFace (Some l) x) = (FtLibrary l \<in># objects h)"
| "call_ok h (FtDoneFace (Some f)) = live_face h f"
| "call_ok h (FtDone (Some l)) = (FtLibrary l \<in># objects h)"
| "call_ok h _ = True"

definition perform :: "cl_call \<Rightarrow> cl_call list \<Rightarrow> cl_call list option" where
  "perform c h = (if call_ok h c then Some (c # h) else None)"

record cl_env =
  x_malloc :: "cl_call list \<Rightarrow> int \<Rightarrow> nat"
  x_open :: "cl_call list \<Rightarrow> bool"
  x_read :: "cl_call list \<Rightarrow> int"
  x_platform :: "cl_call list \<Rightarrow> int"
  x_device :: "cl_call list \<Rightarrow> int"
  x_context :: "cl_call list \<Rightarrow> nat option"
  x_queue :: "cl_call list \<Rightarrow> nat option \<Rightarrow> nat option"
  x_program :: "cl_call list \<Rightarrow> nat option \<Rightarrow> nat option"
  x_build :: "cl_call list \<Rightarrow> nat option \<Rightarrow> int"
  x_log_size :: "cl_call list \<Rightarrow> int"
  x_kernel :: "cl_call list \<Rightarrow> nat option \<Rightarrow> nat option"
  x_buffer :: "cl_call list \<Rightarrow> nat option \<Rightarrow> nat option"
  x_ft :: "cl_call list \<Rightarrow> nat option"
  x_face :: "cl_call list \<Rightarrow> nat option \<Rightarrow> nat option"

section \<open>The members and the operations\<close>

record cl_members =
  program_m :: "nat option"
  queue_m :: "nat option"
  context_m :: "nat option"
  kernel_m :: "nat option"
  ft_m :: "nat option"
  face_m :: "nat option"
  image_addr :: nat
  font_addr :: nat

definition CL_SUCCESS :: u8 where "CL_SUCCESS = 0"
definition CL_BUILD_ERROR :: u8 where "CL_BUILD_ERROR = - 2"

text \<open>The two buffers of the constructor.\<close>

definition osd_buffers :: "cl_env \<Rightarrow> cl_members \<Rightarrow> int \<Rightarrow> int \<Rightarrow> int \<Rightarrow> cl_call list \<Rightarrow> cl_members \<times> cl_call list" where
  "osd_buffers env mem imgWidth imgHeight deeping h =
     (let n1 = to_u64 (to_u64 (imgHeight * imgWidth) * to_u64 deeping); a1 = x_malloc env h n1; h1 = Malloc n1 a1 # h;
          n2 = to_u64 (imgWidth * imgHeight); a2 = x_malloc env h1 n2
      in (mem\<lparr>image_addr := a1, font_addr := a2\<rparr>, Malloc n2 a2 # h1))"

text \<open>
  The failing build asks for the size of its log, reads it into a block and frees the block. A call
  that creates an object returns the null handle exactly when it reports an error.
\<close>

definition build_log :: "cl_env \<Rightarrow> nat option \<Rightarrow> cl_call list \<Rightarrow> cl_call list" where
  "build_log env prog h =
     (let h1 = GetBuildInfo prog # h; n = x_log_size env h1; a = x_malloc env h1 n
      in Free a # GetBuildInfo prog # Malloc n a # h1)"

text \<open>
  The OpenCL part: \<open>Inl\<close> is an early return of \<^verbatim>\<open>CL_BUILD_ERROR\<close>. A context that cannot be created
  is reported by printing a null string, which is undefined.
\<close>

definition cl_setup :: "cl_env \<Rightarrow> string \<Rightarrow> cl_members \<times> cl_call list \<Rightarrow>
    ((cl_members \<times> cl_call list) + (cl_members \<times> cl_call list)) option" where
  "cl_setup env opencl_kernel = (\<lambda>(m, h0).
     let MAX_SOURCE_SIZE = 0x100000; src = x_malloc env h0 MAX_SOURCE_SIZE; h1 = Malloc MAX_SOURCE_SIZE src # h0;
         opened = x_open env h1; h2 = FOpen opencl_kernel opened # h1
     in if \<not> opened then Some (Inl (m, h2))
        else
          let h3 = FClose # FRead (x_read env h2) # h2;
              h4 = GetPlatform (x_platform env h3) # h3;
              h5 = GetDevice (x_device env h4) # h4;
              cx = x_context env h5; m1 = m\<lparr>context_m := cx\<rparr>; h6 = CreateContext cx # h5
          in if cx = None then None
             else
               let q = x_queue env h6 cx; m2 = m1\<lparr>queue_m := q\<rparr>; h7 = CreateQueue cx q # h6
               in if q = None then Some (Inl (m2, h7))
                  else
                    let p = x_program env h7 cx; m3 = m2\<lparr>program_m := p\<rparr>; h8 = CreateProgram cx p # h7;
                        ret = x_build env h8 p; h9 = BuildProgram p ret # h8
                    in if ret \<noteq> 0 then Some (Inl (m3, build_log env p h9))
                       else
                         let k = x_kernel env h9 p; m4 = m3\<lparr>kernel_m := k\<rparr>; h10 = CreateKernel p k # h9
                         in if k = None then Some (Inl (m4, h10))
                            else Some (Inr (m4, GetWorkGroupInfo k # h10)))"

text \<open>The FreeType part: neither result is looked at.\<close>

definition ft_setup :: "cl_env \<Rightarrow> cl_members \<times> cl_call list \<Rightarrow> (cl_members \<times> cl_call list) option" where
  "ft_setup env = (\<lambda>(m, h).
     let r = x_ft env h;
         m1 = (case r of None \<Rightarrow> m | Some l \<Rightarrow> m\<lparr>ft_m := Some l\<rparr>);
         h1 = FtInit r # h;
         r' = x_face env h1 (ft_m m1);
         m2 = (case r' of None \<Rightarrow> m1 | Some f \<Rightarrow> m1\<lparr>face_m := Some f\<rparr>)
     in map_option (\<lambda>h2. (m2, h2)) (perform (FtNewFace (ft_m m1) r') h1))"

definition cl_kernel_init ::
  "cl_env \<Rightarrow> string \<Rightarrow> cl_members \<times> cl_call list \<Rightarrow> (u8 \<times> cl_members \<times> cl_call list) option" where
  "cl_kernel_init env opencl_kernel st =
     (case cl_setup env opencl_kernel st of
        None \<Rightarrow> None
      | Some (Inl st') \<Rightarrow> Some (CL_BUILD_ERROR, st')
      | Some (Inr st') \<Rightarrow> map_option (\<lambda>st''. (CL_SUCCESS, st'')) (ft_setup env st'))"

text \<open>
  The use of an object: \<open>Glyph n\<close> is a call of \<^verbatim>\<open>create_font_add_array\<close> that renders a character into a
  bitmap of \<open>n\<close> bytes and copies it; \<open>Render\<close> is a call of \<^verbatim>\<open>process_font\<close>, with its two device buffers.
\<close>

datatype osd_op = Glyph int | Render

definition glyph_copy :: "cl_env \<Rightarrow> cl_members \<Rightarrow> int \<Rightarrow> cl_call list \<Rightarrow> cl_call list option" where
  "glyph_copy env m n h =
     (case face_m m of
        Some f \<Rightarrow> if live_face h f then perform (Malloc n (x_malloc env h n)) h else None
      | None \<Rightarrow> None)"

definition device_buffers :: "cl_env \<Rightarrow> cl_members \<Rightarrow> cl_call list \<Rightarrow> cl_call list option" where
  "device_buffers env m h =
     (let i = x_buffer env h (context_m m); h1 = CreateBuffer (context_m m) i # h;
          b = x_buffer env h1 (context_m m); h2 = CreateBuffer (context_m m) b # h1
      in do { h3 \<leftarrow> perform (ReleaseMem i) h2; perform (ReleaseMem b) h3 })"

fun osd_use :: "cl_env \<Rightarrow> cl_members \<Rightarrow> osd_op \<Rightarrow> cl_call list \<Rightarrow> cl_call list option" where
  "osd_use env m (Glyph n) h = glyph_copy env m n h"
| "osd_use env m Render h = device_buffers env m h"

definition osd_destroy :: "cl_members \<times> cl_call list \<Rightarrow> cl_call list option" where
  "osd_destroy = (\<lambda>(m, h). do {
     h1 \<leftarrow> perform (ReleaseProgram (program_m m)) h;
     h2 \<leftarrow> perform (ReleaseQueue (queue_m m)) h1;
     h3 \<leftarrow> perform (ReleaseContext (context_m m)) h2;
     h4 \<leftarrow> perform (ReleaseKernel (kernel_m m)) h3;
     h5 \<leftarrow> perform (FtDoneFace (face_m m)) h4;
     h6 \<leftarrow> perform (FtDone (ft_m m)) h5;
     h7 \<leftarrow> perform (Free (image_addr m)) h6;
     perform (Free (font_addr m)) h7 })"

section \<open>What is held\<close>

definition members_hold :: "cl_members \<Rightarrow> cl_obj multiset" where
  "members_hold m = one Program (program_m m) + one Queue (queue_m m) + one Context (context_m m)
     + one Kernel (kernel_m m) + one FtFace (face_m m) + one FtLibrary (ft_m m)
     + {#Block (image_addr m), Block (font_addr m)#}"

lemma build_log_objects: "objects (build_log env p h) = objects h"
  by (simp add: build_log_def Let_def)

lemma setup_objects:
  assumes "cl_setup env path (m, h) = Some (Inr (m', h'))"
  shows "\<exists>src. objects h' = objects h + {#Block src#} + one Program (program_m m') + one Queue (queue_m m')
      + one Context (context_m m') + one Kernel (kernel_m m')
    \<and> ft_m m' = ft_m m \<and> face_m m' = face_m m \<and> image_addr m' = image_addr m \<and> font_addr m' = font_addr m"
  using assms unfolding cl_setup_def
  by (auto simp: Let_def split: if_splits)

text \<open>The state of an object that is set up: what it holds, its face made by its library.\<close>

definition set_up :: "cl_members \<Rightarrow> cl_obj multiset \<Rightarrow> cl_call list \<Rightarrow> bool" where
  "set_up m R h \<longleftrightarrow> objects h = R + members_hold m
     \<and> (\<exists>l f. ft_m m = Some l \<and> face_m m = Some f \<and> face_library h f = Some l)"

lemma set_up_face: "set_up m R h \<Longrightarrow> \<exists>f. face_m m = Some f \<and> live_face h f"
  by (auto simp: set_up_def live_face_def members_hold_def)

lemma use_set_up:
  assumes "set_up m R h"
  shows "\<exists>h' bs. foldM (osd_use env m) ops h = Some h' \<and> set_up m (R + mset (map Block bs)) h'
    \<and> length bs = length (filter (\<lambda>p. p \<noteq> Render) ops)"
  using assms
proof (induction ops arbitrary: h R)
  case Nil
  then show ?case by (auto intro!: exI [of _ "[]"])
next
  case (Cons p ops)
  show ?case
  proof (cases p)
    case (Glyph n)
    let ?a = "x_malloc env h n"
    from set_up_face [OF Cons.prems] have "osd_use env m p h = Some (Malloc n ?a # h)"
      by (auto simp: Glyph glyph_copy_def perform_def)
    moreover from Cons.prems have "set_up m (R + {#Block ?a#}) (Malloc n ?a # h)"
      by (simp add: set_up_def)
    from Cons.IH [OF this] obtain h' bs where "foldM (osd_use env m) ops (Malloc n ?a # h) = Some h'"
      "set_up m (R + mset (map Block (?a # bs))) h'" "length bs = length (filter (\<lambda>p. p \<noteq> Render) ops)" by auto
    ultimately show ?thesis by (intro exI [of _ h'] exI [of _ "?a # bs"]) (simp add: Glyph)
  next
    case Render
    obtain h1 where "osd_use env m p h = Some h1" "set_up m R h1"
      using Cons.prems by (cases "x_buffer env h (context_m m)";
          cases "x_buffer env (CreateBuffer (context_m m) (x_buffer env h (context_m m)) # h) (context_m m)")
        (auto simp: Render device_buffers_def perform_def Let_def set_up_def)
    with Cons.IH [of R h1] show ?thesis by (simp add: Render)
  qed
qed

lemma destroy_set_up:
  assumes "set_up m R h"
  shows "\<exists>h'. osd_destroy (m, h) = Some h' \<and> objects h' = R"
proof -
  from assms obtain l f where "ft_m m = Some l" "face_m m = Some f" "face_library h f = Some l" by (auto simp: set_up_def)
  with assms show ?thesis
    by (cases "program_m m"; cases "queue_m m"; cases "context_m m"; cases "kernel_m m")
      (simp_all add: osd_destroy_def perform_def set_up_def members_hold_def live_face_def)
qed

text \<open>
  C26: The whole life of a display, from the point where its OpenCL objects are set up. When FreeType
  initialises and opens the face, every sequence of glyphs and renderings is defined, and so is the
  destructor after it, which releases every OpenCL object, the face before its library, the library and
  both buffers; what stays is the block into which the kernel source was read and one copy of each
  glyph. When the face cannot be opened, \<^verbatim>\<open>cl_kernel_init\<close> still returns \<^verbatim>\<open>CL_SUCCESS\<close>, but rendering
  a glyph and destroying the object are undefined, and when FreeType itself cannot be initialised, so
  is \<^verbatim>\<open>cl_kernel_init\<close>: the members hold unspecified values, which are the handles of nothing.
\<close>

theorem osd_life_releases:
  assumes "osd_buffers env mem w ht deep h0 = (m, h1)"
    and "cl_setup env path (m, h1) = Some (Inr (m2, h2))"
    and "ft_m mem = Some l0" and "FtLibrary l0 \<notin># objects h0"
    and "face_m mem = Some f0" and "FtFace f0 \<notin># objects h0"
  shows "case x_ft env h2 of
      None \<Rightarrow> cl_kernel_init env path (m, h1) = None
    | Some l \<Rightarrow> (\<exists>m' h3. cl_kernel_init env path (m, h1) = Some (CL_SUCCESS, m', h3) \<and>
        (case x_face env (FtInit (Some l) # h2) (Some l) of
           None \<Rightarrow> osd_destroy (m', h3) = None \<and> osd_use env m' (Glyph n) h3 = None
         | Some f \<Rightarrow> (\<exists>src bs h4 h5. foldM (osd_use env m') ops h3 = Some h4
             \<and> osd_destroy (m', h4) = Some h5
             \<and> objects h5 = objects h0 + {#Block src#} + mset (map Block bs)
             \<and> length bs = length (filter (\<lambda>p. p \<noteq> Render) ops))))"
proof -
  have h1: "objects h1 = objects h0 + {#Block (image_addr m), Block (font_addr m)#}" "ft_m m = Some l0" "face_m m = Some f0"
    using assms(1,3,5) by (auto simp: osd_buffers_def Let_def)
  from setup_objects [OF assms(2)] h1 obtain src where
    h2: "objects h2 = objects h0 + {#Block (image_addr m2), Block (font_addr m2)#} + {#Block src#}
      + one Program (program_m m2) + one Queue (queue_m m2) + one Context (context_m m2) + one Kernel (kernel_m m2)"
    and m2: "ft_m m2 = Some l0" "face_m m2 = Some f0" by auto
  note init = cl_kernel_init_def assms(2) ft_setup_def perform_def Let_def
  have no_lib: "FtLibrary l0 \<notin># objects h2" and no_face: "FtFace f0 \<notin># objects h2"
    unfolding h2 using assms(4,6) by (auto simp: one_def split: option.splits)
  show ?thesis
  proof (cases "x_ft env h2")
    case None
    then show ?thesis using m2 no_lib by (simp add: init)
  next
    case (Some l)
    let ?h = "FtInit (Some l) # h2"
    show ?thesis
    proof (cases "x_face env ?h (Some l)")
      case None
      let ?m = "m2\<lparr>ft_m := Some l\<rparr>" and ?h3 = "FtNewFace (Some l) None # ?h"
      have "cl_kernel_init env path (m, h1) = Some (CL_SUCCESS, ?m, ?h3)"
        using Some None by (simp add: init)
      moreover have "\<not> live_face h f0" if "FtFace f0 \<notin># objects h" for h
        using that by (simp add: live_face_def)
      then have "osd_destroy (?m, ?h3) = None" "osd_use env ?m (Glyph n) ?h3 = None"
        using m2 no_face by (auto simp: osd_destroy_def glyph_copy_def perform_def one_def in_diff_count not_in_iff
            split: bind_splits option.splits if_splits dest: in_diffD)
      ultimately show ?thesis using Some None by auto
    next
      case (Some f)
      let ?m = "m2\<lparr>ft_m := Some l, face_m := Some f\<rparr>" and ?h3 = "FtNewFace (Some l) (Some f) # ?h"
      have "cl_kernel_init env path (m, h1) = Some (CL_SUCCESS, ?m, ?h3)"
        using Some \<open>x_ft env h2 = Some l\<close> by (simp add: init)
      moreover have "set_up ?m (objects h0 + {#Block src#}) ?h3"
        by (simp add: set_up_def members_hold_def h2)
      from use_set_up [OF this, of env ops] obtain h4 bs where "foldM (osd_use env ?m) ops ?h3 = Some h4"
        "set_up ?m (objects h0 + {#Block src#} + mset (map Block bs)) h4"
        "length bs = length (filter (\<lambda>p. p \<noteq> Render) ops)" by blast
      moreover from destroy_set_up [OF this(2)] obtain h5 where "osd_destroy (?m, h4) = Some h5"
        "objects h5 = objects h0 + {#Block src#} + mset (map Block bs)" by blast
      ultimately show ?thesis using Some \<open>x_ft env h2 = Some l\<close> by auto
    qed
  qed
qed

section \<open>Witnesses\<close>

definition demo_cl :: cl_env where
  "demo_cl = \<lparr>x_malloc = \<lambda>h n. length h, x_open = \<lambda>h. True, x_read = \<lambda>h. 100, x_platform = \<lambda>h. 0, x_device = \<lambda>h. 0,
     x_context = \<lambda>h. Some 1, x_queue = \<lambda>h c. Some 2, x_program = \<lambda>h c. Some 3, x_build = \<lambda>h p. 0,
     x_log_size = \<lambda>h. 10, x_kernel = \<lambda>h p. Some 4, x_buffer = \<lambda>h c. Some (length h), x_ft = \<lambda>h. Some 5,
     x_face = \<lambda>h l. Some 6\<rparr>"

definition wild_members :: cl_members where
  "wild_members = \<lparr>program_m = Some 9, queue_m = Some 9, context_m = Some 9, kernel_m = Some 9, ft_m = Some 9,
     face_m = Some 9, image_addr = 0, font_addr = 0\<rparr>"

text \<open>Two glyphs and a rendering leave three blocks; without the font file, no object can be destroyed.\<close>

theorem osd_life_releases_witness:
  "(\<exists>m h m' h' h4 h5. osd_buffers demo_cl wild_members 1920 1080 4 [] = (m, h)
      \<and> cl_kernel_init demo_cl ''text_render.cl'' (m, h) = Some (CL_SUCCESS, m', h')
      \<and> foldM (osd_use demo_cl m') [Glyph 60, Render, Glyph 80] h' = Some h4
      \<and> osd_destroy (m', h4) = Some h5 \<and> size (objects h5) = 3)
   \<and> (\<exists>m h m' h'. osd_buffers (demo_cl\<lparr>x_face := \<lambda>h l. None\<rparr>) wild_members 1920 1080 4 [] = (m, h)
      \<and> cl_kernel_init (demo_cl\<lparr>x_face := \<lambda>h l. None\<rparr>) ''text_render.cl'' (m, h) = Some (CL_SUCCESS, m', h')
      \<and> osd_destroy (m', h') = None)"
proof -
  have run: "\<exists>m2 h2. cl_setup (demo_cl\<lparr>x_face := xf\<rparr>) ''text_render.cl'' (m, h) = Some (Inr (m2, h2))" for xf m h
    by (simp add: cl_setup_def demo_cl_def Let_def)
  have wild: "ft_m wild_members = Some 9" "face_m wild_members = Some 9"
    "FtLibrary 9 \<notin># objects []" "FtFace 9 \<notin># objects []"
    by (simp_all add: wild_members_def)
  obtain m h where b: "osd_buffers demo_cl wild_members 1920 1080 4 [] = (m, h)" by fastforce
  then have b': "osd_buffers (demo_cl\<lparr>x_face := \<lambda>h l. None\<rparr>) wild_members 1920 1080 4 [] = (m, h)"
    by (simp add: osd_buffers_def demo_cl_def)
  have id: "demo_cl\<lparr>x_face := x_face demo_cl\<rparr> = demo_cl" by simp
  obtain m2 h2 where s: "cl_setup demo_cl ''text_render.cl'' (m, h) = Some (Inr (m2, h2))"
    using run [of "x_face demo_cl" m h] unfolding id by blast
  obtain m3 h3 where s': "cl_setup (demo_cl\<lparr>x_face := \<lambda>h l. None\<rparr>) ''text_render.cl'' (m, h) = Some (Inr (m3, h3))"
    using run by blast
  have ft: "x_ft demo_cl h2 = Some 5" "x_face demo_cl h' l = Some 6" for h' l by (simp_all add: demo_cl_def)
  have "\<exists>m' h' h4 h5. cl_kernel_init demo_cl ''text_render.cl'' (m, h) = Some (CL_SUCCESS, m', h')
      \<and> foldM (osd_use demo_cl m') [Glyph 60, Render, Glyph 80] h' = Some h4
      \<and> osd_destroy (m', h4) = Some h5 \<and> size (objects h5) = 3"
    using osd_life_releases [OF b s wild(1,3) wild(2,4), where ops = "[Glyph 60, Render, Glyph 80]"]
    unfolding ft option.case
    by (elim exE conjE) (intro exI conjI, assumption+, simp)
  moreover have "\<exists>m' h'. cl_kernel_init (demo_cl\<lparr>x_face := \<lambda>h l. None\<rparr>) ''text_render.cl'' (m, h) = Some (CL_SUCCESS, m', h')
      \<and> osd_destroy (m', h') = None"
    using osd_life_releases [OF b' s' wild(1,3) wild(2,4)] by (simp add: demo_cl_def) blast
  ultimately show ?thesis using b b' by blast
qed

end
