(* ===== verification/SfudBus.thy ===== *)
theory SfudBus
  imports SpiDev
begin

text \<open>
  The serial flash driver below its read, erase and write operations: the types of
  \<^verbatim>\<open>3rdparty/sfud/inc/sfud_def.h\<close> and \<^verbatim>\<open>sfud_flash_def.h\<close>, the port layer that the repository adapts
  to its SPI master (\<^verbatim>\<open>port/sfud_port.c\<close>), and the register commands of \<^verbatim>\<open>src/sfud.c\<close>. The
  configuration is that of \<^verbatim>\<open>sfud_cfg.h\<close>: debug mode, SFDP and the chip table, no QSPI and no fast
  read; the lock and delay hooks are null. 32-bit and 64-bit values are natural numbers below their
  bound, with the wrap-around written out.

  A function takes and returns the SPI handle with its history of calls. The result is \<open>None\<close> where
  the program does not go on: a failing \<^verbatim>\<open>SFUD_ASSERT\<close> loops forever, and the rest is undefined
  behaviour. Memory is assumed not to run out in \<^verbatim>\<open>spi_write_read\<close>, and a \<^verbatim>\<open>memcpy\<close> of no bytes to a
  null pointer is taken to do nothing. Messages are left out.
\<close>

section \<open>Types\<close>

datatype sfud_err = SFUD_SUCCESS | SFUD_ERR_NOT_FOUND | SFUD_ERR_WRITE | SFUD_ERR_READ
  | SFUD_ERR_TIMEOUT | SFUD_ERR_ADDR_OUT_OF_BOUND

record sfud_flash_chip =
  mf_id :: u8
  type_id :: u8
  capacity_id :: u8
  capacity :: nat
  write_mode :: u16
  erase_gran :: nat
  erase_gran_cmd :: u8

definition SFUD_WM_PAGE_256B :: u16 where "SFUD_WM_PAGE_256B = 1"
definition SFUD_WM_BYTE :: u16 where "SFUD_WM_BYTE = 2"
definition SFUD_WM_AAI :: u16 where "SFUD_WM_AAI = 4"
definition SFUD_WM_DUAL_BUFFER :: u16 where "SFUD_WM_DUAL_BUFFER = 8"

lemmas write_modes = SFUD_WM_PAGE_256B_def SFUD_WM_BYTE_def SFUD_WM_AAI_def SFUD_WM_DUAL_BUFFER_def

record eraser =
  e_size :: nat
  e_cmd :: u8

record sfud_sfdp =
  available :: bool
  major_rev :: u8
  minor_rev :: u8
  write_gran :: nat
  erase_4k :: bool
  erase_4k_cmd :: u8
  sr_is_non_vola :: bool
  vola_sr_we_cmd :: u8
  addr_3_byte :: bool
  addr_4_byte :: bool
  sfdp_capacity :: nat
  erasers :: "eraser list"

record sfud_flash =
  chip :: sfud_flash_chip
  init_ok :: bool
  addr_in_4_byte :: bool
  retry_times :: nat
  sfdp :: sfud_sfdp

section \<open>The port\<close>

text \<open>
  One message on the bus: \<open>write_size + read_size\<close> bytes each way, of which the command is the first
  part, then the answer is copied out of the second. The result does not depend on the transfer: when
  it fails, the answer is what \<^verbatim>\<open>memset\<close> left, zeros. The kernel is told to send \<open>read_size\<close> bytes
  more than the command has; what it sends there is up to \<open>env\<close>.
\<close>

definition tmp_bytes :: "nat \<Rightarrow> int + u8 list \<Rightarrow> u8 list" where
  "tmp_bytes n r = (case r of Inl _ \<Rightarrow> replicate n 0 | Inr rx \<Rightarrow> take n (rx @ replicate n 0))"

definition spi_write_read ::
  "spi_env \<Rightarrow> u8 list \<Rightarrow> u8 list \<Rightarrow> nat \<Rightarrow> spi_st \<Rightarrow> (sfud_err \<times> u8 list \<times> spi_st) option" where
  "spi_write_read env write_buf read_buf read_size st =
     (let write_size = length write_buf;
          spi_size = to_i32 (int (write_size + read_size))
      in if spi_size < 0 then None
         else let (r, st') = spi_transfer env write_buf (nat spi_size) st;
                  tmp_buf = tmp_bytes (nat spi_size) r
              in if length tmp_buf < write_size + read_size \<or> length read_buf < read_size then None
                 else Some (SFUD_SUCCESS, take read_size (drop write_size tmp_buf) @ drop read_size read_buf, st'))"

definition sfud_spi_port_init :: "spi_env \<Rightarrow> bool \<Rightarrow> sfud_flash \<Rightarrow> spi_hist \<Rightarrow> (sfud_err \<times> sfud_flash \<times> spi_st) option" where
  "sfud_spi_port_init env calloc_ok f h =
     (case spi_new calloc_ok of
        None \<Rightarrow> None
      | Some s \<Rightarrow>
          let (_, st) = spi_open env ''/dev/spidev4.0'' 0 20000000 (s, h)
          in Some (SFUD_SUCCESS, f\<lparr>retry_times := 10000\<rparr>, st))"

section \<open>Register commands\<close>

definition sfud_read_status :: "spi_env \<Rightarrow> spi_st \<Rightarrow> (sfud_err \<times> u8 \<times> spi_st) option" where
  "sfud_read_status env st =
     do { (r, status, st) \<leftarrow> spi_write_read env [0x05] [0] 1 st; Some (r, status ! 0, st) }"

text \<open>The retry counter is tested before it is decremented: \<open>n\<close> retries are \<open>n + 1\<close> reads.\<close>

primrec wait_busy_loop :: "spi_env \<Rightarrow> nat \<Rightarrow> spi_st \<Rightarrow> (sfud_err \<times> spi_st) option" where
  "wait_busy_loop env 0 st =
     do { (r, status, st) \<leftarrow> sfud_read_status env st;
          Some (if r = SFUD_SUCCESS \<and> \<not> bit status 0 then r else SFUD_ERR_TIMEOUT, st) }"
| "wait_busy_loop env (Suc n) st =
     do { (r, status, st) \<leftarrow> sfud_read_status env st;
          if r = SFUD_SUCCESS \<and> \<not> bit status 0 then Some (r, st) else wait_busy_loop env n st }"

definition wait_busy :: "spi_env \<Rightarrow> sfud_flash \<Rightarrow> spi_st \<Rightarrow> (sfud_err \<times> spi_st) option" where
  "wait_busy env f st = wait_busy_loop env (retry_times f) st"

definition set_write_enabled :: "spi_env \<Rightarrow> bool \<Rightarrow> spi_st \<Rightarrow> (sfud_err \<times> spi_st) option" where
  "set_write_enabled env enabled st =
     do { (r, _, st) \<leftarrow> spi_write_read env [if enabled then 0x06 else 0x04] [] 0 st;
          if r \<noteq> SFUD_SUCCESS then Some (r, st)
          else do {
            (r, register_status, st) \<leftarrow> sfud_read_status env st;
            Some (if r = SFUD_SUCCESS \<and> bit register_status 1 \<noteq> enabled then SFUD_ERR_WRITE else r, st) } }"

definition make_address_byte_array :: "sfud_flash \<Rightarrow> nat \<Rightarrow> u8 list" where
  "make_address_byte_array f addr =
     (let len = (if addr_in_4_byte f then 4 else 3)
      in map (\<lambda>i. word_of_nat (addr div 2 ^ ((len - (i + 1)) * 8))) [0..<len])"

definition reset_flash :: "spi_env \<Rightarrow> sfud_flash \<Rightarrow> spi_st \<Rightarrow> (sfud_err \<times> spi_st) option" where
  "reset_flash env f st =
     do { (r, _, st) \<leftarrow> spi_write_read env [0x66] [] 0 st;
          if r \<noteq> SFUD_SUCCESS then Some (r, st)
          else do {
            (_, st) \<leftarrow> wait_busy env f st;
            (r, _, st) \<leftarrow> spi_write_read env [0x99] [] 0 st;
            if r \<noteq> SFUD_SUCCESS then Some (r, st) else wait_busy env f st } }"

definition read_jedec_id :: "spi_env \<Rightarrow> sfud_flash \<Rightarrow> spi_st \<Rightarrow> (sfud_err \<times> sfud_flash \<times> spi_st) option" where
  "read_jedec_id env f st =
     do { (r, recv, st) \<leftarrow> spi_write_read env [0x9F] (replicate 3 0) 3 st;
          Some (r, if r = SFUD_SUCCESS
                   then f\<lparr>chip := (chip f)\<lparr>mf_id := recv ! 0, type_id := recv ! 1, capacity_id := recv ! 2\<rparr>\<rparr>
                   else f, st) }"

definition set_4_byte_address_mode ::
  "spi_env \<Rightarrow> bool \<Rightarrow> sfud_flash \<Rightarrow> spi_st \<Rightarrow> (sfud_err \<times> sfud_flash \<times> spi_st) option" where
  "set_4_byte_address_mode env enabled f st =
     do { (r, st) \<leftarrow> set_write_enabled env True st;
          if r \<noteq> SFUD_SUCCESS then Some (r, f, st)
          else do {
            (r, _, st) \<leftarrow> spi_write_read env [if enabled then 0xB7 else 0xE9] [] 0 st;
            Some (r, if r = SFUD_SUCCESS then f\<lparr>addr_in_4_byte := enabled\<rparr> else f, st) } }"

definition sfud_write_status :: "spi_env \<Rightarrow> bool \<Rightarrow> u8 \<Rightarrow> spi_st \<Rightarrow> (sfud_err \<times> spi_st) option" where
  "sfud_write_status env is_volatile status st =
     do { (r, st) \<leftarrow> (if is_volatile
                      then do { (r, _, st) \<leftarrow> spi_write_read env [0x50] [] 0 st; Some (r, st) }
                      else set_write_enabled env True st);
          if r \<noteq> SFUD_SUCCESS then Some (r, st)
          else do { (r, _, st) \<leftarrow> spi_write_read env [0x01, status] [] 0 st; Some (r, st) } }"

section \<open>The bus on every branch\<close>

lemma tmp_bytes_length [simp]: "length (tmp_bytes n r) = n"
  by (auto simp: tmp_bytes_def split: sum.split)

lemma spi_write_read_SUCCESS: "spi_write_read env wb rb n st = Some (r, b, st') \<Longrightarrow> r = SFUD_SUCCESS \<and> length b = length rb"
  by (auto simp: spi_write_read_def Let_def split: prod.splits if_splits)

lemma spi_write_read_eq:
  assumes "length wb + n < 2 ^ 31" and "n \<le> length rb"
  shows "spi_write_read env wb rb n st =
    (let (r, st') = spi_transfer env wb (length wb + n) st
     in Some (SFUD_SUCCESS, take n (drop (length wb) (tmp_bytes (length wb + n) r)) @ drop n rb, st'))"
proof -
  have "to_i32 (int (length wb + n)) = int (length wb + n)"
    using assms(1) by (intro to_i32_id) (simp add: in_i32_def)
  then have "to_i32 (int (length wb) + int n) = int (length wb + n)" by simp
  with assms(2) show ?thesis
    by (simp add: spi_write_read_def Let_def nat_add_distrib split: prod.split)
qed

lemma spi_write_read_returns:
  assumes "length wb + n < 2 ^ 31" and "n \<le> length rb"
  shows "\<exists>b st'. spi_write_read env wb rb n st = Some (SFUD_SUCCESS, b, st') \<and> length b = length rb"
  using assms by (simp add: spi_write_read_eq Let_def split: prod.split)

lemma sfud_read_status_returns: "\<exists>b st'. sfud_read_status env st = Some (SFUD_SUCCESS, b, st')"
proof -
  obtain b st' where "spi_write_read env [0x05] [0] 1 st = Some (SFUD_SUCCESS, b, st')"
    using spi_write_read_returns [of "[0x05]" 1 "[0]" env st] by auto
  then show ?thesis by (simp add: sfud_read_status_def)
qed

lemma wait_busy_loop_returns: "\<exists>r st'. wait_busy_loop env n st = Some (r, st') \<and> r \<in> {SFUD_SUCCESS, SFUD_ERR_TIMEOUT}"
proof (induction n arbitrary: st)
  case 0
  obtain b st' where "sfud_read_status env st = Some (SFUD_SUCCESS, b, st')"
    using sfud_read_status_returns by blast
  then show ?case by simp
next
  case (Suc n)
  obtain b st' where "sfud_read_status env st = Some (SFUD_SUCCESS, b, st')"
    using sfud_read_status_returns by blast
  with Suc.IH [of st'] show ?case by auto
qed

lemma set_write_enabled_returns:
  "\<exists>r st'. set_write_enabled env b st = Some (r, st') \<and> r \<in> {SFUD_SUCCESS, SFUD_ERR_WRITE}"
proof -
  let ?c = "[if b then 0x06 else 0x04] :: u8 list"
  obtain x st1 where 1: "spi_write_read env ?c [] 0 st = Some (SFUD_SUCCESS, x, st1)"
    using spi_write_read_returns [of ?c 0 "[]" env st] by auto
  obtain s st2 where "sfud_read_status env st1 = Some (SFUD_SUCCESS, s, st2)"
    using sfud_read_status_returns by blast
  with 1 show ?thesis by (simp add: set_write_enabled_def)
qed

lemma make_address_length: "length (make_address_byte_array f addr) = (if addr_in_4_byte f then 4 else 3)"
  by (simp add: make_address_byte_array_def Let_def)

end
