(* ===== verification/SfudSfdp.thy ===== *)
theory SfudSfdp
  imports SfudBus
begin

text \<open>
  The flash parameters the driver reads from the chip: \<^verbatim>\<open>3rdparty/sfud/src/sfud_sfdp.c\<close>. Shown: the
  eraser table is sorted, and the eraser that is chosen for a range is one that fits it, or the
  smallest.
\<close>

section \<open>Reading the tables\<close>

definition byte_at :: "nat \<Rightarrow> nat \<Rightarrow> u8" where
  "byte_at n k = word_of_nat (n div 2 ^ (8 * k))"

definition read_sfdp_data :: "spi_env \<Rightarrow> nat \<Rightarrow> nat \<Rightarrow> spi_st \<Rightarrow> (sfud_err \<times> u8 list \<times> spi_st) option" where
  "read_sfdp_data env addr n st =
     (if addr < 2 ^ 24
      then spi_write_read env [0x5A, byte_at addr 2, byte_at addr 1, byte_at addr 0, 0xFF] (replicate n 0) n st
      else None)"

definition read_sfdp_header :: "spi_env \<Rightarrow> sfud_sfdp \<Rightarrow> spi_st \<Rightarrow> (bool \<times> sfud_sfdp \<times> spi_st) option" where
  "read_sfdp_header env p st =
     (let p = p\<lparr>available := False\<rparr>
      in do { (r, header, st) \<leftarrow> read_sfdp_data env 0 8 st;
              if r \<noteq> SFUD_SUCCESS then Some (False, p, st)
              else if take 4 header \<noteq> [0x53, 0x46, 0x44, 0x50] then Some (False, p, st)
              else let p = p\<lparr>minor_rev := header ! 4, major_rev := header ! 5\<rparr>
                   in Some (\<not> major_rev p > 1, p, st) })"

record sfdp_para_header =
  h_id :: u8
  h_minor_rev :: u8
  h_major_rev :: u8
  h_len :: u8
  h_ptp :: nat

definition read_basic_header :: "spi_env \<Rightarrow> spi_st \<Rightarrow> (bool \<times> sfdp_para_header \<times> spi_st) option" where
  "read_basic_header env st =
     do { (r, header, st) \<leftarrow> read_sfdp_data env 8 8 st;
          let b = \<lparr>h_id = header ! 0, h_minor_rev = header ! 1, h_major_rev = header ! 2, h_len = header ! 3,
                   h_ptp = unat (header ! 4) + unat (header ! 5) * 2 ^ 8 + unat (header ! 6) * 2 ^ 16\<rparr>;
          Some (r = SFUD_SUCCESS \<and> \<not> h_major_rev b > 1 \<and> \<not> h_len b < 9, b, st) }"

text \<open>The capacity in bytes; \<open>Inl\<close> a capacity that is refused. The shift by a negative amount is undefined.\<close>

definition table_capacity :: "u8 list \<Rightarrow> (unit + nat) option" where
  "table_capacity table =
     (let table2_temp = unat (table ! 7) * 2 ^ 24 + unat (table ! 6) * 2 ^ 16 + unat (table ! 5) * 2 ^ 8 + unat (table ! 4)
      in if \<not> bit (table ! 7) 7 then Some (Inr (1 + table2_temp div 8))
         else let n = table2_temp mod 2 ^ 31
              in if n > 4 * 8 + 3 then Some (Inl ())
                 else if n < 3 then None
                 else Some (Inr (2 ^ (n - 3) mod 2 ^ 32)))"

text \<open>The erase sizes and commands; a shift of \<^verbatim>\<open>1L\<close> by 63 or more is undefined.\<close>

definition add_eraser :: "u8 list \<Rightarrow> nat \<Rightarrow> nat \<times> eraser list \<Rightarrow> (nat \<times> eraser list) option" where
  "add_eraser table i = (\<lambda>(j, es).
     let n = unat (table ! (28 + 2 * i))
     in if n = 0 then Some (j, es)
        else if n \<ge> 63 then None
        else Some (j + 1, es[j := \<lparr>e_size = 2 ^ n mod 2 ^ 32, e_cmd = table ! (28 + 2 * i + 1)\<rparr>]))"

definition sort_swap :: "nat \<Rightarrow> nat \<Rightarrow> eraser list \<Rightarrow> eraser list" where
  "sort_swap i j es =
     (if e_size (es ! j) \<noteq> 0 \<and> e_size (es ! i) > e_size (es ! j) then es[i := es ! j, j := es ! i] else es)"

definition sort_pass :: "nat \<Rightarrow> eraser list \<Rightarrow> eraser list" where
  "sort_pass i es = (if e_size (es ! i) \<noteq> 0 then fold (sort_swap i) [i + 1..<4] es else es)"

definition sort_erasers :: "eraser list \<Rightarrow> eraser list" where
  "sort_erasers es = fold sort_pass [0..<4] es"

definition read_basic_table ::
  "spi_env \<Rightarrow> sfud_sfdp \<Rightarrow> sfdp_para_header \<Rightarrow> spi_st \<Rightarrow> (bool \<times> sfud_sfdp \<times> spi_st) option" where
  "read_basic_table env p b st =
     do { (r, table, st) \<leftarrow> read_sfdp_data env (h_ptp b) 36 st;
          if r \<noteq> SFUD_SUCCESS then Some (False, p, st)
          else
            let p = p\<lparr>erase_4k_cmd := table ! 1\<rparr>; e = table ! 0 AND 3
            in if e \<noteq> 1 \<and> e \<noteq> 3 then Some (False, p, st)
            else
              let p = p\<lparr>erase_4k := (e = 1), write_gran := (if bit (table ! 0) 2 then 256 else 1),
                        sr_is_non_vola := \<not> bit (table ! 0) 3\<rparr>;
                  p = (if bit (table ! 0) 3
                       then p\<lparr>vola_sr_we_cmd := (if bit (table ! 0) 4 then 0x06 else 0x50)\<rparr> else p);
                  a = table ! 2 AND 6;
                  p = p\<lparr>addr_3_byte := (a = 0 \<or> a = 2), addr_4_byte := (a = 2 \<or> a = 4)\<rparr>
              in if a = 6 then Some (False, p, st)
              else do {
                cap \<leftarrow> table_capacity table;
                (case cap of
                   Inl _ \<Rightarrow> Some (False, p\<lparr>sfdp_capacity := 0\<rparr>, st)
                 | Inr c \<Rightarrow> do {
                     (_, es) \<leftarrow> foldM (add_eraser table) [0..<4] (0, erasers p);
                     Some (True, p\<lparr>sfdp_capacity := c, erasers := sort_erasers es, available := True\<rparr>, st) }) } }"

definition sfud_read_sfdp :: "spi_env \<Rightarrow> sfud_sfdp \<Rightarrow> spi_st \<Rightarrow> (bool \<times> sfud_sfdp \<times> spi_st) option" where
  "sfud_read_sfdp env p st =
     do { (ok, p, st) \<leftarrow> read_sfdp_header env p st;
          if \<not> ok then Some (False, p, st)
          else do { (ok, b, st) \<leftarrow> read_basic_header env st;
                    if ok then read_basic_table env p b st else Some (False, p, st) } }"

section \<open>Choosing an eraser\<close>

text \<open>The eraser for a range, searched from the largest; the remainder by a size of 0 is undefined.\<close>

definition get_suitable_eraser :: "eraser list \<Rightarrow> nat \<Rightarrow> nat \<Rightarrow> nat option" where
  "get_suitable_eraser es addr n =
     (if e_size (es ! 0) = 0 then None
      else if addr mod e_size (es ! 0) \<noteq> 0 then Some 0
      else case find (\<lambda>i. e_size (es ! i) \<noteq> 0 \<and> n \<ge> e_size (es ! i) \<and> addr mod e_size (es ! i) = 0) [3, 2, 1, 0] of
             Some i \<Rightarrow> Some i
           | None \<Rightarrow> Some 0)"

lemma suitable_eraser_fits:
  assumes "get_suitable_eraser es addr n = Some i"
  shows "i < 4 \<and> e_size (es ! 0) \<noteq> 0
    \<and> (i = 0 \<or> e_size (es ! i) \<noteq> 0 \<and> e_size (es ! i) \<le> n \<and> addr mod e_size (es ! i) = 0)"
  using assms by (auto simp: get_suitable_eraser_def split: if_splits option.splits)

text \<open>
  The fewest commands for what lies ahead: of the erasers that fit the range, the one chosen is the
  last of the table, which in a sorted table is the largest.
\<close>

lemma suitable_eraser_last:
  assumes "get_suitable_eraser es addr n = Some i" and "addr mod e_size (es ! 0) = 0"
    and "j < 4" and "e_size (es ! j) \<noteq> 0" and "e_size (es ! j) \<le> n" and "addr mod e_size (es ! j) = 0"
  shows "j \<le> i"
proof -
  have "j \<in> {0, 1, 2, 3}" using assms(3) by auto
  with assms show ?thesis
    by (auto simp: get_suitable_eraser_def split: if_splits option.splits)
qed

text \<open>
  The eraser table: the sort permutes it, and when the \<open>k\<close> erasers that are there come first, as
  \<open>add_eraser\<close> puts them, it leaves them there in ascending order. The invariant of the outer loop: the
  first \<open>i\<close> erasers are in their place.
\<close>

definition sorted_upto :: "nat \<Rightarrow> nat \<Rightarrow> eraser list \<Rightarrow> bool" where
  "sorted_upto k i es \<longleftrightarrow> length es = 4 \<and> (\<forall>l < 4. e_size (es ! l) \<noteq> 0 \<longleftrightarrow> l < k)
     \<and> (\<forall>a b. a < i \<and> a < b \<and> b < k \<longrightarrow> e_size (es ! a) \<le> e_size (es ! b))"

lemma sort_swap_inv:
  assumes "sorted_upto k i es" and "i < j" and "j < 4" and "i < k" and "k \<le> 4"
  shows "sorted_upto k i (sort_swap i j es)"
proof (cases "e_size (es ! j) \<noteq> 0 \<and> e_size (es ! i) > e_size (es ! j)")
  case True
  with assms show ?thesis
    by (auto simp: sorted_upto_def sort_swap_def nth_list_update)
next
  case False
  then have "sort_swap i j es = es" by (auto simp: sort_swap_def)
  with assms(1) show ?thesis by simp
qed

lemma sort_pass_inv:
  assumes "sorted_upto k i es" and "i < m" and "m \<le> 4" and "i < k" and "k \<le> 4"
  shows "sorted_upto k i (fold (sort_swap i) [i + 1..<m] es)
    \<and> (\<forall>j. i < j \<and> j < m \<and> j < k \<longrightarrow>
         e_size (fold (sort_swap i) [i + 1..<m] es ! i) \<le> e_size (fold (sort_swap i) [i + 1..<m] es ! j))"
  using assms(2,3)
proof (induction m)
  case (Suc m)
  let ?e = "fold (sort_swap i) [i + 1..<m] es"
  show ?case
  proof (cases "i = m")
    case True
    with assms(1) show ?thesis by simp
  next
    case False
    then have m: "i < m" "m < 4" using Suc.prems by auto
    then have ih: "sorted_upto k i ?e" "\<forall>j. i < j \<and> j < m \<and> j < k \<longrightarrow> e_size (?e ! i) \<le> e_size (?e ! j)"
      using Suc.IH by auto
    have "fold (sort_swap i) [i + 1..<Suc m] es = sort_swap i m ?e" using m(1) by simp
    moreover have "\<forall>j. i < j \<and> j < Suc m \<and> j < k \<longrightarrow>
        e_size (sort_swap i m ?e ! i) \<le> e_size (sort_swap i m ?e ! j)"
      using ih m assms(4,5) by (auto simp: sorted_upto_def sort_swap_def nth_list_update less_Suc_eq)
    ultimately show ?thesis
      using sort_swap_inv [OF ih(1) m assms(4,5)] by simp
  qed
qed simp

lemma sort_erasers_sorted:
  assumes "sorted_upto k 0 es" and "k \<le> 4"
  shows "sorted_upto k k (sort_erasers es)"
proof -
  have step: "sorted_upto k (Suc i) (sort_pass i es)" if i: "i < 4" and inv: "sorted_upto k i es" for i es
  proof (cases "i < k")
    case True
    with i inv have nz: "e_size (es ! i) \<noteq> 0" by (simp add: sorted_upto_def)
    let ?e = "fold (sort_swap i) [i + 1..<4] es"
    have p: "sorted_upto k i ?e" "\<forall>j. i < j \<and> j < 4 \<and> j < k \<longrightarrow> e_size (?e ! i) \<le> e_size (?e ! j)"
      using sort_pass_inv [OF inv i _ True assms(2)] by blast+
    with assms(2) have "sorted_upto k (Suc i) ?e"
      by (auto simp: sorted_upto_def less_Suc_eq)
    with nz show ?thesis by (simp add: sort_pass_def)
  next
    case False
    with i inv have "sort_pass i es = es" by (simp add: sorted_upto_def sort_pass_def)
    with False inv show ?thesis by (auto simp: sorted_upto_def less_Suc_eq)
  qed
  have "sorted_upto k m (fold sort_pass [0..<m] es)" if "m \<le> 4" for m
    using that
  proof (induction m)
    case 0
    with assms(1) show ?case by simp
  next
    case (Suc m)
    then show ?case using step [of m "fold sort_pass [0..<m] es"] by simp
  qed
  from this [of 4] have "sorted_upto k 4 (sort_erasers es)" by (simp add: sort_erasers_def)
  with assms(2) show ?thesis by (simp add: sorted_upto_def)
qed

lemma sort_erasers_mset: "length es = 4 \<Longrightarrow> mset (sort_erasers es) = mset es"
proof -
  have pass: "length (fold (sort_swap i) js es) = 4 \<and> mset (fold (sort_swap i) js es) = mset es"
    if "i < 4" "set js \<subseteq> {..<4}" "length es = 4" for i js es
    using that
  proof (induction js arbitrary: es)
    case (Cons j js)
    have "length (sort_swap i j es) = 4" "mset (sort_swap i j es) = mset es"
      using Cons.prems by (auto simp: sort_swap_def mset_swap)
    with Cons show ?case by simp
  qed simp
  have "length (fold sort_pass is es) = 4 \<and> mset (fold sort_pass is es) = mset es" if "set is \<subseteq> {..<4}" "length es = 4" for "is" es
    using that
  proof (induction "is" arbitrary: es)
    case (Cons i is')
    have "length (sort_pass i es) = 4 \<and> mset (sort_pass i es) = mset es"
      using pass [of i "[i + 1..<4]" es] Cons.prems by (auto simp: subset_iff sort_pass_def)
    with Cons.IH [of "sort_pass i es"] Cons.prems(1) show ?case by simp
  qed simp
  from this [of "[0..<4]" es] show "length es = 4 \<Longrightarrow> mset (sort_erasers es) = mset es"
    by (auto simp: sort_erasers_def subset_iff)
qed

text \<open>The table that is read has its erasers first, each with a power of two as its size.\<close>

definition power_sizes :: "nat \<Rightarrow> eraser list \<Rightarrow> bool" where
  "power_sizes k es \<longleftrightarrow> length es = 4 \<and> k \<le> 4 \<and> (\<forall>l < 4. if l < k then (\<exists>p < 32. e_size (es ! l) = 2 ^ p) else e_size (es ! l) = 0)"

lemma add_eraser_sizes:
  assumes "add_eraser table i (j, es) = Some (j', es')" and "power_sizes j es" and "j < 4"
    and "unat (table ! (28 + 2 * i)) < 32"
  shows "power_sizes j' es' \<and> j' \<le> Suc j"
proof -
  have "(2 :: nat) ^ unat (table ! (28 + 2 * i)) mod 2 ^ 32 = 2 ^ unat (table ! (28 + 2 * i))"
    using assms(4) by (intro mod_less power_strict_increasing) simp_all
  then show ?thesis
    using assms by (auto simp: add_eraser_def Let_def power_sizes_def nth_list_update less_Suc_eq split: if_splits)
qed

lemma add_erasers_sizes:
  assumes "foldM (add_eraser table) [0..<m] (0, es0) = Some (k, es)" and "power_sizes 0 es0" and "m \<le> 4"
    and "\<forall>i < 4. unat (table ! (28 + 2 * i)) < 32"
  shows "power_sizes k es \<and> k \<le> m"
  using assms(1,3)
proof (induction m arbitrary: k es)
  case (Suc m)
  then obtain k1 es1 where r: "foldM (add_eraser table) [0..<m] (0, es0) = Some (k1, es1)"
    "add_eraser table m (k1, es1) = Some (k, es)"
    by (auto simp: foldM_append split: bind_splits)
  with Suc have "power_sizes k1 es1" "k1 \<le> m" by auto
  with add_eraser_sizes [OF r(2)] assms(4) Suc.prems(2) show ?case by fastforce
qed (use assms(2) in simp)

lemma power_dvd_aligned:
  fixes addr :: nat
  assumes "(2 :: nat) ^ p \<le> 2 ^ q" and "addr mod 2 ^ q = 0"
  shows "addr mod 2 ^ p = 0"
  using assms by (meson dvd_eq_mod_eq_0 dvd_trans le_imp_power_dvd power_le_imp_le_exp one_less_numeral_iff semiring_norm(76))

text \<open>
  C13: The eraser that \<^verbatim>\<open>sfud_sfdp_get_suitable_eraser\<close> chooses from the table that
  \<^verbatim>\<open>read_basic_table\<close> reads and sorts saves commands as its comment promises. For any table whose
  erasers have sizes below 4 GiB, the sort loses no eraser, the one that is chosen is one of those
  read, none that fits the range at the address is larger, and when it does not fit itself it is the
  smallest there is.
\<close>

theorem eraser_choice_largest:
  assumes "foldM (add_eraser table) [0..<4] (0, es0) = Some (k, es)"
    and "length es0 = 4" and "\<forall>e \<in> set es0. e_size e = 0" and "\<forall>i < 4. unat (table ! (28 + 2 * i)) < 32"
    and "get_suitable_eraser (sort_erasers es) addr n = Some i"
  shows "mset (sort_erasers es) = mset es \<and> i < k
    \<and> (\<forall>e \<in> set es. e_size e \<noteq> 0 \<and> e_size e \<le> n \<and> addr mod e_size e = 0 \<longrightarrow> e_size e \<le> e_size (sort_erasers es ! i))
    \<and> (e_size (sort_erasers es ! i) \<le> n \<and> addr mod e_size (sort_erasers es ! i) = 0
       \<or> (\<forall>e \<in> set es. e_size e \<noteq> 0 \<longrightarrow> e_size (sort_erasers es ! i) \<le> e_size e))"
proof -
  let ?es = "sort_erasers es"
  have "power_sizes 0 es0" using assms(2,3) by (simp add: power_sizes_def)
  from add_erasers_sizes [OF assms(1) this _ assms(4)] have sizes: "power_sizes k es" by simp
  then have len: "length es = 4" and k: "k \<le> 4" by (simp_all add: power_sizes_def)
  have "e_size (es ! l) \<noteq> 0 \<longleftrightarrow> l < k" if "l < 4" for l
    using sizes that by (auto simp: power_sizes_def split: if_splits)
  then have "sorted_upto k 0 es" using len by (simp add: sorted_upto_def)
  from sort_erasers_sorted [OF this k] have sorted: "sorted_upto k k ?es" .
  have perm: "mset ?es = mset es" using sort_erasers_mset [OF len] .
  then have same: "set ?es = set es" by (rule mset_eq_setD)
  have at: "\<exists>l < k. e = ?es ! l" if "e \<in> set es" "e_size e \<noteq> 0" for e
    using that sorted unfolding same [symmetric] in_set_conv_nth sorted_upto_def by auto
  have ordered: "e_size (?es ! a) \<le> e_size (?es ! c)" if "a \<le> c" "c < k" for a c
    using sorted that by (cases "a = c") (auto simp: sorted_upto_def)
  have power: "\<exists>p. e_size e = 2 ^ p" if "e \<in> set es" "e_size e \<noteq> 0" for e
    using that sizes len unfolding in_set_conv_nth power_sizes_def by (auto split: if_splits)
  note c = suitable_eraser_fits [OF assms(5)]
  have zero: "0 < k" using c sorted by (auto simp: sorted_upto_def)
  have i: "i < k" using c sorted zero by (auto simp: sorted_upto_def)
  have best: "e_size e \<le> e_size (?es ! i)"
    if e: "e \<in> set es" "e_size e \<noteq> 0" "e_size e \<le> n" "addr mod e_size e = 0" for e
  proof -
    obtain l where l: "l < k" "e = ?es ! l" using at [OF e(1,2)] by blast
    have first: "?es ! 0 \<in> set es" unfolding same [symmetric] using sorted by (auto simp: sorted_upto_def)
    obtain p q where pq: "e_size (?es ! 0) = 2 ^ p" "e_size e = 2 ^ q"
      using power [OF first] power [OF e(1,2)] c by auto
    have "e_size (?es ! 0) \<le> e_size e" using ordered [of 0 l] l by simp
    then have "addr mod e_size (?es ! 0) = 0" using power_dvd_aligned [of p q addr] e(4) by (simp add: pq)
    from suitable_eraser_last [OF assms(5) this, of l] l k e have "l \<le> i" by simp
    with ordered [of l i] l i show ?thesis by simp
  qed
  have least: "e_size (?es ! 0) \<le> e_size e" if "e \<in> set es" "e_size e \<noteq> 0" for e
    using at [OF that] ordered [of 0] by auto
  show ?thesis using perm i best least c by auto
qed

theorem eraser_choice_largest_witness:
  "let t = replicate 28 0 @ [16, 0xD8, 12, 0x20, 0, 0, 15, 0x52]; z = replicate 4 \<lparr>e_size = 0, e_cmd = 0\<rparr>;
       es = snd (the (foldM (add_eraser t) [0..<4] (0, z)))
   in get_suitable_eraser (sort_erasers es) 0x18000 0x9000 = Some 1 \<and> map e_cmd (sort_erasers es) = [0x20, 0x52, 0xD8, 0]
     \<and> (\<forall>e \<in> set es. e_size e \<noteq> 0 \<and> e_size e \<le> 0x9000 \<and> 0x18000 mod e_size e = 0 \<longrightarrow> e_size e \<le> e_size (sort_erasers es ! 1))"
proof -
  let ?t = "replicate 28 0 @ [16, 0xD8, 12, 0x20, 0, 0, 15, 0x52] :: u8 list"
  let ?z = "replicate 4 \<lparr>e_size = 0, e_cmd = 0\<rparr>"
  let ?es = "[\<lparr>e_size = 65536, e_cmd = 0xD8\<rparr>, \<lparr>e_size = 4096, e_cmd = 0x20\<rparr>, \<lparr>e_size = 32768, e_cmd = 0x52\<rparr>,
    \<lparr>e_size = 0, e_cmd = 0\<rparr>]"
  have upto: "[0..<4] = [0, 1, 2, 3 :: nat]" "[Suc 0..<4] = [1, 2, 3 :: nat]" "[Suc (Suc 0)..<4] = [2, 3 :: nat]" "[3..<4] = [3 :: nat]"
    by (simp_all add: upt_rec)
  have four: "(\<forall>i < 4. P i) \<longleftrightarrow> P 0 \<and> P 1 \<and> P 2 \<and> P 3" for P :: "nat \<Rightarrow> bool"
    by (auto simp: numeral_eq_Suc less_Suc_eq)
  have rep: "replicate 4 x = [x, x, x, x]" for x :: eraser
    by (simp add: eval_nat_numeral)
  have es: "foldM (add_eraser ?t) [0..<4] (0, ?z) = Some (3, ?es)"
    by (simp add: upto add_eraser_def nth_append rep)
  have sorted: "sort_erasers ?es = [\<lparr>e_size = 4096, e_cmd = 0x20\<rparr>, \<lparr>e_size = 32768, e_cmd = 0x52\<rparr>,
      \<lparr>e_size = 65536, e_cmd = 0xD8\<rparr>, \<lparr>e_size = 0, e_cmd = 0\<rparr>]"
    by (simp add: sort_erasers_def sort_pass_def sort_swap_def upto)
  have choice: "get_suitable_eraser (sort_erasers ?es) 0x18000 0x9000 = Some 1"
    by (simp add: sorted get_suitable_eraser_def)
  from eraser_choice_largest [OF es _ _ _ choice] es sorted choice show ?thesis
    by (simp add: Let_def four nth_append)
qed

end
