(* ===== verification/SfudInit.thy ===== *)
theory SfudInit
  imports SfudSfdp
begin

text \<open>
  The initialisation of the flash driver (\<^verbatim>\<open>3rdparty/sfud/src/sfud.c\<close>) for the one device of the
  device table: the port, the identifier of the chip, its parameters from the chip itself or from the
  table of known chips, the reset and the write protection. The names of chips and manufacturers are
  used only in messages and left out.
\<close>

definition chip_row :: "u8 \<Rightarrow> u8 \<Rightarrow> u8 \<Rightarrow> nat \<Rightarrow> u16 \<Rightarrow> nat \<Rightarrow> u8 \<Rightarrow> sfud_flash_chip" where
  "chip_row mf ty cap_id cap mode gran cmd =
     \<lparr>mf_id = mf, type_id = ty, capacity_id = cap_id, capacity = cap, write_mode = mode, erase_gran = gran, erase_gran_cmd = cmd\<rparr>"

definition flash_chip_table :: "sfud_flash_chip list" where
  "flash_chip_table =
    [chip_row 0x1F 0x26 0x00 2097152 (SFUD_WM_BYTE OR SFUD_WM_DUAL_BUFFER) 512 0x81,
     chip_row 0xEF 0x40 0x13 524288 (SFUD_WM_PAGE_256B) 4096 0x20,
     chip_row 0xEF 0x30 0x13 524288 (SFUD_WM_PAGE_256B) 4096 0x20,
     chip_row 0xEF 0x30 0x15 2097152 (SFUD_WM_PAGE_256B) 4096 0x20,
     chip_row 0xEF 0x40 0x15 2097152 (SFUD_WM_PAGE_256B) 4096 0x20,
     chip_row 0xEF 0x40 0x16 4194304 (SFUD_WM_PAGE_256B) 4096 0x20,
     chip_row 0xEF 0x40 0x17 8388608 (SFUD_WM_PAGE_256B) 4096 0x20,
     chip_row 0xEF 0x60 0x17 8388608 (SFUD_WM_PAGE_256B) 4096 0x20,
     chip_row 0xEF 0x40 0x18 16777216 (SFUD_WM_PAGE_256B) 4096 0x20,
     chip_row 0xEF 0x40 0x19 33554432 (SFUD_WM_PAGE_256B) 4096 0x20,
     chip_row 0xBF 0x25 0x8E 1048576 (SFUD_WM_BYTE OR SFUD_WM_AAI) 4096 0x20,
     chip_row 0xBF 0x25 0x41 2097152 (SFUD_WM_BYTE OR SFUD_WM_AAI) 4096 0x20,
     chip_row 0x20 0x20 0x16 4194304 (SFUD_WM_PAGE_256B) 65536 0xD8,
     chip_row 0x20 0x20 0x14 1048576 (SFUD_WM_PAGE_256B) 65536 0xD8,
     chip_row 0x20 0x20 0x13 524288 (SFUD_WM_PAGE_256B) 65536 0xD8,
     chip_row 0x1C 0x30 0x16 4194304 (SFUD_WM_PAGE_256B) 4096 0x20,
     chip_row 0xC8 0x40 0x17 8388608 (SFUD_WM_PAGE_256B) 4096 0x20,
     chip_row 0xC8 0x40 0x15 2097152 (SFUD_WM_PAGE_256B) 4096 0x20,
     chip_row 0xC8 0x40 0x16 4194304 (SFUD_WM_PAGE_256B) 4096 0x20,
     chip_row 0x01 0x40 0x15 2097152 (SFUD_WM_PAGE_256B) 4096 0x20,
     chip_row 0x01 0x02 0x15 4194304 (SFUD_WM_PAGE_256B) 4096 0x20,
     chip_row 0x37 0x30 0x14 1048576 (SFUD_WM_PAGE_256B) 4096 0x20,
     chip_row 0x8C 0x20 0x13 524288 (SFUD_WM_BYTE OR SFUD_WM_AAI) 4096 0x20,
     chip_row 0xBF 0x25 0x41 2097152 (SFUD_WM_BYTE OR SFUD_WM_AAI) 4096 0x20,
     chip_row 0x52 0x21 0x18 16777216 (SFUD_WM_PAGE_256B) 4096 0x20,
     chip_row 0x85 0x60 0x13 5120 (SFUD_WM_PAGE_256B) 4096 0x20,
     chip_row 0x85 0x60 0x12 1048576 (SFUD_WM_PAGE_256B) 4096 0x20,
     chip_row 0x85 0x60 0x11 2097152 (SFUD_WM_PAGE_256B) 4096 0x20,
     chip_row 0x85 0x60 0x10 4194304 (SFUD_WM_PAGE_256B) 4096 0x20,
     chip_row 0x85 0x30 0x14 8388608 (SFUD_WM_PAGE_256B) 4096 0x20
]"

text \<open>The static device table is zero before the initialisation.\<close>

definition flash_table0 :: sfud_flash where
  "flash_table0 =
     \<lparr>chip = chip_row 0 0 0 0 0 0 0, init_ok = False, addr_in_4_byte = False, retry_times = 0,
      sfdp = \<lparr>available = False, major_rev = 0, minor_rev = 0, write_gran = 0, erase_4k = False, erase_4k_cmd = 0,
        sr_is_non_vola = False, vola_sr_we_cmd = 0, addr_3_byte = False, addr_4_byte = False, sfdp_capacity = 0,
        erasers = replicate 4 \<lparr>e_size = 0, e_cmd = 0\<rparr>\<rparr>\<rparr>"

definition chip_missing :: "sfud_flash_chip \<Rightarrow> bool" where
  "chip_missing c \<longleftrightarrow> capacity c = 0 \<or> write_mode c = 0 \<or> erase_gran c = 0 \<or> erase_gran_cmd c = 0"

text \<open>The smallest eraser of the table that the chip gives, the first of equal ones.\<close>

definition smallest_eraser :: "eraser list \<Rightarrow> nat \<times> u8" where
  "smallest_eraser es =
     fold (\<lambda>i (gran, cmd). if e_size (es ! i) \<noteq> 0 \<and> gran > e_size (es ! i) then (e_size (es ! i), e_cmd (es ! i)) else (gran, cmd))
       [1..<4] (e_size (es ! 0), e_cmd (es ! 0))"

definition chip_from_sfdp :: "sfud_sfdp \<Rightarrow> sfud_flash_chip \<Rightarrow> sfud_flash_chip" where
  "chip_from_sfdp p c =
     c\<lparr>capacity := sfdp_capacity p,
       write_mode := (if write_gran p = 1 then SFUD_WM_BYTE else SFUD_WM_PAGE_256B),
       erase_gran := fst (smallest_eraser (erasers p)),
       erase_gran_cmd := snd (smallest_eraser (erasers p))\<rparr>"

definition chip_from_table :: "sfud_flash_chip \<Rightarrow> sfud_flash_chip" where
  "chip_from_table c =
     (case find (\<lambda>r. mf_id r = mf_id c \<and> type_id r = type_id c \<and> capacity_id r = capacity_id c) flash_chip_table of
        None \<Rightarrow> c
      | Some r \<Rightarrow> c\<lparr>capacity := capacity r, write_mode := write_mode r, erase_gran := erase_gran r,
                    erase_gran_cmd := erase_gran_cmd r\<rparr>)"

definition find_chip :: "spi_env \<Rightarrow> sfud_flash \<Rightarrow> spi_st \<Rightarrow> (sfud_err \<times> sfud_flash \<times> spi_st) option" where
  "find_chip env f st =
     (if \<not> chip_missing (chip f) then Some (SFUD_SUCCESS, f, st)
      else do {
        (r, f, st) \<leftarrow> read_jedec_id env f st;
        if r \<noteq> SFUD_SUCCESS then Some (r, f, st)
        else do {
          (ok, p, st) \<leftarrow> sfud_read_sfdp env (sfdp f) st;
          Some (SFUD_SUCCESS,
            f\<lparr>sfdp := p, chip := (if ok then chip_from_sfdp p (chip f) else chip_from_table (chip f))\<rparr>, st) } })"

definition unprotect :: "spi_env \<Rightarrow> sfud_flash \<Rightarrow> spi_st \<Rightarrow> (sfud_err \<times> spi_st) option" where
  "unprotect env f st =
     (let c = chip f in
      if write_mode c AND SFUD_WM_AAI \<noteq> 0 then sfud_write_status env True 0 st
      else if mf_id c = 0xC2 \<and> type_id c = 0x20 \<and> capacity_id c = 0x16 then sfud_write_status env False 0 st
      else Some (SFUD_SUCCESS, st))"

definition hardware_init :: "spi_env \<Rightarrow> bool \<Rightarrow> sfud_flash \<Rightarrow> spi_hist \<Rightarrow> (sfud_err \<times> sfud_flash \<times> spi_st) option" where
  "hardware_init env calloc_ok f h =
     do { (r, f, st) \<leftarrow> sfud_spi_port_init env calloc_ok f h;
          if r \<noteq> SFUD_SUCCESS then Some (r, f, st)
          else do {
            (r, f, st) \<leftarrow> find_chip env f st;
            if r \<noteq> SFUD_SUCCESS then Some (r, f, st)
            else if chip_missing (chip f) then Some (SFUD_ERR_NOT_FOUND, f, st)
            else do {
              (r, st) \<leftarrow> reset_flash env f st;
              if r \<noteq> SFUD_SUCCESS then Some (r, f, st)
              else do {
                (r, st) \<leftarrow> unprotect env f st;
                if r \<noteq> SFUD_SUCCESS then Some (r, f, st)
                else if capacity (chip f) > 2 ^ 24 then set_4_byte_address_mode env True f st
                else Some (SFUD_SUCCESS, f\<lparr>addr_in_4_byte := False\<rparr>, st) } } } }"

text \<open>The software part only checks its argument.\<close>

definition sfud_device_init :: "spi_env \<Rightarrow> bool \<Rightarrow> sfud_flash \<Rightarrow> spi_hist \<Rightarrow> (sfud_err \<times> sfud_flash \<times> spi_st) option" where
  "sfud_device_init env calloc_ok f h =
     do { (r, f, st) \<leftarrow> hardware_init env calloc_ok f h;
          Some (r, f\<lparr>init_ok := (r = SFUD_SUCCESS)\<rparr>, st) }"

definition sfud_init :: "spi_env \<Rightarrow> bool \<Rightarrow> spi_hist \<Rightarrow> (sfud_err \<times> sfud_flash \<times> spi_st) option" where
  "sfud_init env calloc_ok h = sfud_device_init env calloc_ok flash_table0 h"

text \<open>A device that is marked as initialised has its parameters, and counts its retries to 10000.\<close>

lemma find_chip_retry: "find_chip env f st = Some (r, f', st') \<Longrightarrow> retry_times f' = retry_times f"
  by (auto simp: find_chip_def read_jedec_id_def split: bind_splits if_splits)

lemma sfud_init_ok:
  assumes "sfud_init env calloc_ok h = Some (r, f, st)"
  shows "(init_ok f \<longleftrightarrow> r = SFUD_SUCCESS) \<and> (init_ok f \<longrightarrow> \<not> chip_missing (chip f)) \<and> retry_times f = 10000"
proof -
  have four: "set_4_byte_address_mode env b f st = Some (r, f', st') \<Longrightarrow> chip f' = chip f \<and> retry_times f' = retry_times f"
    for env b f st r f' st'
    by (auto simp: set_4_byte_address_mode_def split: bind_splits if_splits)
  obtain f0 where f0: "hardware_init env calloc_ok flash_table0 h = Some (r, f0, st)" "f = f0\<lparr>init_ok := (r = SFUD_SUCCESS)\<rparr>"
    using assms by (auto simp: sfud_init_def sfud_device_init_def split: bind_splits)
  then have "retry_times f0 = 10000 \<and> (r = SFUD_SUCCESS \<longrightarrow> \<not> chip_missing (chip f0))"
    by (auto simp: hardware_init_def sfud_spi_port_init_def Let_def split: bind_splits if_splits option.splits prod.splits
        dest!: four find_chip_retry)
  with f0(2) show ?thesis by simp
qed

end
