(* ===== verification/Sfud.thy ===== *)
theory Sfud
  imports SfudInit
begin

text \<open>
  Reading, erasing and writing the flash: \<^verbatim>\<open>3rdparty/sfud/src/sfud.c\<close>. An address is below \<open>2 ^ 32\<close>
  and a size below \<open>2 ^ 64\<close>; their sum in the bounds check wraps at \<open>2 ^ 64\<close>, an address that is
  advanced wraps at \<open>2 ^ 32\<close>. The loops are functions on the number of bytes left; each step gives
  the number of bytes it has dealt with.
\<close>

definition out_of_bound :: "sfud_flash \<Rightarrow> nat \<Rightarrow> nat \<Rightarrow> bool" where
  "out_of_bound f addr n \<longleftrightarrow> (addr + n) mod 2 ^ 64 > capacity (chip f)"

definition sfud_read ::
  "spi_env \<Rightarrow> sfud_flash \<Rightarrow> nat \<Rightarrow> nat \<Rightarrow> u8 list \<Rightarrow> spi_st \<Rightarrow> (sfud_err \<times> u8 list \<times> spi_st) option" where
  "sfud_read env f addr n data st =
     (if \<not> init_ok f then None
      else if out_of_bound f addr n then Some (SFUD_ERR_ADDR_OUT_OF_BOUND, data, st)
      else do {
        (r, st) \<leftarrow> wait_busy env f st;
        if r \<noteq> SFUD_SUCCESS then Some (r, data, st)
        else spi_write_read env (0x03 # make_address_byte_array f addr) data n st })"

section \<open>Erasing\<close>

definition sfud_chip_erase :: "spi_env \<Rightarrow> sfud_flash \<Rightarrow> spi_st \<Rightarrow> (sfud_err \<times> spi_st) option" where
  "sfud_chip_erase env f st =
     (if \<not> init_ok f then None
      else do {
        (r, st) \<leftarrow> set_write_enabled env True st;
        (r, st) \<leftarrow>
          (if r \<noteq> SFUD_SUCCESS then Some (r, st)
           else do {
             (r, _, st) \<leftarrow> spi_write_read env
               (if write_mode (chip f) AND SFUD_WM_DUAL_BUFFER \<noteq> 0 then [0xC7, 0x94, 0x80, 0x9A] else [0xC7]) [] 0 st;
             if r \<noteq> SFUD_SUCCESS then Some (r, st) else wait_busy env f st });
        (_, st) \<leftarrow> set_write_enabled env False st;
        Some (r, st) })"

definition erase_choice :: "sfud_flash \<Rightarrow> nat \<Rightarrow> nat \<Rightarrow> (u8 \<times> nat) option" where
  "erase_choice f addr n =
     (if available (sfdp f)
      then map_option (\<lambda>i. (e_cmd (erasers (sfdp f) ! i), e_size (erasers (sfdp f) ! i)))
             (get_suitable_eraser (erasers (sfdp f)) addr n)
      else Some (erase_gran_cmd (chip f), erase_gran (chip f)))"

definition erase_step ::
  "spi_env \<Rightarrow> sfud_flash \<Rightarrow> nat \<Rightarrow> nat \<Rightarrow> spi_st \<Rightarrow> (sfud_err \<times> nat \<times> spi_st) option" where
  "erase_step env f addr n st =
     do { (cur_erase_cmd, cur_erase_size) \<leftarrow> erase_choice f addr n;
          (r, st) \<leftarrow> set_write_enabled env True st;
          if r \<noteq> SFUD_SUCCESS then Some (r, 0, st)
          else do {
            (r, _, st) \<leftarrow> spi_write_read env (cur_erase_cmd # make_address_byte_array f addr) [] 0 st;
            if r \<noteq> SFUD_SUCCESS then Some (r, 0, st)
            else do {
              (r, st) \<leftarrow> wait_busy env f st;
              if r \<noteq> SFUD_SUCCESS then Some (r, 0, st)
              else if cur_erase_size = 0 then None
              else Some (r, if addr mod cur_erase_size \<noteq> 0 then cur_erase_size - addr mod cur_erase_size
                            else cur_erase_size, st) } } }"

lemma erase_step_progress: "erase_step env f addr n st = Some (SFUD_SUCCESS, k, st') \<Longrightarrow> 0 < k"
  by (auto simp: erase_step_def split: bind_splits if_splits)

function erase_loop :: "spi_env \<Rightarrow> sfud_flash \<Rightarrow> nat \<Rightarrow> nat \<Rightarrow> spi_st \<Rightarrow> (sfud_err \<times> spi_st) option" where
  "erase_loop env f addr n st =
     (if n = 0 then Some (SFUD_SUCCESS, st)
      else case erase_step env f addr n st of
             None \<Rightarrow> None
           | Some (r, k, st') \<Rightarrow>
               if r = SFUD_SUCCESS \<and> n > k then erase_loop env f ((addr + k) mod 2 ^ 32) (n - k) st'
               else Some (r, st'))"
  by pat_completeness auto
termination
  by (relation "measure (\<lambda>(_, _, _, n, _). n)") (auto dest: erase_step_progress)

declare erase_loop.simps [simp del]

definition sfud_erase :: "spi_env \<Rightarrow> sfud_flash \<Rightarrow> nat \<Rightarrow> nat \<Rightarrow> spi_st \<Rightarrow> (sfud_err \<times> spi_st) option" where
  "sfud_erase env f addr n st =
     (if \<not> init_ok f then None
      else if out_of_bound f addr n then Some (SFUD_ERR_ADDR_OUT_OF_BOUND, st)
      else if addr = 0 \<and> n = capacity (chip f) then sfud_chip_erase env f st
      else do {
        (r, st) \<leftarrow> erase_loop env f addr n st;
        (_, st) \<leftarrow> set_write_enabled env False st;
        Some (r, st) })"

section \<open>Writing\<close>

text \<open>
  One page program. The data are what is left behind the pointer; fewer of them than the step needs
  is a read beyond the caller's buffer.
\<close>

definition write_step ::
  "spi_env \<Rightarrow> sfud_flash \<Rightarrow> nat \<Rightarrow> nat \<Rightarrow> nat \<Rightarrow> u8 list \<Rightarrow> spi_st \<Rightarrow> (sfud_err \<times> nat \<times> spi_st) option" where
  "write_step env f gran addr n data st =
     do { (r, st) \<leftarrow> set_write_enabled env True st;
          if r \<noteq> SFUD_SUCCESS then Some (r, 0, st)
          else
            let data_size = (if addr mod gran \<noteq> 0
                             then (if n > gran - addr mod gran then gran - addr mod gran else n)
                             else (if n > gran then gran else n))
            in if length data < data_size then None
               else do {
                 (r, _, st) \<leftarrow> spi_write_read env (0x02 # make_address_byte_array f addr @ take data_size data) [] 0 st;
                 if r \<noteq> SFUD_SUCCESS then Some (r, 0, st)
                 else do {
                   (r, st) \<leftarrow> wait_busy env f st;
                   Some (r, data_size, st) } } }"

lemma write_step_progress:
  "write_step env f gran addr n data st = Some (SFUD_SUCCESS, k, st') \<Longrightarrow> 0 < gran \<Longrightarrow> 0 < n \<Longrightarrow> 0 < k \<and> k \<le> n"
  by (auto simp: write_step_def Let_def split: bind_splits if_splits)

function write_loop ::
  "spi_env \<Rightarrow> sfud_flash \<Rightarrow> nat \<Rightarrow> nat \<Rightarrow> nat \<Rightarrow> u8 list \<Rightarrow> spi_st \<Rightarrow> (sfud_err \<times> spi_st) option" where
  "write_loop env f gran addr n data st =
     (if n = 0 \<or> gran = 0 then Some (SFUD_SUCCESS, st)
      else case write_step env f gran addr n data st of
             None \<Rightarrow> None
           | Some (r, k, st') \<Rightarrow>
               if r \<noteq> SFUD_SUCCESS \<or> n = k then Some (r, st')
               else write_loop env f gran ((addr + k) mod 2 ^ 32) (n - k) (drop k data) st')"
  by pat_completeness auto
termination
  by (relation "measure (\<lambda>(_, _, _, _, n, _, _). n)") (auto dest: write_step_progress)

declare write_loop.simps [simp del]

definition page256_or_1_byte_write ::
  "spi_env \<Rightarrow> sfud_flash \<Rightarrow> nat \<Rightarrow> nat \<Rightarrow> nat \<Rightarrow> u8 list \<Rightarrow> spi_st \<Rightarrow> (sfud_err \<times> spi_st) option" where
  "page256_or_1_byte_write env f addr n gran data st =
     (if \<not> (gran = 1 \<or> gran = 256) \<or> \<not> init_ok f then None
      else if out_of_bound f addr n then Some (SFUD_ERR_ADDR_OUT_OF_BOUND, st)
      else do {
        (r, st) \<leftarrow> write_loop env f gran addr n data st;
        (_, st) \<leftarrow> set_write_enabled env False st;
        Some (r, st) })"

text \<open>
  The word programs of the address increment mode: the address is in the first command only. The
  result has what is left to write.
\<close>

fun aai_loop ::
  "spi_env \<Rightarrow> sfud_flash \<Rightarrow> bool \<Rightarrow> nat \<Rightarrow> nat \<Rightarrow> u8 list \<Rightarrow> spi_st \<Rightarrow> (sfud_err \<times> nat \<times> nat \<times> u8 list \<times> spi_st) option" where
  "aai_loop env f first_write addr n data st =
     (if n < 2 then Some (SFUD_SUCCESS, addr, n, data, st)
      else if length data < 2 then None
      else do {
        (r, _, st) \<leftarrow> spi_write_read env
          (0xAD # (if first_write then make_address_byte_array f addr else []) @ take 2 data) [] 0 st;
        if r \<noteq> SFUD_SUCCESS then Some (r, addr, n, data, st)
        else do {
          (r, st) \<leftarrow> wait_busy env f st;
          if r \<noteq> SFUD_SUCCESS then Some (r, addr, n, data, st)
          else aai_loop env f False ((addr + 2) mod 2 ^ 32) (n - 2) (drop 2 data) st } })"

declare aai_loop.simps [simp del]

definition aai_words :: "spi_env \<Rightarrow> sfud_flash \<Rightarrow> nat \<Rightarrow> nat \<Rightarrow> u8 list \<Rightarrow> spi_st \<Rightarrow> (sfud_err \<times> spi_st) option" where
  "aai_words env f addr n data st =
     do { (r, st) \<leftarrow> set_write_enabled env True st;
          if r \<noteq> SFUD_SUCCESS then Some (r, st)
          else do {
            (r, addr, n, data, st) \<leftarrow> aai_loop env f True addr n data st;
            if r \<noteq> SFUD_SUCCESS then Some (r, st)
            else do {
              (r, st) \<leftarrow> set_write_enabled env False st;
              if r = SFUD_SUCCESS \<and> n = 1 then page256_or_1_byte_write env f addr 1 1 data st
              else Some (r, st) } } }"

definition aai_write :: "spi_env \<Rightarrow> sfud_flash \<Rightarrow> nat \<Rightarrow> nat \<Rightarrow> u8 list \<Rightarrow> spi_st \<Rightarrow> (sfud_err \<times> spi_st) option" where
  "aai_write env f addr n data st =
     (if \<not> init_ok f then None
      else if out_of_bound f addr n then Some (SFUD_ERR_ADDR_OUT_OF_BOUND, st)
      else do {
        (r, st) \<leftarrow>
          (if addr mod 2 \<noteq> 0
           then do {
             (r, st) \<leftarrow> page256_or_1_byte_write env f addr 1 1 data st;
             if r \<noteq> SFUD_SUCCESS then Some (r, st)
             else aai_words env f ((addr + 1) mod 2 ^ 32) ((n + 2 ^ 64 - 1) mod 2 ^ 64) (drop 1 data) st }
           else aai_words env f addr n data st);
        if r \<noteq> SFUD_SUCCESS
        then do { (_, st) \<leftarrow> set_write_enabled env False st; Some (r, st) }
        else Some (r, st) })"

definition sfud_write :: "spi_env \<Rightarrow> sfud_flash \<Rightarrow> nat \<Rightarrow> nat \<Rightarrow> u8 list \<Rightarrow> spi_st \<Rightarrow> (sfud_err \<times> spi_st) option" where
  "sfud_write env f addr n data st =
     (if write_mode (chip f) AND SFUD_WM_PAGE_256B \<noteq> 0 then page256_or_1_byte_write env f addr n 256 data st
      else if write_mode (chip f) AND SFUD_WM_AAI \<noteq> 0 then aai_write env f addr n data st
      else Some (SFUD_SUCCESS, st))"

definition sfud_erase_write :: "spi_env \<Rightarrow> sfud_flash \<Rightarrow> nat \<Rightarrow> nat \<Rightarrow> u8 list \<Rightarrow> spi_st \<Rightarrow> (sfud_err \<times> spi_st) option" where
  "sfud_erase_write env f addr n data st =
     do { (r, st) \<leftarrow> sfud_erase env f addr n st;
          if r \<noteq> SFUD_SUCCESS then Some (r, st) else sfud_write env f addr n data st }"

end
