(* ===== verification/NorChip.thy ===== *)
theory NorChip
  imports Sfud
begin

text \<open>
  What the flash driver relies on of the chip: the documented behaviour of a serial NOR flash with
  24-bit addresses, as the W25Q128 that the device table names. The chip is a record whose state is a
  function of the transfers on the descriptor; \<open>nor_ok\<close> says that the kernel delivers transfers of up
  to \<open>b\<close> bytes to such a chip and returns its answers. The bytes received while the command goes out
  are unspecified, as are all answers that the driver does not use.

  Shown: the effect of the register commands of the driver on the chip.
\<close>

section \<open>The chip\<close>

record nor =
  n_mem :: "nat \<Rightarrow> u8"
  n_wel :: bool
  n_busy :: nat                      \<comment> \<open>status reads that will still report the busy bit\<close>
  n_delay :: "u8 list \<Rightarrow> nat"        \<comment> \<open>how many after a command\<close>
  n_erase :: "u8 \<Rightarrow> nat option"      \<comment> \<open>erase commands with their block sizes\<close>
  n_id :: "u8 list"
  n_sfdp :: "nat \<Rightarrow> u8"

definition nor_addr :: "u8 list \<Rightarrow> nat" where
  "nor_addr args = unat (args ! 0) * 2 ^ 16 + unat (args ! 1) * 2 ^ 8 + unat (args ! 2)"

text \<open>Programming clears bits, and wraps round inside of the page of 256 bytes.\<close>

definition nor_put :: "nat \<Rightarrow> u8 list \<Rightarrow> nat \<Rightarrow> (nat \<Rightarrow> u8) \<Rightarrow> nat \<Rightarrow> u8" where
  "nor_put a ds i m = (let x = a div 256 * 256 + (a + i) mod 256 in m(x := m x AND ds ! i))"

definition nor_program :: "nat \<Rightarrow> u8 list \<Rightarrow> (nat \<Rightarrow> u8) \<Rightarrow> nat \<Rightarrow> u8" where
  "nor_program a ds m = fold (nor_put a ds) [0..<length ds] m"

definition nor_erase_block :: "nat \<Rightarrow> nat \<Rightarrow> (nat \<Rightarrow> u8) \<Rightarrow> nat \<Rightarrow> u8" where
  "nor_erase_block sz a m = (\<lambda>x. if x div sz = a div sz then 0xFF else m x)"

definition nor_erase_all :: "(nat \<Rightarrow> u8) \<Rightarrow> nat \<Rightarrow> u8" where
  "nor_erase_all m = (\<lambda>x. if x < 2 ^ 24 then 0xFF else m x)"

definition nor_step :: "u8 list \<Rightarrow> nor \<Rightarrow> nor" where
  "nor_step tx c = (case tx of [] \<Rightarrow> c | op # args \<Rightarrow>
     if op = 0x05 then c\<lparr>n_busy := n_busy c - 1\<rparr>
     else if n_busy c > 0 then c
     else if op = 0x06 then c\<lparr>n_wel := True\<rparr>
     else if op = 0x04 then c\<lparr>n_wel := False\<rparr>
     else if op \<in> {0x03, 0x9F, 0x5A} \<or> \<not> n_wel c then c
     else if op = 0x02 then
       (if length args \<le> 3 then c
        else c\<lparr>n_mem := nor_program (nor_addr args) (drop 3 args) (n_mem c), n_wel := False, n_busy := n_delay c tx\<rparr>)
     else if op = 0xC7 then c\<lparr>n_mem := nor_erase_all (n_mem c), n_wel := False, n_busy := n_delay c tx\<rparr>
     else case n_erase c op of
       Some sz \<Rightarrow> if length args = 3
         then c\<lparr>n_mem := nor_erase_block sz (nor_addr args) (n_mem c), n_wel := False, n_busy := n_delay c tx\<rparr> else c
     | None \<Rightarrow> c)"

lemma nor_idle: "n_busy c = 0 \<Longrightarrow> c\<lparr>n_busy := 0\<rparr> = c"
  by (cases c) simp

definition nor_status :: "nor \<Rightarrow> u8" where
  "nor_status c = (if n_busy c > 0 then 1 else 0) OR (if n_wel c then 2 else 0)"

definition nor_reply :: "u8 list \<Rightarrow> nat \<Rightarrow> nor \<Rightarrow> u8 list" where
  "nor_reply tx n c = (case tx of [] \<Rightarrow> replicate n 0xFF | op # args \<Rightarrow>
     if op = 0x05 then replicate n (nor_status c)
     else if n_busy c > 0 then replicate n 0xFF
     else if op = 0x03 then map (\<lambda>i. n_mem c ((nor_addr args + i) mod 2 ^ 24)) [0..<n]
     else if op = 0x9F then take n (n_id c @ replicate n 0)
     else if op = 0x5A then map (\<lambda>i. n_sfdp c (nor_addr args + i)) [0..<n]
     else replicate n 0xFF)"

lemma nor_reply_length [simp]: "length (nor_reply tx n c) = n"
  by (auto simp: nor_reply_def split: list.split)

section \<open>The chip behind a descriptor\<close>

fun nor_at :: "nor \<Rightarrow> int \<Rightarrow> spi_hist \<Rightarrow> nor" where
  "nor_at c d [] = c"
| "nor_at c d (STransfer d' tx (Some rx) # h) = (if d' = d then nor_step tx (nor_at c d h) else nor_at c d h)"
| "nor_at c d (_ # h) = nor_at c d h"

definition nor_ok :: "spi_env \<Rightarrow> nor \<Rightarrow> int \<Rightarrow> nat \<Rightarrow> bool" where
  "nor_ok env c d b \<longleftrightarrow> (\<forall>h tx len. 0 < length tx \<and> length tx \<le> unat len \<and> unat len \<le> b \<longrightarrow>
     (\<exists>ret err rx. s_transfer env h d tx len = (ret, err, rx) \<and> 1 \<le> ret \<and> length rx = unat len
        \<and> drop (length tx) rx = nor_reply tx (unat len - length tx) (nor_at c d h)))"

text \<open>The handle is at a chip in a certain state; a page program with its command is 260 bytes long.\<close>

definition on_chip :: "spi_env \<Rightarrow> nor \<Rightarrow> nat \<Rightarrow> spi_st \<Rightarrow> nor \<Rightarrow> bool" where
  "on_chip env c0 b st c \<longleftrightarrow> nor_ok env c0 (fd (fst st)) b \<and> 260 \<le> b \<and> b < 2 ^ 31
     \<and> nor_at c0 (fd (fst st)) (snd st) = c"

lemma bus_on_chip:
  assumes "on_chip env c0 b st c" and "0 < length tx" and "length tx + n \<le> b" and "n \<le> length rb"
  shows "\<exists>st'. spi_write_read env tx rb n st = Some (SFUD_SUCCESS, nor_reply tx n c @ drop n rb, st')
    \<and> on_chip env c0 b st' (nor_step tx c)"
proof -
  obtain s h where st: "st = (s, h)" by fastforce
  let ?l = "word_of_nat (length tx + n) :: u32"
  have len: "unat ?l = length tx + n"
  proof -
    have "length tx + n < 2 ^ LENGTH(32)" using assms(1,3) by (simp add: on_chip_def)
    then show ?thesis by (simp only: unat_of_nat mod_less)
  qed
  from assms(1) have "nor_ok env c0 (fd s) b" by (simp add: on_chip_def st)
  then obtain ret err rx where
    t: "s_transfer env h (fd s) tx ?l = (ret, err, rx)" "1 \<le> ret" "length rx = length tx + n"
      "drop (length tx) rx = nor_reply tx n (nor_at c0 (fd s) h)"
    using len assms(2,3) unfolding nor_ok_def by (metis add_diff_cancel_left' le_add1)
  have "spi_transfer env tx (length tx + n) st = (Inr rx, s, STransfer (fd s) tx (Some rx) # h)"
    using t(1,2) by (simp add: spi_transfer_def st)
  moreover have "take n (drop (length tx) (tmp_bytes (length tx + n) (Inr rx))) = nor_reply tx n c"
    using t(3,4) assms(1) by (simp add: tmp_bytes_def on_chip_def st)
  moreover have "length tx + n < 2 ^ 31" using assms(1,3) by (simp add: on_chip_def)
  ultimately show ?thesis
    using assms(1,4) by (simp add: spi_write_read_eq on_chip_def st)
qed

lemma command_on_chip:
  assumes "on_chip env c0 b st c" and "0 < length tx" and "length tx \<le> 260"
  shows "\<exists>st'. spi_write_read env tx [] 0 st = Some (SFUD_SUCCESS, [], st') \<and> on_chip env c0 b st' (nor_step tx c)"
proof -
  have "length tx + 0 \<le> b" using assms(1,3) by (simp add: on_chip_def)
  moreover have "nor_reply tx 0 c = []" using nor_reply_length [of tx 0 c] by (simp del: nor_reply_length)
  ultimately show ?thesis using bus_on_chip [OF assms(1,2), of 0 "[]"] by simp
qed

lemma status_on_chip:
  assumes "on_chip env c0 b st c"
  shows "\<exists>st'. sfud_read_status env st = Some (SFUD_SUCCESS, nor_status c, st')
    \<and> on_chip env c0 b st' (c\<lparr>n_busy := n_busy c - 1\<rparr>)"
proof -
  have "length [0x05 :: u8] + 1 \<le> b" using assms by (simp add: on_chip_def)
  from bus_on_chip [OF assms _ this, of "[0]"] show ?thesis
    by (auto simp: sfud_read_status_def nor_reply_def nor_step_def)
qed

lemma status_bits [simp]: "bit (nor_status c) 0 \<longleftrightarrow> 0 < n_busy c" "bit (nor_status c) (Suc 0) \<longleftrightarrow> n_wel c"
  by (cases "0 < n_busy c"; cases "n_wel c"; simp add: nor_status_def)+

lemma wait_loop_on_chip:
  "on_chip env c0 b st c \<Longrightarrow> n_busy c \<le> n \<Longrightarrow>
   \<exists>st'. wait_busy_loop env n st = Some (SFUD_SUCCESS, st') \<and> on_chip env c0 b st' (c\<lparr>n_busy := 0\<rparr>)"
proof (induction n arbitrary: st c)
  case 0
  from status_on_chip [OF 0(1)] 0(2) show ?case by auto
next
  case (Suc n)
  obtain st1 where st1: "sfud_read_status env st = Some (SFUD_SUCCESS, nor_status c, st1)"
    "on_chip env c0 b st1 (c\<lparr>n_busy := n_busy c - 1\<rparr>)"
    using status_on_chip [OF Suc.prems(1)] by blast
  show ?case
  proof (cases "n_busy c = 0")
    case True
    with st1 show ?thesis by auto
  next
    case False
    with Suc.IH [OF st1(2)] Suc.prems(2) st1(1) show ?thesis by auto
  qed
qed

lemma wait_on_chip:
  assumes "on_chip env c0 b st c" and "n_busy c \<le> retry_times f"
  shows "\<exists>st'. wait_busy env f st = Some (SFUD_SUCCESS, st') \<and> on_chip env c0 b st' (c\<lparr>n_busy := 0\<rparr>)"
  using wait_loop_on_chip [OF assms] by (simp add: wait_busy_def)

lemma enable_on_chip:
  assumes "on_chip env c0 b st c" and "n_busy c = 0"
  shows "\<exists>st'. set_write_enabled env v st = Some (SFUD_SUCCESS, st') \<and> on_chip env c0 b st' (c\<lparr>n_wel := v\<rparr>)"
proof -
  let ?tx = "[if v then 0x06 else 0x04] :: u8 list"
  have step: "nor_step ?tx c = c\<lparr>n_wel := v\<rparr>" using assms(2) by (simp add: nor_step_def)
  obtain st1 where st1: "spi_write_read env ?tx [] 0 st = Some (SFUD_SUCCESS, [], st1)"
    "on_chip env c0 b st1 (c\<lparr>n_wel := v\<rparr>)"
    using command_on_chip [OF assms(1), of ?tx] step by auto
  obtain st2 where st2: "sfud_read_status env st1 = Some (SFUD_SUCCESS, nor_status (c\<lparr>n_wel := v\<rparr>), st2)"
    "on_chip env c0 b st2 (c\<lparr>n_wel := v, n_busy := n_busy c - 1\<rparr>)"
    using status_on_chip [OF st1(2)] by auto
  have "c\<lparr>n_wel := v, n_busy := n_busy c - 1\<rparr> = c\<lparr>n_wel := v\<rparr>" using assms(2) by (cases c) simp
  with st1(1) st2 show ?thesis by (simp add: set_write_enabled_def)
qed

section \<open>Addresses\<close>

lemma nor_addr_bytes:
  assumes "\<not> addr_in_4_byte f"
  shows "nor_addr (make_address_byte_array f addr @ ds) = addr mod 2 ^ 24"
proof -
  have idx: "[0..<3] = [0, 1, 2::nat]" by (simp add: upt_conv_Cons)
  have b: "unat (word_of_nat n :: u8) = n mod 2 ^ 8" for n by (simp add: unat_of_nat)
  have "addr mod 2 ^ 24 = addr div 2 ^ 16 mod 2 ^ 8 * 2 ^ 16 + addr div 2 ^ 8 mod 2 ^ 8 * 2 ^ 8 + addr mod 2 ^ 8"
    using mod_mult2_eq [of addr "2 ^ 8" "2 ^ 16"] mod_mult2_eq [of "addr div 2 ^ 8" "2 ^ 8" "2 ^ 8"]
    by (simp add: div_mult2_eq [symmetric])
  with assms show ?thesis
    by (simp add: nor_addr_def make_address_byte_array_def Let_def idx b)
qed

lemma make_address_3: "\<not> addr_in_4_byte f \<Longrightarrow> length (make_address_byte_array f addr) = 3"
  by (simp add: make_address_length)

text \<open>A program that stays inside of its page.\<close>

lemma nor_program_page:
  assumes "a mod 256 + length ds \<le> 256"
  shows "nor_program a ds m x = (if a \<le> x \<and> x < a + length ds then m x AND ds ! (x - a) else m x)"
proof -
  have cell: "a div 256 * 256 + (a + i) mod 256 = a + i" if "i < length ds" for i
  proof -
    have "a mod 256 + i < 256" using assms that by linarith
    then have "(a + i) mod 256 = a mod 256 + i" by (metis mod_add_left_eq mod_less)
    then show ?thesis using div_mult_mod_eq [of a 256] by linarith
  qed
  have "fold (nor_put a ds) [0..<n] m x = (if a \<le> x \<and> x < a + n then m x AND ds ! (x - a) else m x)" if "n \<le> length ds" for n x
    using that
  proof (induction n arbitrary: x)
    case (Suc n)
    let ?m = "fold (nor_put a ds) [0..<n] m"
    have "fold (nor_put a ds) [0..<Suc n] m = ?m(a + n := ?m (a + n) AND ds ! n)"
      using cell [of n] Suc.prems by (simp add: nor_put_def Let_def)
    with Suc show ?case by auto
  qed auto
  then show ?thesis by (simp add: nor_program_def)
qed

section \<open>A concrete chip\<close>

text \<open>
  The chip that the device table names, without parameter tables, behind every descriptor of a kernel
  that does all it is asked to.
\<close>

definition demo_nor :: nor where
  "demo_nor = \<lparr>n_mem = (\<lambda>_. 0), n_wel = False, n_busy = 0, n_delay = (\<lambda>_. 2), n_erase = [0x20 \<mapsto> 4096],
     n_id = [0xEF, 0x40, 0x18], n_sfdp = (\<lambda>_. 0xFF)\<rparr>"

definition demo_bus :: spi_env where
  "demo_bus = \<lparr>s_open = (\<lambda>_ _. Inr 3), s_close = (\<lambda>_ _. None), s_ioctl = (\<lambda>_ _ _. Inr 0),
     s_transfer = (\<lambda>h d tx len. (1, 0, replicate (length tx) 0xFF @ nor_reply tx (unat len - length tx) (nor_at demo_nor d h))),
     s_strerror = (\<lambda>_. [])\<rparr>"

lemma demo_bus_ok: "nor_ok demo_bus demo_nor d b"
  by (simp add: nor_ok_def demo_bus_def)

lemma demo_on_chip: "nor_at demo_nor d h = c \<Longrightarrow> on_chip demo_bus demo_nor 4096 (\<lparr>fd = d, c_errno = e, errmsg = m\<rparr>, h) c"
  by (simp add: on_chip_def demo_bus_ok)

end
