(* ===== verification/FlashStore.thy ===== *)
theory FlashStore
  imports Prelude
begin

text \<open>
  The contract under which the programs use a flash: a memory that is read in bursts into a buffer of
  the caller, and rewritten by ranges, each rewriting at the expense of the rest of the erase blocks
  it touches. The clients are \<open>SfudFlash\<close>, which provides the contract for the driver on a chip, and
  \<open>FlashTools\<close>, the programs that copy files. \<open>ready m s\<close> says that the device is usable in the
  state \<open>s\<close> and its memory is \<open>m\<close>.
\<close>

section \<open>Ranges\<close>

text \<open>The addresses in the erase blocks, of size \<open>g\<close>, that a range of \<open>n\<close> bytes from \<open>addr\<close> touches.\<close>

definition touched :: "nat \<Rightarrow> nat \<Rightarrow> nat \<Rightarrow> nat \<Rightarrow> bool" where
  "touched g addr n x \<longleftrightarrow> addr div g \<le> x div g \<and> x div g \<le> (addr + n - 1) div g"

definition holds :: "(nat \<Rightarrow> u8) \<Rightarrow> nat \<Rightarrow> u8 list \<Rightarrow> bool" where
  "holds m addr data \<longleftrightarrow> (\<forall>i < length data. m (addr + i) = data ! i)"

type_synonym region = "nat \<times> u8 list"

text \<open>A region that lies inside of the device, and two that share no erase block.\<close>

definition inside :: "nat \<Rightarrow> region \<Rightarrow> bool" where
  "inside extent = (\<lambda>(addr, data). data \<noteq> [] \<and> addr + length data \<le> extent)"

definition apart :: "nat \<Rightarrow> region \<Rightarrow> region \<Rightarrow> bool" where
  "apart g = (\<lambda>(a, d) (b, e). (a + length d - 1) div g < b div g \<or> (b + length e - 1) div g < a div g)"

lemma apart_untouched:
  assumes "apart g (a, d) (b, e)" and "i < length e"
  shows "\<not> touched g a (length d) (b + i)"
proof -
  have "b div g \<le> (b + i) div g" "(b + i) div g \<le> (b + length e - 1) div g"
    using assms(2) by (auto intro!: div_le_mono)
  with assms(1) show ?thesis by (auto simp: apart_def touched_def)
qed

lemma holds_part:
  "holds m addr data \<Longrightarrow> i + k \<le> length data \<Longrightarrow> map (\<lambda>j. m (addr + i + j)) [0..<k] = take k (drop i data)"
  by (intro nth_equalityI) (simp_all add: holds_def add.assoc)

section \<open>The contract\<close>

locale burst_memory =
  fixes ready :: "(nat \<Rightarrow> u8) \<Rightarrow> 's \<Rightarrow> bool"
    and extent :: nat and burst :: nat
    and fetch :: "nat \<Rightarrow> nat \<Rightarrow> u8 list \<Rightarrow> 's \<Rightarrow> ('e \<times> u8 list \<times> 's) option"
    and success :: 'e
  assumes fetch_law: "ready m s \<Longrightarrow> addr + n \<le> extent \<Longrightarrow> n \<le> burst \<Longrightarrow> n \<le> length buf \<Longrightarrow>
      \<exists>s'. fetch addr n buf s = Some (success, map (\<lambda>i. m (addr + i)) [0..<n] @ drop n buf, s') \<and> ready m s'"
begin

text \<open>Any part of what the memory holds is read into the start of the buffer.\<close>

lemma fetch_part:
  assumes "ready m s" and "holds m addr data" and "addr + length data \<le> extent"
    and "i + k \<le> length data" and "k \<le> burst" and "k \<le> length buf"
  shows "\<exists>s'. fetch (addr + i) k buf s = Some (success, take k (drop i data) @ drop k buf, s') \<and> ready m s'"
proof -
  have "addr + i + k \<le> extent" using assms(3,4) by linarith
  from fetch_law [OF assms(1) this assms(5,6)] show ?thesis
    using holds_part [OF assms(2,4)] by simp
qed

end

text \<open>The runs of rewritings that the laws are lifted to.\<close>

primrec put_all :: "(nat \<Rightarrow> nat \<Rightarrow> u8 list \<Rightarrow> 's \<Rightarrow> ('e \<times> 's) option) \<Rightarrow> region list \<Rightarrow> 's \<Rightarrow> 's option" where
  "put_all put [] s = Some s"
| "put_all put (r # rs) s = do { (_, s) \<leftarrow> put (fst r) (length (snd r)) (snd r) s; put_all put rs s }"

locale rewritable_memory = burst_memory ready extent burst fetch success
  for ready :: "(nat \<Rightarrow> u8) \<Rightarrow> 's \<Rightarrow> bool" and extent burst
    and fetch :: "nat \<Rightarrow> nat \<Rightarrow> u8 list \<Rightarrow> 's \<Rightarrow> ('e \<times> u8 list \<times> 's) option" and success +
  fixes put :: "nat \<Rightarrow> nat \<Rightarrow> u8 list \<Rightarrow> 's \<Rightarrow> ('e \<times> 's) option" and block :: nat
  assumes put_law: "ready m s \<Longrightarrow> 0 < n \<Longrightarrow> n \<le> length data \<Longrightarrow> addr + n \<le> extent \<Longrightarrow>
      \<exists>s' m'. put addr n data s = Some (success, s') \<and> ready m' s' \<and> holds m' addr (take n data)
        \<and> (\<forall>x. \<not> touched block addr n x \<longrightarrow> m' x = m x)"
begin

text \<open>A rewriting keeps what lies in other erase blocks.\<close>

lemma put_keeps:
  assumes "ready m s" and "inside extent (addr, data)"
  shows "\<exists>s' m'. put addr (length data) data s = Some (success, s') \<and> ready m' s' \<and> holds m' addr data
    \<and> (\<forall>b e. apart block (addr, data) (b, e) \<and> holds m b e \<longrightarrow> holds m' b e)"
proof -
  have "0 < length data" "addr + length data \<le> extent" using assms(2) by (simp_all add: inside_def)
  from put_law [OF assms(1) this(1) order_refl this(2)] obtain s' m' where
    p: "put addr (length data) data s = Some (success, s')" "ready m' s'" "holds m' addr data"
      "\<And>x. \<not> touched block addr (length data) x \<Longrightarrow> m' x = m x"
    by auto
  have "holds m' b e" if "apart block (addr, data) (b, e)" "holds m b e" for b e
    using p(4) apart_untouched [OF that(1)] that(2) by (simp add: holds_def)
  with p(1-3) show ?thesis by blast
qed

text \<open>Regions that share no erase block are all there after they were written one after the other.\<close>

lemma put_all_keeps:
  assumes "ready m s" and "\<forall>r \<in> set rs. inside extent r" and "sorted_wrt (apart block) rs"
    and "\<forall>k \<in> set ks. holds m (fst k) (snd k) \<and> (\<forall>r \<in> set rs. apart block r k)"
  shows "\<exists>s' m'. put_all put rs s = Some s' \<and> ready m' s' \<and> (\<forall>k \<in> set (ks @ rs). holds m' (fst k) (snd k))"
  using assms
proof (induction rs arbitrary: m s ks)
  case Nil
  then show ?case by auto
next
  case (Cons r rs)
  obtain addr data where r: "r = (addr, data)" by (cases r)
  from Cons.prems(2) have "inside extent (addr, data)" by (simp add: r)
  from put_keeps [OF Cons.prems(1) this] obtain s1 m1 where
    p: "put addr (length data) data s = Some (success, s1)" "ready m1 s1" "holds m1 addr data"
      "\<And>b e. apart block (addr, data) (b, e) \<Longrightarrow> holds m b e \<Longrightarrow> holds m1 b e" by blast
  have "\<forall>k \<in> set (ks @ [r]). holds m1 (fst k) (snd k) \<and> (\<forall>r \<in> set rs. apart block r k)"
    using Cons.prems(3,4) p(3,4) by (auto simp: r apart_def split: prod.splits)
  from Cons.IH [OF p(2) _ _ this] Cons.prems(2,3) p(1) show ?case by (simp add: r)
qed

end

end
