(* ===== verification/SfudFlash.thy ===== *)
theory SfudFlash
  imports NorChip FlashStore
begin

text \<open>
  The flash driver on a chip: reading gives the memory, writing programs it over the range given and
  nowhere else, and erasing sets every byte of the range, and of the rest of the blocks it touches, to
  \<open>0xFF\<close>. The driver on an idle chip of matching parameters is a \<open>rewritable_memory\<close>
  (\<open>chip_ready\<close>, \<open>chip_flash\<close>), so what that contract gives holds for it: data, and files beside
  each other, are kept. On a bus whose transfers all fail a read still reports success.
\<close>

section \<open>A driver that fits its chip\<close>

definition eraser_ok :: "nor \<Rightarrow> u8 \<times> nat \<Rightarrow> bool" where
  "eraser_ok c = (\<lambda>(cmd, sz). n_erase c cmd = Some sz \<and> 0 < sz \<and> sz dvd 2 ^ 24 \<and> cmd \<notin> {0x02, 0x03, 0x04, 0x05, 0x06, 0x5A, 0x9F, 0xC7})"

definition erase_unit :: "sfud_flash \<Rightarrow> nat" where
  "erase_unit f = (if available (sfdp f) then e_size (erasers (sfdp f) ! 0) else erase_gran (chip f))"

definition fits :: "sfud_flash \<Rightarrow> nor \<Rightarrow> bool" where
  "fits f c \<longleftrightarrow> init_ok f \<and> \<not> addr_in_4_byte f \<and> (\<forall>tx. n_delay c tx \<le> retry_times f)
     \<and> capacity (chip f) = 2 ^ 24 \<and> write_mode (chip f) AND SFUD_WM_DUAL_BUFFER = 0
     \<and> (if available (sfdp f)
        then e_size (erasers (sfdp f) ! 0) \<noteq> 0
          \<and> (\<forall>i < 4. e_size (erasers (sfdp f) ! i) \<noteq> 0 \<longrightarrow> eraser_ok c (e_cmd (erasers (sfdp f) ! i), e_size (erasers (sfdp f) ! i)))
        else eraser_ok c (erase_gran_cmd (chip f), erase_gran (chip f)))"

lemma fits_same: "fits f c \<Longrightarrow> n_delay c' = n_delay c \<Longrightarrow> n_erase c' = n_erase c \<Longrightarrow> fits f c'"
  by (auto simp: fits_def eraser_ok_def)

text \<open>The eraser that a step uses is the smallest, or is aligned and not larger than the range.\<close>

definition eraser_fits :: "nat \<Rightarrow> nat \<Rightarrow> nat \<Rightarrow> nat \<Rightarrow> bool" where
  "eraser_fits g addr n sz \<longleftrightarrow> sz = g \<or> addr mod sz = 0 \<and> sz \<le> n"

lemma erase_choice_ok:
  assumes "fits f c"
  shows "\<exists>cmd sz. erase_choice f addr n = Some (cmd, sz) \<and> eraser_ok c (cmd, sz) \<and> eraser_fits (erase_unit f) addr n sz"
proof (cases "available (sfdp f)")
  case True
  let ?es = "erasers (sfdp f)"
  have nz: "e_size (?es ! 0) \<noteq> 0" and ok: "\<forall>i < 4. e_size (?es ! i) \<noteq> 0 \<longrightarrow> eraser_ok c (e_cmd (?es ! i), e_size (?es ! i))"
    using assms True by (simp_all add: fits_def)
  obtain i where i: "get_suitable_eraser ?es addr n = Some i"
  proof -
    have "get_suitable_eraser ?es addr n \<noteq> None"
      using nz by (simp add: get_suitable_eraser_def split: option.split)
    then show ?thesis using that by blast
  qed
  have fit: "i < 4 \<and> (i = 0 \<or> e_size (?es ! i) \<noteq> 0 \<and> e_size (?es ! i) \<le> n \<and> addr mod e_size (?es ! i) = 0)"
    using suitable_eraser_fits [OF i] by blast
  then have "eraser_ok c (e_cmd (?es ! i), e_size (?es ! i))" using ok nz by auto
  with True i fit show ?thesis by (auto simp: erase_choice_def erase_unit_def eraser_fits_def)
next
  case False
  with assms show ?thesis by (auto simp: erase_choice_def erase_unit_def eraser_fits_def fits_def)
qed

section \<open>One erase command\<close>

lemma erase_command:
  assumes "on_chip env c0 b st (c\<lparr>n_wel := True\<rparr>)" and "n_busy c = 0" and "eraser_ok c (cmd, sz)" and "\<not> addr_in_4_byte f"
  shows "\<exists>st'. spi_write_read env (cmd # make_address_byte_array f addr) [] 0 st = Some (SFUD_SUCCESS, [], st')
    \<and> on_chip env c0 b st' (c\<lparr>n_mem := nor_erase_block sz (addr mod 2 ^ 24) (n_mem c), n_wel := False,
         n_busy := n_delay c (cmd # make_address_byte_array f addr)\<rparr>)"
proof -
  let ?tx = "cmd # make_address_byte_array f addr"
  have len: "length (make_address_byte_array f addr) = 3" by (rule make_address_3 [OF assms(4)])
  have "nor_step ?tx (c\<lparr>n_wel := True\<rparr>) = c\<lparr>n_mem := nor_erase_block sz (addr mod 2 ^ 24) (n_mem c), n_wel := False, n_busy := n_delay c ?tx\<rparr>"
    using assms(2,3) nor_addr_bytes [OF assms(4), of addr "[]"] by (simp add: nor_step_def eraser_ok_def len)
  with command_on_chip [OF assms(1), of ?tx] len show ?thesis by auto
qed

lemma erase_step_on_chip:
  assumes "on_chip env c0 b st c" and "n_busy c = 0" and "fits f c"
  shows "\<exists>cmd sz st'. erase_choice f addr n = Some (cmd, sz) \<and> eraser_ok c (cmd, sz) \<and> eraser_fits (erase_unit f) addr n sz
    \<and> erase_step env f addr n st = Some (SFUD_SUCCESS, sz - addr mod sz, st')
    \<and> on_chip env c0 b st' (c\<lparr>n_mem := nor_erase_block sz (addr mod 2 ^ 24) (n_mem c), n_wel := False\<rparr>)"
proof -
  obtain cmd sz where ch: "erase_choice f addr n = Some (cmd, sz)" "eraser_ok c (cmd, sz)"
    "eraser_fits (erase_unit f) addr n sz"
    using erase_choice_ok [OF assms(3), of addr n] by blast
  have a3: "\<not> addr_in_4_byte f" and dl: "n_delay c tx \<le> retry_times f" for tx
    using assms(3) by (simp_all add: fits_def)
  obtain st1 where st1: "set_write_enabled env True st = Some (SFUD_SUCCESS, st1)" "on_chip env c0 b st1 (c\<lparr>n_wel := True\<rparr>)"
    using enable_on_chip [OF assms(1,2)] by blast
  from erase_command [OF st1(2) assms(2) ch(2) a3, of addr] obtain st2 where st2: "spi_write_read env (cmd # make_address_byte_array f addr) [] 0 st1 = Some (SFUD_SUCCESS, [], st2)"
    "on_chip env c0 b st2 (c\<lparr>n_mem := nor_erase_block sz (addr mod 2 ^ 24) (n_mem c), n_wel := False,
         n_busy := n_delay c (cmd # make_address_byte_array f addr)\<rparr>)"
    by blast
  have "\<exists>st3. wait_busy env f st2 = Some (SFUD_SUCCESS, st3)
    \<and> on_chip env c0 b st3 (c\<lparr>n_mem := nor_erase_block sz (addr mod 2 ^ 24) (n_mem c), n_wel := False, n_busy := 0\<rparr>)"
    using wait_on_chip [OF st2(2), of f] dl by simp
  then obtain st3 where st3: "wait_busy env f st2 = Some (SFUD_SUCCESS, st3)"
    "on_chip env c0 b st3 (c\<lparr>n_mem := nor_erase_block sz (addr mod 2 ^ 24) (n_mem c), n_wel := False, n_busy := 0\<rparr>)"
    by blast
  have same: "c\<lparr>n_mem := m, n_wel := w, n_busy := 0\<rparr> = c\<lparr>n_mem := m, n_wel := w\<rparr>" for m w using assms(2) by (cases c) simp
  have "erase_step env f addr n st = Some (SFUD_SUCCESS, sz - addr mod sz, st3)"
    using ch st1(1) st2(1) st3(1) by (auto simp: erase_step_def eraser_ok_def)
  moreover have "on_chip env c0 b st3 (c\<lparr>n_mem := nor_erase_block sz (addr mod 2 ^ 24) (n_mem c), n_wel := False\<rparr>)"
    using st3(2) by (simp add: same)
  ultimately show ?thesis using ch by blast
qed

section \<open>The erase loop\<close>

lemma block_arith:
  fixes a i sz N :: nat
  assumes "0 < sz" and "sz dvd N" and "i < sz - a mod sz"
  shows "((a + i) mod N) div sz = (a mod N) div sz"
proof -
  obtain m where N: "N = sz * m" using assms(2) by (elim dvdE)
  have "(a + i) div sz = a div sz"
    using assms(1,3) by (simp add: div_add1_eq [of a i])
  then show ?thesis by (simp add: N mod_mult2_eq assms(1))
qed

text \<open>
  What an erasure of \<open>n\<close> bytes from \<open>addr\<close> makes of the memory: every byte of the range is set, also
  when the range wraps round the chip; a byte is kept or set; and one outside of the smallest blocks
  that the range touches is kept.
\<close>

definition erased :: "nat \<Rightarrow> nat \<Rightarrow> nat \<Rightarrow> (nat \<Rightarrow> u8) \<Rightarrow> (nat \<Rightarrow> u8) \<Rightarrow> bool" where
  "erased g addr n m m' \<longleftrightarrow> (\<forall>i < n. m' ((addr + i) mod 2 ^ 24) = 0xFF) \<and> (\<forall>x. m' x = m x \<or> m' x = 0xFF)
     \<and> (addr + n \<le> 2 ^ 24 \<longrightarrow> (\<forall>x. \<not> touched g addr n x \<longrightarrow> m' x = m x))"

lemma erased_block:
  assumes "0 < sz" and "sz dvd 2 ^ 24" and "eraser_fits g addr n sz" and "0 < n"
  shows "(\<forall>i < sz - addr mod sz. nor_erase_block sz (addr mod 2 ^ 24) m ((addr + i) mod 2 ^ 24) = 0xFF)
    \<and> (addr + n \<le> 2 ^ 24 \<longrightarrow> (\<forall>x. \<not> touched g addr n x \<longrightarrow> nor_erase_block sz (addr mod 2 ^ 24) m x = m x))"
proof (intro conjI allI impI)
  fix i assume "i < sz - addr mod sz"
  from block_arith [OF assms(1,2) this] show "nor_erase_block sz (addr mod 2 ^ 24) m ((addr + i) mod 2 ^ 24) = 0xFF"
    by (simp add: nor_erase_block_def)
next
  fix x assume a: "addr + n \<le> 2 ^ 24" and x: "\<not> touched g addr n x"
  have "addr mod 2 ^ 24 = addr" using a assms(4) by (intro mod_less) linarith
  moreover have "x div sz \<noteq> addr div sz"
  proof
    assume eq: "x div sz = addr div sz"
    from assms(3) [unfolded eraser_fits_def] show False
    proof
      assume "sz = g"
      moreover have "addr div sz \<le> (addr + n - 1) div sz" using assms(4) by (intro div_le_mono) linarith
      ultimately show False using x eq by (simp add: touched_def)
    next
      assume al: "addr mod sz = 0 \<and> sz \<le> n"
      then have "addr = addr div sz * sz" using div_mult_mod_eq [of addr sz] by simp
      moreover have "x = addr div sz * sz + x mod sz" using eq div_mult_mod_eq [of x sz] by simp
      moreover have "x mod sz < sz" using assms(1) by simp
      ultimately have "addr \<le> x" "x \<le> addr + n - 1" using al by linarith+
      then have "touched g addr n x" by (simp add: touched_def div_le_mono)
      with x show False by simp
    qed
  qed
  ultimately show "nor_erase_block sz (addr mod 2 ^ 24) m x = m x" by (simp add: nor_erase_block_def)
qed

lemma erased_step:
  assumes "0 < sz" and "sz dvd 2 ^ 24" and "eraser_fits g addr n sz" and "0 < n"
    and "addr < 2 ^ 32" and "k = sz - addr mod sz"
    and "if k < n then erased g ((addr + k) mod 2 ^ 32) (n - k) (nor_erase_block sz (addr mod 2 ^ 24) m) m'
         else m' = nor_erase_block sz (addr mod 2 ^ 24) m"
  shows "erased g addr n m m'"
proof -
  let ?m = "nor_erase_block sz (addr mod 2 ^ 24) m"
  note block = erased_block [OF assms(1-4), of m]
  have keep: "?m x = m x \<or> ?m x = 0xFF" for x by (simp add: nor_erase_block_def)
  have kpos: "0 < k" using assms(1) by (simp add: assms(6))
  show ?thesis
  proof (cases "k < n")
    case False
    with assms(7) have "m' = ?m" by simp
    with block False keep show ?thesis by (auto simp: erased_def assms(6))
  next
    case True
    let ?a = "(addr + k) mod 2 ^ 32"
    from True assms(7) have rest: "erased g ?a (n - k) ?m m'" by simp
    have wrap: "(?a + j) mod 2 ^ 24 = (addr + k + j) mod 2 ^ 24" for j
    proof -
      have "(2 ^ 24 :: nat) dvd 2 ^ 32" by (intro le_imp_power_dvd) simp
      then have "?a mod 2 ^ 24 = (addr + k) mod 2 ^ 24" by (rule mod_mod_cancel)
      then show ?thesis by (metis mod_add_left_eq)
    qed
    have "m' ((addr + i) mod 2 ^ 24) = 0xFF" if "i < n" for i
    proof (cases "i < k")
      case True
      then have "?m ((addr + i) mod 2 ^ 24) = 0xFF" using block by (simp add: assms(6))
      then show ?thesis using rest by (metis erased_def)
    next
      case False
      then obtain j where "i = k + j" using less_imp_add_positive by (metis le_add_diff_inverse not_le)
      moreover have "m' ((?a + j) mod 2 ^ 24) = 0xFF" using rest that calculation by (simp add: erased_def)
      ultimately show ?thesis using wrap [of j] by (simp add: add.assoc)
    qed
    moreover have "m' x = m x \<or> m' x = 0xFF" for x using rest keep by (metis erased_def)
    moreover have "m' x = m x" if "addr + n \<le> 2 ^ 24" "\<not> touched g addr n x" for x
    proof -
      have a: "?a = addr + k" using that(1) True by (intro mod_less) simp
      have "\<not> touched g (addr + k) (n - k) x"
        using that(2) True div_le_mono [of addr "addr + k" g] by (auto simp: touched_def)
      then have "m' x = ?m x" using rest that(1) True by (simp add: erased_def a)
      with block that show ?thesis by simp
    qed
    ultimately show ?thesis by (simp add: erased_def)
  qed
qed

lemma erase_loop_on_chip:
  "on_chip env c0 b st c \<Longrightarrow> n_busy c = 0 \<Longrightarrow> fits f c \<Longrightarrow> 0 < n \<Longrightarrow> addr < 2 ^ 32 \<Longrightarrow>
   \<exists>st' m'. erase_loop env f addr n st = Some (SFUD_SUCCESS, st')
     \<and> on_chip env c0 b st' (c\<lparr>n_mem := m', n_wel := False\<rparr>) \<and> erased (erase_unit f) addr n (n_mem c) m'"
proof (induction n arbitrary: addr st c rule: less_induct)
  case (less n)
  obtain cmd sz st1 where step: "eraser_ok c (cmd, sz)" "eraser_fits (erase_unit f) addr n sz"
    "erase_step env f addr n st = Some (SFUD_SUCCESS, sz - addr mod sz, st1)"
    "on_chip env c0 b st1 (c\<lparr>n_mem := nor_erase_block sz (addr mod 2 ^ 24) (n_mem c), n_wel := False\<rparr>)"
    using erase_step_on_chip [OF less.prems(1-3), of addr n] by blast
  let ?m = "nor_erase_block sz (addr mod 2 ^ 24) (n_mem c)" and ?k = "sz - addr mod sz"
  let ?c = "c\<lparr>n_mem := ?m, n_wel := False\<rparr>"
  have sz: "0 < sz" "sz dvd 2 ^ 24" using step(1) by (simp_all add: eraser_ok_def)
  show ?case
  proof (cases "?k < n")
    case False
    then have "erase_loop env f addr n st = Some (SFUD_SUCCESS, st1)"
      using less.prems(4) step(3) by (subst erase_loop.simps) simp
    moreover have "erased (erase_unit f) addr n (n_mem c) ?m"
      using erased_step [OF sz step(2) less.prems(4,5) refl, of "n_mem c" ?m] False by simp
    ultimately show ?thesis using step(4) by blast
  next
    case True
    have "0 < ?k" using sz(1) by simp
    then have "n - ?k < n" "0 < n - ?k" using True by linarith+
    moreover have "n_busy ?c = 0" "fits f ?c" using less.prems(2,3) by (auto intro: fits_same)
    ultimately obtain st' m' where rec: "erase_loop env f ((addr + ?k) mod 2 ^ 32) (n - ?k) st1 = Some (SFUD_SUCCESS, st')"
      "on_chip env c0 b st' (?c\<lparr>n_mem := m', n_wel := False\<rparr>)"
      "erased (erase_unit f) ((addr + ?k) mod 2 ^ 32) (n - ?k) (n_mem ?c) m'"
      using less.IH [OF _ step(4), of "n - ?k" "(addr + ?k) mod 2 ^ 32"] by (metis mod_less_divisor zero_less_numeral zero_less_power)
    have "erase_loop env f addr n st = Some (SFUD_SUCCESS, st')"
      using less.prems(4) step(3) rec(1) True by (subst erase_loop.simps) simp
    moreover have "erased (erase_unit f) addr n (n_mem c) m'"
      using erased_step [OF sz step(2) less.prems(4,5) refl, of "n_mem c" m'] True rec(3) by simp
    moreover have "on_chip env c0 b st' (c\<lparr>n_mem := m', n_wel := False\<rparr>)" using rec(2) by simp
    ultimately show ?thesis by blast
  qed
qed

section \<open>Erasing, writing, reading\<close>

lemma chip_erase_on_chip:
  assumes "on_chip env c0 b st c" and "n_busy c = 0" and "fits f c"
  shows "\<exists>st'. sfud_chip_erase env f st = Some (SFUD_SUCCESS, st')
    \<and> on_chip env c0 b st' (c\<lparr>n_mem := nor_erase_all (n_mem c), n_wel := False\<rparr>)"
proof -
  let ?m = "nor_erase_all (n_mem c)"
  have f: "init_ok f" "write_mode (chip f) AND SFUD_WM_DUAL_BUFFER = 0" "n_delay c tx \<le> retry_times f" for tx
    using assms(3) by (simp_all add: fits_def)
  obtain st1 where st1: "set_write_enabled env True st = Some (SFUD_SUCCESS, st1)" "on_chip env c0 b st1 (c\<lparr>n_wel := True\<rparr>)"
    using enable_on_chip [OF assms(1,2)] by blast
  have "nor_step [0xC7] (c\<lparr>n_wel := True\<rparr>) = c\<lparr>n_mem := ?m, n_wel := False, n_busy := n_delay c [0xC7]\<rparr>"
    using assms(2) by (simp add: nor_step_def)
  with command_on_chip [OF st1(2), of "[0xC7]"] obtain st2 where
    st2: "spi_write_read env [0xC7] [] 0 st1 = Some (SFUD_SUCCESS, [], st2)"
      "on_chip env c0 b st2 (c\<lparr>n_mem := ?m, n_wel := False, n_busy := n_delay c [0xC7]\<rparr>)" by auto
  have "\<exists>st3. wait_busy env f st2 = Some (SFUD_SUCCESS, st3)
      \<and> on_chip env c0 b st3 (c\<lparr>n_mem := ?m, n_wel := False, n_busy := 0\<rparr>)"
    using wait_on_chip [OF st2(2), of f] f(3) by simp
  then obtain st3 where st3: "wait_busy env f st2 = Some (SFUD_SUCCESS, st3)"
      "on_chip env c0 b st3 (c\<lparr>n_mem := ?m, n_wel := False, n_busy := 0\<rparr>)" by blast
  have same: "c\<lparr>n_mem := ?m, n_wel := False, n_busy := 0\<rparr> = c\<lparr>n_mem := ?m, n_wel := False\<rparr>" using assms(2) by (cases c) simp
  have "\<exists>st4. set_write_enabled env False st3 = Some (SFUD_SUCCESS, st4) \<and> on_chip env c0 b st4 (c\<lparr>n_mem := ?m, n_wel := False\<rparr>)"
    using enable_on_chip [OF st3(2) [unfolded same], of False] assms(2) by simp
  then obtain st4 where st4: "set_write_enabled env False st3 = Some (SFUD_SUCCESS, st4)"
      "on_chip env c0 b st4 (c\<lparr>n_mem := ?m, n_wel := False\<rparr>)" by blast
  with st1(1) st2(1) st3(1) st4 f(1,2) show ?thesis by (simp add: sfud_chip_erase_def)
qed

lemma erase_on_chip:
  assumes "on_chip env c0 b st c" and "n_busy c = 0" and "fits f c" and "0 < n" and "addr < 2 ^ 32"
    and "\<not> out_of_bound f addr n"
  shows "\<exists>st' m'. sfud_erase env f addr n st = Some (SFUD_SUCCESS, st')
     \<and> on_chip env c0 b st' (c\<lparr>n_mem := m', n_wel := False\<rparr>) \<and> erased (erase_unit f) addr n (n_mem c) m'"
proof (cases "addr = 0 \<and> n = 2 ^ 24")
  case True
  have f: "init_ok f" "capacity (chip f) = 2 ^ 24" using assms(3) by (simp_all add: fits_def)
  let ?m = "nor_erase_all (n_mem c)"
  have "erased (erase_unit f) addr n (n_mem c) ?m"
    using True by (auto simp: erased_def touched_def div_le_mono nor_erase_all_def)
  moreover have "sfud_erase env f addr n st = sfud_chip_erase env f st"
    using True f assms(6) by (simp add: sfud_erase_def)
  moreover obtain st' where "sfud_chip_erase env f st = Some (SFUD_SUCCESS, st')"
    "on_chip env c0 b st' (c\<lparr>n_mem := ?m, n_wel := False\<rparr>)"
    using chip_erase_on_chip [OF assms(1-3)] by blast
  ultimately show ?thesis by (intro exI [of _ st'] exI [of _ ?m]) simp
next
  case False
  have f: "init_ok f" "capacity (chip f) = 2 ^ 24" using assms(3) by (simp_all add: fits_def)
  obtain st1 m' where loop: "erase_loop env f addr n st = Some (SFUD_SUCCESS, st1)"
    "on_chip env c0 b st1 (c\<lparr>n_mem := m', n_wel := False\<rparr>)" "erased (erase_unit f) addr n (n_mem c) m'"
    using erase_loop_on_chip [OF assms(1-5)] by blast
  have "\<exists>st2. set_write_enabled env False st1 = Some (SFUD_SUCCESS, st2) \<and> on_chip env c0 b st2 (c\<lparr>n_mem := m', n_wel := False\<rparr>)"
    using enable_on_chip [OF loop(2), of False] assms(2) by simp
  then obtain st2 where "set_write_enabled env False st1 = Some (SFUD_SUCCESS, st2)"
    "on_chip env c0 b st2 (c\<lparr>n_mem := m', n_wel := False\<rparr>)" by blast
  moreover have "sfud_erase env f addr n st = Some (SFUD_SUCCESS, st2)"
    using loop(1) f False assms(6) calculation(1) unfolding sfud_erase_def by auto
  ultimately show ?thesis using loop(3) by (intro exI [of _ st2] exI [of _ m']) simp
qed

definition programmed :: "nat \<Rightarrow> u8 list \<Rightarrow> (nat \<Rightarrow> u8) \<Rightarrow> nat \<Rightarrow> u8" where
  "programmed a ds m = (\<lambda>x. if a \<le> x \<and> x < a + length ds then m x AND ds ! (x - a) else m x)"

lemma programmed_split:
  "k \<le> length ds \<Longrightarrow> programmed (a + k) (drop k ds) (programmed a (take k ds) m) = programmed a ds m"
  by (rule ext) (auto simp: programmed_def)

lemma write_step_on_chip:
  assumes "on_chip env c0 b st c" and "n_busy c = 0" and "fits f c" and "0 < n" and "n \<le> length data"
    and "addr + n \<le> 2 ^ 24"
  defines "k \<equiv> min n (256 - addr mod 256)"
  shows "\<exists>st'. write_step env f 256 addr n data st = Some (SFUD_SUCCESS, k, st')
    \<and> on_chip env c0 b st' (c\<lparr>n_mem := programmed addr (take k data) (n_mem c), n_wel := False\<rparr>)"
proof -
  let ?ds = "take k data" and ?a = "make_address_byte_array f addr"
  let ?tx = "0x02 # ?a @ ?ds" and ?m = "programmed addr (take k data) (n_mem c)"
  have a3: "\<not> addr_in_4_byte f" and dl: "n_delay c tx \<le> retry_times f" for tx
    using assms(3) by (simp_all add: fits_def)
  have m: "addr mod 256 < 256" by simp
  have k: "0 < k" "k \<le> n" "addr mod 256 + k \<le> 256" using m assms(4) by (simp_all add: k_def)
  have len: "length ?a = 3" "length ?ds = k" using make_address_3 [OF a3] k(2) assms(5) by simp_all
  obtain st1 where st1: "set_write_enabled env True st = Some (SFUD_SUCCESS, st1)" "on_chip env c0 b st1 (c\<lparr>n_wel := True\<rparr>)"
    using enable_on_chip [OF assms(1,2)] by blast
  have "addr mod 2 ^ 24 = addr" using assms(4,6) by (intro mod_less) linarith
  then have "nor_addr (?a @ ?ds) = addr" using nor_addr_bytes [OF a3] by simp
  moreover have "nor_program addr ?ds (n_mem c) = ?m"
    using nor_program_page [of addr ?ds] k(3) len(2) by (simp add: programmed_def fun_eq_iff)
  moreover have "drop 3 (?a @ ?ds) = ?ds" "3 < length (?a @ ?ds)" using len k(1) by simp_all
  ultimately have "nor_step ?tx (c\<lparr>n_wel := True\<rparr>) = c\<lparr>n_mem := ?m, n_wel := False, n_busy := n_delay c ?tx\<rparr>"
    using assms(2) unfolding nor_step_def list.case by (simp del: length_append drop_append)
  with command_on_chip [OF st1(2), of ?tx] len k obtain st2 where
    st2: "spi_write_read env ?tx [] 0 st1 = Some (SFUD_SUCCESS, [], st2)"
      "on_chip env c0 b st2 (c\<lparr>n_mem := ?m, n_wel := False, n_busy := n_delay c ?tx\<rparr>)" by auto
  have "\<exists>st3. wait_busy env f st2 = Some (SFUD_SUCCESS, st3)
      \<and> on_chip env c0 b st3 (c\<lparr>n_mem := ?m, n_wel := False, n_busy := 0\<rparr>)"
    using wait_on_chip [OF st2(2), of f] dl by simp
  then obtain st3 where st3: "wait_busy env f st2 = Some (SFUD_SUCCESS, st3)"
      "on_chip env c0 b st3 (c\<lparr>n_mem := ?m, n_wel := False, n_busy := 0\<rparr>)" by blast
  have same: "c\<lparr>n_mem := ?m, n_wel := False, n_busy := 0\<rparr> = c\<lparr>n_mem := ?m, n_wel := False\<rparr>" using assms(2) by (cases c) simp
  have "(if addr mod 256 \<noteq> 0 then (if n > 256 - addr mod 256 then 256 - addr mod 256 else n) else (if n > 256 then 256 else n)) = k"
    by (simp add: k_def min_def)
  then have "write_step env f 256 addr n data st = Some (SFUD_SUCCESS, k, st3)"
    using st1(1) st2(1) st3(1) k(2) assms(5) unfolding write_step_def Let_def by simp
  with st3(2) same show ?thesis by auto
qed

lemma write_loop_on_chip:
  "on_chip env c0 b st c \<Longrightarrow> n_busy c = 0 \<Longrightarrow> fits f c \<Longrightarrow> 0 < n \<Longrightarrow> n \<le> length data \<Longrightarrow> addr + n \<le> 2 ^ 24 \<Longrightarrow>
   \<exists>st'. write_loop env f 256 addr n data st = Some (SFUD_SUCCESS, st')
     \<and> on_chip env c0 b st' (c\<lparr>n_mem := programmed addr (take n data) (n_mem c), n_wel := False\<rparr>)"
proof (induction n arbitrary: addr data st c rule: less_induct)
  case (less n)
  define k where "k = min n (256 - addr mod 256)"
  let ?c = "c\<lparr>n_mem := programmed addr (take k data) (n_mem c), n_wel := False\<rparr>"
  obtain st1 where step: "write_step env f 256 addr n data st = Some (SFUD_SUCCESS, k, st1)" "on_chip env c0 b st1 ?c"
    using write_step_on_chip [OF less.prems] unfolding k_def by blast
  have k: "0 < k" "k \<le> n" using less.prems(4) by (simp_all add: k_def min_def)
  show ?case
  proof (cases "n = k")
    case True
    then have "write_loop env f 256 addr n data st = Some (SFUD_SUCCESS, st1)"
      using less.prems(4) step(1) by (subst write_loop.simps) simp
    with step(2) True show ?thesis by auto
  next
    case False
    then have n': "n - k < n" "0 < n - k" using k by linarith+
    moreover have "n_busy ?c = 0" "fits f ?c" using less.prems(2,3) by (auto intro: fits_same)
    moreover have "n - k \<le> length (drop k data)" "addr + k + (n - k) \<le> 2 ^ 24"
      using less.prems(5,6) k(2) by simp_all
    ultimately obtain st' where rec: "write_loop env f 256 (addr + k) (n - k) (drop k data) st1 = Some (SFUD_SUCCESS, st')"
      "on_chip env c0 b st' (?c\<lparr>n_mem := programmed (addr + k) (take (n - k) (drop k data)) (n_mem ?c), n_wel := False\<rparr>)"
      using less.IH [OF _ step(2)] by blast
    have "(addr + k) mod 2 ^ 32 = addr + k" using less.prems(6) k(2) by (intro mod_less) simp
    then have "write_loop env f 256 addr n data st = Some (SFUD_SUCCESS, st')"
      using less.prems(4) step(1) rec(1) False by (subst write_loop.simps) simp
    moreover have "programmed (addr + k) (take (n - k) (drop k data)) (programmed addr (take k data) (n_mem c))
        = programmed addr (take n data) (n_mem c)"
      using programmed_split [of k "take n data"] k(2) less.prems(5) by (simp add: drop_take min_absorb2)
    ultimately show ?thesis using rec(2) by auto
  qed
qed

lemma write_on_chip:
  assumes "on_chip env c0 b st c" and "n_busy c = 0" and "fits f c" and "0 < n" and "n \<le> length data"
    and "addr + n \<le> 2 ^ 24" and "write_mode (chip f) AND SFUD_WM_PAGE_256B \<noteq> 0"
  shows "\<exists>st'. sfud_write env f addr n data st = Some (SFUD_SUCCESS, st')
     \<and> on_chip env c0 b st' (c\<lparr>n_mem := programmed addr (take n data) (n_mem c), n_wel := False\<rparr>)"
proof -
  let ?c = "c\<lparr>n_mem := programmed addr (take n data) (n_mem c), n_wel := False\<rparr>"
  have f: "init_ok f" "capacity (chip f) = 2 ^ 24" using assms(3) by (simp_all add: fits_def)
  have "\<not> out_of_bound f addr n"
    using assms(6) f(2) le_trans [OF mod_less_eq_dividend] by (simp add: out_of_bound_def not_less)
  moreover obtain st1 where loop: "write_loop env f 256 addr n data st = Some (SFUD_SUCCESS, st1)" "on_chip env c0 b st1 ?c"
    using write_loop_on_chip [OF assms(1-6)] by blast
  moreover have "\<exists>st2. set_write_enabled env False st1 = Some (SFUD_SUCCESS, st2) \<and> on_chip env c0 b st2 ?c"
    using enable_on_chip [OF loop(2), of False] assms(2) by simp
  ultimately show ?thesis
    using f assms(7) by (auto simp: sfud_write_def page256_or_1_byte_write_def)
qed

lemma read_on_chip:
  assumes "on_chip env c0 b st c" and "fits f c" and "n_busy c = 0" and "addr + n \<le> 2 ^ 24"
    and "n + 4 \<le> b" and "n \<le> length buf"
  shows "\<exists>st'. sfud_read env f addr n buf st = Some (SFUD_SUCCESS, map (\<lambda>i. n_mem c (addr + i)) [0..<n] @ drop n buf, st')
    \<and> on_chip env c0 b st' c"
proof -
  let ?tx = "0x03 # make_address_byte_array f addr"
  have f: "init_ok f" "capacity (chip f) = 2 ^ 24" "\<not> addr_in_4_byte f" using assms(2) by (simp_all add: fits_def)
  have inb: "\<not> out_of_bound f addr n"
    using assms(4) f(2) le_trans [OF mod_less_eq_dividend] by (simp add: out_of_bound_def not_less)
  obtain st1 where st1: "wait_busy env f st = Some (SFUD_SUCCESS, st1)" "on_chip env c0 b st1 c"
    using wait_on_chip [OF assms(1), of f] assms(3) nor_idle [OF assms(3)] by auto
  have len: "length ?tx = 4" using make_address_3 [OF f(3)] by simp
  have "nor_step ?tx c = c"
    using assms(3) by (simp add: nor_step_def)
  moreover have "nor_reply ?tx n c = map (\<lambda>i. n_mem c (addr + i)) [0..<n]"
  proof -
    have "(addr mod 2 ^ 24 + i) mod 2 ^ 24 = addr + i" if "i < n" for i
      using that assms(4) by (subst mod_add_left_eq) (intro mod_less, linarith)
    then show ?thesis using assms(3) nor_addr_bytes [OF f(3), of addr "[]"] by (simp add: nor_reply_def)
  qed
  ultimately show ?thesis
    using bus_on_chip [OF st1(2), of ?tx n buf] len assms(5,6) f(1) st1(1) inb by (auto simp: sfud_read_def)
qed

section \<open>Finding the chip\<close>

text \<open>
  The driver's record of a W25Q128 without parameter tables, and that the initialisation makes it when
  the port is open to such a chip.
\<close>

definition w25q128 :: sfud_flash where
  "w25q128 = flash_table0\<lparr>retry_times := 10000, chip := chip_row 0xEF 0x40 0x18 16777216 SFUD_WM_PAGE_256B 4096 0x20, init_ok := True\<rparr>"

lemma w25q128_fits: "n_erase c 0x20 = Some 4096 \<Longrightarrow> (\<And>tx. n_delay c tx \<le> 10000) \<Longrightarrow> fits w25q128 c"
proof -
  have "(4096 :: nat) dvd 2 ^ 24" using le_imp_power_dvd [of 12 24 "2 :: nat"] by simp
  moreover have "SFUD_WM_PAGE_256B AND SFUD_WM_DUAL_BUFFER = 0" by (simp add: write_modes)
  ultimately show "n_erase c 0x20 = Some 4096 \<Longrightarrow> (\<And>tx. n_delay c tx \<le> 10000) \<Longrightarrow> fits w25q128 c"
    by (simp add: fits_def w25q128_def flash_table0_def chip_row_def eraser_ok_def)
qed

lemma table_w25q128:
  "find (\<lambda>r. mf_id r = 0xEF \<and> type_id r = 0x40 \<and> capacity_id r = 0x18) flash_chip_table
     = Some (chip_row 0xEF 0x40 0x18 16777216 SFUD_WM_PAGE_256B 4096 0x20)"
  by (simp add: flash_chip_table_def chip_row_def)

lemma simple_command:
  assumes "on_chip env c0 b st c" and "\<not> n_wel c" and "op \<notin> {0x05, 0x06}"
  shows "\<exists>st'. spi_write_read env [op] [] 0 st = Some (SFUD_SUCCESS, [], st') \<and> on_chip env c0 b st' c"
proof -
  have "nor_step [op] c = c" using assms(2,3) by (cases c) (auto simp: nor_step_def)
  with command_on_chip [OF assms(1), of "[op]"] show ?thesis by simp
qed

lemma reset_on_chip:
  assumes "on_chip env c0 b st c" and "n_busy c = 0" and "\<not> n_wel c"
  shows "\<exists>st'. reset_flash env f st = Some (SFUD_SUCCESS, st') \<and> on_chip env c0 b st' c"
proof -
  have wait: "\<exists>st'. wait_busy env f st = Some (SFUD_SUCCESS, st') \<and> on_chip env c0 b st' c" if "on_chip env c0 b st c" for st
    using wait_on_chip [OF that, of f] assms(2) nor_idle [OF assms(2)] by simp
  obtain st1 where st1: "spi_write_read env [0x66] [] 0 st = Some (SFUD_SUCCESS, [], st1)" "on_chip env c0 b st1 c"
    using simple_command [OF assms(1,3), of "0x66"] by auto
  obtain st2 where st2: "wait_busy env f st1 = Some (SFUD_SUCCESS, st2)" "on_chip env c0 b st2 c"
    using wait [OF st1(2)] by blast
  obtain st3 where st3: "spi_write_read env [0x99] [] 0 st2 = Some (SFUD_SUCCESS, [], st3)" "on_chip env c0 b st3 c"
    using simple_command [OF st2(2) assms(3), of "0x99"] by auto
  obtain st4 where "wait_busy env f st3 = Some (SFUD_SUCCESS, st4)" "on_chip env c0 b st4 c"
    using wait [OF st3(2)] by blast
  with st1(1) st2(1) st3(1) show ?thesis by (simp add: reset_flash_def)
qed

lemma init_on_chip:
  assumes "snd (spi_open env ''/dev/spidev4.0'' 0 20000000 (\<lparr>fd = - 1, c_errno = 0, errmsg = []\<rparr>, h)) = st"
    and "on_chip env c0 b st c" and "n_busy c = 0" and "\<not> n_wel c"
    and "n_id c = [0xEF, 0x40, 0x18]" and "n_sfdp c 0 \<noteq> 0x53"
  shows "\<exists>st'. sfud_init env True h = Some (SFUD_SUCCESS, w25q128, st') \<and> on_chip env c0 b st' c"
proof -
  let ?f = "flash_table0\<lparr>retry_times := 10000\<rparr>" and ?c = "chip_row 0xEF 0x40 0x18 16777216 SFUD_WM_PAGE_256B 4096 0x20"
  have len: "n + 5 \<le> b" if "n \<le> 8" for n using that assms(2) by (simp add: on_chip_def)
  have port: "sfud_spi_port_init env True flash_table0 h = Some (SFUD_SUCCESS, ?f, st)"
    using assms(1) by (simp add: sfud_spi_port_init_def spi_new_def case_prod_beta)
  have "nor_step [0x9F] c = c" "nor_reply [0x9F] 3 c = [0xEF, 0x40, 0x18]"
    using assms(3,5) by (simp_all add: nor_step_def nor_reply_def)
  with bus_on_chip [OF assms(2), of "[0x9F]" 3 "replicate 3 0"] len [of 3] obtain st1 where
    st1: "spi_write_read env [0x9F] (replicate 3 0) 3 st = Some (SFUD_SUCCESS, [0xEF, 0x40, 0x18], st1)" "on_chip env c0 b st1 c"
    by auto
  let ?f1 = "?f\<lparr>chip := chip_row 0xEF 0x40 0x18 0 0 0 0\<rparr>"
  have jedec: "read_jedec_id env ?f st = Some (SFUD_SUCCESS, ?f1, st1)"
    using st1(1) by (simp add: read_jedec_id_def flash_table0_def chip_row_def)
  let ?cmd = "[0x5A, byte_at 0 2, byte_at 0 1, byte_at 0 0, 0xFF] :: u8 list"
  have rp: "nor_step ?cmd c = c" "hd (nor_reply ?cmd 8 c) = n_sfdp c 0"
    using assms(3) by (simp_all add: nor_step_def nor_reply_def nor_addr_def byte_at_def upt_conv_Cons)
  obtain st2 where
    st2: "spi_write_read env ?cmd (replicate 8 0) 8 st1 = Some (SFUD_SUCCESS, nor_reply ?cmd 8 c, st2)" "on_chip env c0 b st2 c"
    using bus_on_chip [OF st1(2), of ?cmd 8 "replicate 8 0"] len [of 8] rp(1) by auto
  have "take 4 (nor_reply ?cmd 8 c) \<noteq> [0x53, 0x46, 0x44, 0x50]"
  proof
    assume "take 4 (nor_reply ?cmd 8 c) = [0x53, 0x46, 0x44, 0x50]"
    then have "hd (take 4 (nor_reply ?cmd 8 c)) = 0x53" by simp
    then show False using rp(2) assms(6) by simp
  qed
  then have sfdp: "sfud_read_sfdp env (sfdp ?f1) st1 = Some (False, sfdp ?f1, st2)"
    using st2(1) by (simp add: sfud_read_sfdp_def read_sfdp_header_def read_sfdp_data_def Let_def flash_table0_def)
  have tab: "chip_from_table (chip ?f1) = ?c"
    using table_w25q128 by (simp add: chip_from_table_def chip_row_def)
  let ?f2 = "?f1\<lparr>chip := ?c\<rparr>"
  have miss: "chip_missing (chip ?f)" "\<not> chip_missing ?c"
    by (simp_all add: chip_missing_def flash_table0_def chip_row_def write_modes)
  have found: "find_chip env ?f st = Some (SFUD_SUCCESS, ?f2, st2)"
    using miss(1) jedec sfdp tab by (simp add: find_chip_def)
  obtain st3 where st3: "reset_flash env ?f2 st2 = Some (SFUD_SUCCESS, st3)" "on_chip env c0 b st3 c"
    using reset_on_chip [OF st2(2) assms(3,4)] by blast
  have "unprotect env ?f2 st3 = Some (SFUD_SUCCESS, st3)"
    by (simp add: unprotect_def Let_def chip_row_def write_modes)
  then have "hardware_init env True flash_table0 h = Some (SFUD_SUCCESS, ?f2\<lparr>addr_in_4_byte := False\<rparr>, st3)"
    using port found miss(2) st3(1) by (simp add: hardware_init_def) (simp add: chip_row_def)
  moreover have "?f2\<lparr>addr_in_4_byte := False, init_ok := True\<rparr> = w25q128"
    by (simp add: w25q128_def flash_table0_def)
  ultimately show ?thesis using st3(2) by (simp add: sfud_init_def sfud_device_init_def)
qed

lemma demo_open:
  "snd (spi_open demo_bus ''/dev/spidev4.0'' 0 20000000 (\<lparr>fd = - 1, c_errno = 0, errmsg = []\<rparr>, [])) =
     (\<lparr>fd = 3, c_errno = 0, errmsg = []\<rparr>,
      [SIoctl 3 (WR_BITS 8) True, SIoctl 3 (WR_MAX_SPEED 20000000) True, SIoctl 3 (WR_MODE 0) True, SOpen ''/dev/spidev4.0'' (Some 3)])"
  by (simp add: spi_open_def spi_open_advanced_def spi_open_advanced2_def demo_bus_def MSB_FIRST_def LSB_FIRST_def
      mode_word_def open_config_def spi_ioctl_def Let_def)

lemma demo_fits: "fits w25q128 demo_nor"
  by (intro w25q128_fits) (simp_all add: demo_nor_def)

lemma demo_init: "\<exists>st'. sfud_init demo_bus True [] = Some (SFUD_SUCCESS, w25q128, st') \<and> on_chip demo_bus demo_nor 4096 st' demo_nor"
proof (rule init_on_chip [OF demo_open])
  show "on_chip demo_bus demo_nor 4096 (\<lparr>fd = 3, c_errno = 0, errmsg = []\<rparr>,
      [SIoctl 3 (WR_BITS 8) True, SIoctl 3 (WR_MAX_SPEED 20000000) True, SIoctl 3 (WR_MODE 0) True, SOpen ''/dev/spidev4.0'' (Some 3)]) demo_nor"
    by (rule demo_on_chip) simp
qed (simp_all add: demo_nor_def)

section \<open>Properties\<close>

lemma FF_AND [simp]: "(0xFF :: u8) AND x = x"
proof -
  have "(0xFF :: u8) = - 1" by simp
  then show ?thesis by (simp only: and.left_neutral)
qed

lemma erase_write_on_chip:
  assumes "on_chip env c0 b st c" and "n_busy c = 0" and "fits f c"
    and "write_mode (chip f) AND SFUD_WM_PAGE_256B \<noteq> 0" and "0 < n" and "n \<le> length data" and "addr + n \<le> 2 ^ 24"
  shows "\<exists>st' m'. sfud_erase_write env f addr n data st = Some (SFUD_SUCCESS, st')
    \<and> on_chip env c0 b st' (c\<lparr>n_mem := m', n_wel := False\<rparr>)
    \<and> (\<forall>i < n. m' (addr + i) = data ! i)
    \<and> (\<forall>x. \<not> touched (erase_unit f) addr n x \<longrightarrow> m' x = n_mem c x)"
proof -
  have a: "addr < 2 ^ 32" using assms(5,7) by simp
  have "capacity (chip f) = 2 ^ 24" using assms(3) by (simp add: fits_def)
  then have "\<not> out_of_bound f addr n"
    using assms(7) le_trans [OF mod_less_eq_dividend] by (simp add: out_of_bound_def not_less)
  then obtain st1 m1 where erase: "sfud_erase env f addr n st = Some (SFUD_SUCCESS, st1)"
    "on_chip env c0 b st1 (c\<lparr>n_mem := m1, n_wel := False\<rparr>)" "erased (erase_unit f) addr n (n_mem c) m1"
    using erase_on_chip [OF assms(1-3,5) a] by blast
  let ?c1 = "c\<lparr>n_mem := m1, n_wel := False\<rparr>" and ?m2 = "programmed addr (take n data) m1"
  have c1: "n_busy ?c1 = 0" "fits f ?c1" using assms(2,3) by (auto intro: fits_same)
  obtain st2 where wrote: "sfud_write env f addr n data st1 = Some (SFUD_SUCCESS, st2)"
    "on_chip env c0 b st2 (?c1\<lparr>n_mem := programmed addr (take n data) (n_mem ?c1), n_wel := False\<rparr>)"
    using write_on_chip [OF erase(2) c1 assms(5,6,7,4)] by blast
  have blank: "m1 (addr + i) = 0xFF" if "i < n" for i
    using erase(3) that assms(7) by (auto simp: erased_def)
  have cell: "?m2 (addr + i) = data ! i" if "i < n" for i
    using blank [OF that] that assms(6) by (simp add: programmed_def)
  have frame: "?m2 x = n_mem c x" if "\<not> touched (erase_unit f) addr n x" for x
  proof -
    have "\<not> (addr \<le> x \<and> x < addr + n)" using that by (auto simp: touched_def intro: div_le_mono)
    with that show ?thesis using erase(3) assms(7) by (auto simp: erased_def programmed_def)
  qed
  have "on_chip env c0 b st2 (c\<lparr>n_mem := ?m2, n_wel := False\<rparr>)" using wrote(2) by simp
  then show ?thesis
    using erase(1) wrote(1) cell frame by (intro exI [of _ st2] exI [of _ ?m2]) (simp add: sfud_erase_write_def)
qed

section \<open>The driver provides the contract of a rewritable memory\<close>

text \<open>
  The driver can be used: its handle is at an idle chip that fits it and is programmed by pages. A
  read sends a command of four bytes before the answer, which the burst has to leave room for.
\<close>

definition chip_ready :: "spi_env \<Rightarrow> nor \<Rightarrow> nat \<Rightarrow> sfud_flash \<Rightarrow> (nat \<Rightarrow> u8) \<Rightarrow> spi_st \<Rightarrow> bool" where
  "chip_ready env c0 b f m st \<longleftrightarrow> (\<exists>c. on_chip env c0 b st c \<and> n_busy c = 0 \<and> fits f c
     \<and> write_mode (chip f) AND SFUD_WM_PAGE_256B \<noteq> 0 \<and> n_mem c = m)"

lemma chip_readyI:
  "on_chip env c0 b st c \<Longrightarrow> n_busy c = 0 \<Longrightarrow> fits f c \<Longrightarrow> write_mode (chip f) AND SFUD_WM_PAGE_256B \<noteq> 0
   \<Longrightarrow> n_mem c = m \<Longrightarrow> chip_ready env c0 b f m st"
  by (auto simp: chip_ready_def)

interpretation chip_flash:
  rewritable_memory "chip_ready env c0 b f" "2 ^ 24" "b - 4" "sfud_read env f" SFUD_SUCCESS
    "sfud_erase_write env f" "erase_unit f"
  for env c0 b f
proof (unfold_locales, goal_cases)
  case (1 m s addr n buf)
  then obtain c where c: "on_chip env c0 b s c" "n_busy c = 0" "fits f c"
    "write_mode (chip f) AND SFUD_WM_PAGE_256B \<noteq> 0" "n_mem c = m" by (auto simp: chip_ready_def)
  then have "n + 4 \<le> b" using 1(3) unfolding on_chip_def by linarith
  from read_on_chip [OF c(1,3,2) 1(2) this 1(4)] c show ?case by (auto intro: chip_readyI)
next
  case (2 m s n data addr)
  then obtain c where c: "on_chip env c0 b s c" "n_busy c = 0" "fits f c"
    "write_mode (chip f) AND SFUD_WM_PAGE_256B \<noteq> 0" "n_mem c = m" by (auto simp: chip_ready_def)
  from erase_write_on_chip [OF c(1-4) 2(2,3,4)] obtain s' m' where
    w: "sfud_erase_write env f addr n data s = Some (SFUD_SUCCESS, s')"
      "on_chip env c0 b s' (c\<lparr>n_mem := m', n_wel := False\<rparr>)" "\<forall>i < n. m' (addr + i) = data ! i"
      "\<forall>x. \<not> touched (erase_unit f) addr n x \<longrightarrow> m' x = m x" using c(5) by auto
  have "chip_ready env c0 b f m' s'"
    using c by (intro chip_readyI [OF w(2)]) (auto intro: fits_same)
  with w show ?case using 2(3) by (intro exI [of _ s'] exI [of _ m']) (simp add: holds_def)
qed

section \<open>What is written is read back\<close>

text \<open>
  C9: The flash keeps what is written. On a chip that is idle and fits the driver, \<^verbatim>\<open>sfud_erase_write\<close> of
  a range inside of the chip succeeds; it changes no byte outside of the smallest erase blocks that the
  range touches; and every part of the range is then read back by \<^verbatim>\<open>sfud_read\<close>, into any buffer that
  is large enough, of which the rest is kept.
\<close>

theorem flash_keeps_data:
  assumes "on_chip env c0 b st c" and "n_busy c = 0" and "fits f c"
    and "write_mode (chip f) AND SFUD_WM_PAGE_256B \<noteq> 0" and "data \<noteq> []" and "addr + length data \<le> 2 ^ 24"
  shows "\<exists>st' c'. sfud_erase_write env f addr (length data) data st = Some (SFUD_SUCCESS, st')
    \<and> on_chip env c0 b st' c' \<and> n_busy c' = 0 \<and> fits f c'
    \<and> (\<forall>x. \<not> touched (erase_unit f) addr (length data) x \<longrightarrow> n_mem c' x = n_mem c x)
    \<and> (\<forall>i n buf. i + n \<le> length data \<and> n + 4 \<le> b \<and> n \<le> length buf \<longrightarrow>
         (\<exists>st''. sfud_read env f (addr + i) n buf st' = Some (SFUD_SUCCESS, take n (drop i data) @ drop n buf, st'')
           \<and> on_chip env c0 b st'' c'))"
proof -
  obtain st' m' where w: "sfud_erase_write env f addr (length data) data st = Some (SFUD_SUCCESS, st')"
    "on_chip env c0 b st' (c\<lparr>n_mem := m', n_wel := False\<rparr>)" "\<forall>i < length data. m' (addr + i) = data ! i"
    "\<forall>x. \<not> touched (erase_unit f) addr (length data) x \<longrightarrow> m' x = n_mem c x"
    using erase_write_on_chip [OF assms(1-4), of "length data" data addr] assms(5,6) by auto
  let ?c = "c\<lparr>n_mem := m', n_wel := False\<rparr>"
  have c: "n_busy ?c = 0" "fits f ?c" "holds (n_mem ?c) addr data" using assms(2,3) w(3) by (auto intro: fits_same simp: holds_def)
  have "\<exists>st''. sfud_read env f (addr + i) n buf st' = Some (SFUD_SUCCESS, take n (drop i data) @ drop n buf, st'')
      \<and> on_chip env c0 b st'' ?c" if "i + n \<le> length data" "n + 4 \<le> b" "n \<le> length buf" for i n buf
    using read_on_chip [OF w(2) c(2,1) _ that(2,3), of "addr + i"] holds_part [OF c(3) that(1)] assms(6) that(1) by simp
  with w c(1,2) show ?thesis by (intro exI [of _ st'] exI [of _ ?c]) simp
qed

text \<open>
  C10: The flash keeps every file. Files that are written one after the other with
  \<^verbatim>\<open>sfud_erase_write\<close>, to ranges inside of the chip of which no two touch the same erase block, are
  all there afterwards: any part of each of them is read back, and so is what other erase blocks held
  before.
\<close>

theorem flash_keeps_files:
  assumes "chip_ready env c0 b f m st" and "\<forall>r \<in> set files. inside (2 ^ 24) r"
    and "sorted_wrt (apart (erase_unit f)) files" and "inside (2 ^ 24) old" and "holds m (fst old) (snd old)"
    and "\<forall>r \<in> set files. apart (erase_unit f) r old"
  shows "\<exists>st' m'. put_all (sfud_erase_write env f) files st = Some st'
    \<and> (\<forall>(addr, data) \<in> set (old # files). \<forall>i n buf. i + n \<le> length data \<and> n + 4 \<le> b \<and> n \<le> length buf \<longrightarrow>
         (\<exists>st''. sfud_read env f (addr + i) n buf st' = Some (SFUD_SUCCESS, take n (drop i data) @ drop n buf, st'')
           \<and> chip_ready env c0 b f m' st''))"
proof -
  have "\<forall>k \<in> set [old]. holds m (fst k) (snd k) \<and> (\<forall>r \<in> set files. apart (erase_unit f) r k)"
    using assms(5,6) by simp
  from chip_flash.put_all_keeps [OF assms(1-3) this] obtain st' m' where
    w: "put_all (sfud_erase_write env f) files st = Some st'" "chip_ready env c0 b f m' st'"
      and kept: "\<forall>k \<in> set ([old] @ files). holds m' (fst k) (snd k)" by blast
  have "\<exists>st''. sfud_read env f (addr + i) n buf st' = Some (SFUD_SUCCESS, take n (drop i data) @ drop n buf, st'')
      \<and> chip_ready env c0 b f m' st''"
    if "(addr, data) \<in> set (old # files)" "i + n \<le> length data" "n + 4 \<le> b" "n \<le> length buf" for addr data i n buf
  proof -
    have "addr + length data \<le> 2 ^ 24" using that(1) assms(2,4) by (auto simp: inside_def)
    moreover have "holds m' addr data" using that(1) kept by force
    moreover have "n \<le> b - 4" using that(3) by simp
    ultimately show ?thesis using chip_flash.fetch_part [OF w(2) _ _ that(2) _ that(4)] by blast
  qed
  with w(1) show ?thesis by (intro exI [of _ st'] exI [of _ m']) auto
qed

section \<open>A bus on which nothing is transferred\<close>

definition dead :: "spi_env \<Rightarrow> bool" where
  "dead env \<longleftrightarrow> (\<forall>h d tx len. fst (s_transfer env h d tx len) < 1)"

lemma dead_bus:
  assumes "dead env" and "length wb + n < 2 ^ 31" and "n \<le> length rb"
  shows "\<exists>st'. spi_write_read env wb rb n st = Some (SFUD_SUCCESS, replicate n 0 @ drop n rb, st')"
proof -
  obtain s h where st: "st = (s, h)" by fastforce
  obtain ret err rx where t: "s_transfer env h (fd s) wb (word_of_nat (length wb + n)) = (ret, err, rx)" by (metis prod_cases3)
  then have "ret < 1" using assms(1) by (metis dead_def fst_conv)
  then have "\<exists>code st'. spi_transfer env wb (length wb + n) st = (Inl code, st')"
    using t by (auto simp: spi_transfer_def st split: prod.split)
  then show ?thesis using assms(2,3) by (auto simp: spi_write_read_eq Let_def tmp_bytes_def)
qed

lemma dead_status: "dead env \<Longrightarrow> \<exists>st'. sfud_read_status env st = Some (SFUD_SUCCESS, 0, st')"
  using dead_bus [of env "[0x05]" 1 "[0]" st] by (auto simp: sfud_read_status_def)

lemma dead_wait: "dead env \<Longrightarrow> \<exists>st'. wait_busy env f st = Some (SFUD_SUCCESS, st')"
  using dead_status [of env st] by (cases "retry_times f") (auto simp: wait_busy_def)

lemma dead_enable: "dead env \<Longrightarrow> \<exists>st'. set_write_enabled env v st = Some (if v then SFUD_ERR_WRITE else SFUD_SUCCESS, st')"
proof -
  assume d: "dead env"
  obtain st1 where "spi_write_read env [if v then 0x06 else 0x04] [] 0 st = Some (SFUD_SUCCESS, [], st1)"
    using dead_bus [OF d, of "[if v then 0x06 else 0x04]" 0 "[]" st] by auto
  moreover obtain st2 where "sfud_read_status env st1 = Some (SFUD_SUCCESS, 0, st2)"
    using dead_status [OF d] by blast
  ultimately show ?thesis by (auto simp: set_write_enabled_def)
qed

lemma dead_erase_loop: "dead env \<Longrightarrow> 0 < n \<Longrightarrow> erase_choice f addr n \<noteq> None \<Longrightarrow>
   \<exists>st'. erase_loop env f addr n st = Some (SFUD_ERR_WRITE, st')"
  using dead_enable [of env True st] by (subst erase_loop.simps) (auto simp: erase_step_def)

lemma dead_write_loop: "dead env \<Longrightarrow> 0 < n \<Longrightarrow> 0 < gran \<Longrightarrow>
   \<exists>st'. write_loop env f gran addr n data st = Some (SFUD_ERR_WRITE, st')"
  using dead_enable [of env True st] by (subst write_loop.simps) (auto simp: write_step_def)

text \<open>The chip is then not found: its identifier reads as zeros, and no table entry has that.\<close>

lemma no_zero_id: "find (\<lambda>r. mf_id r = 0 \<and> type_id r = 0 \<and> capacity_id r = 0) flash_chip_table = None"
  by (simp add: flash_chip_table_def chip_row_def)

lemma dead_sfdp:
  assumes "dead env"
  shows "\<exists>p' st'. sfud_read_sfdp env p st = Some (False, p', st')"
proof -
  let ?cmd = "[0x5A, byte_at 0 2, byte_at 0 1, byte_at 0 0, 0xFF] :: u8 list"
  obtain st1 where "spi_write_read env ?cmd (replicate 8 0) 8 st = Some (SFUD_SUCCESS, replicate 8 0, st1)"
    using dead_bus [OF assms, of ?cmd 8 "replicate 8 0" st] by auto
  moreover have "take 4 (replicate 8 (0 :: u8)) \<noteq> [0x53, 0x46, 0x44, 0x50]" by code_simp
  ultimately show ?thesis
    by (simp add: sfud_read_sfdp_def read_sfdp_header_def read_sfdp_data_def Let_def)
qed

lemma dead_init:
  assumes "dead env"
  shows "\<exists>f st. sfud_init env True h = Some (SFUD_ERR_NOT_FOUND, f, st) \<and> \<not> init_ok f"
proof -
  let ?f = "flash_table0\<lparr>retry_times := 10000\<rparr>"
  obtain s0 h0 where port: "sfud_spi_port_init env True flash_table0 h = Some (SFUD_SUCCESS, ?f, s0, h0)"
    by (cases "snd (spi_open env ''/dev/spidev4.0'' 0 20000000 (\<lparr>fd = - 1, c_errno = 0, errmsg = []\<rparr>, h))")
      (simp add: sfud_spi_port_init_def spi_new_def case_prod_beta)
  obtain st1 where "spi_write_read env [0x9F] (replicate 3 0) 3 (s0, h0) = Some (SFUD_SUCCESS, replicate 3 0, st1)"
    using dead_bus [OF assms, of "[0x9F]" 3 "replicate 3 0" "(s0, h0)"] by auto
  then have jedec: "read_jedec_id env ?f (s0, h0) = Some (SFUD_SUCCESS, ?f, st1)"
    by (simp add: read_jedec_id_def flash_table0_def chip_row_def)
  obtain p st2 where sfdp: "sfud_read_sfdp env (sfdp ?f) st1 = Some (False, p, st2)"
    using dead_sfdp [OF assms] by blast
  have none: "chip_from_table (chip ?f) = chip ?f"
    using no_zero_id by (simp add: chip_from_table_def flash_table0_def chip_row_def)
  have miss: "chip_missing (chip ?f)" by (simp add: chip_missing_def flash_table0_def chip_row_def)
  have "find_chip env ?f (s0, h0) = Some (SFUD_SUCCESS, ?f\<lparr>sfdp := p, chip := chip ?f\<rparr>, st2)"
    using miss jedec sfdp none by (simp add: find_chip_def)
  then show ?thesis using port miss by (simp add: sfud_init_def sfud_device_init_def hardware_init_def)
qed

text \<open>
  C39: A failing bus is noticed late and never by a read. When no transfer succeeds, a read of an
  initialised device returns success and zeros; an erasure and a page write of at least one byte
  return a write error, because the write enable latch reads as unset; and the initialisation finds
  no chip.
\<close>

theorem flash_dead_bus:
  assumes "dead env"
  shows "(\<exists>f' st'. sfud_init env True h = Some (SFUD_ERR_NOT_FOUND, f', st') \<and> \<not> init_ok f')
    \<and> (init_ok f \<and> \<not> out_of_bound f addr n \<and> 0 < n \<and> n + 5 < 2 ^ 31 \<longrightarrow>
         (\<forall>buf. n \<le> length buf \<longrightarrow> (\<exists>st'. sfud_read env f addr n buf st = Some (SFUD_SUCCESS, replicate n 0 @ drop n buf, st')))
       \<and> (erase_choice f addr n \<noteq> None \<and> (addr \<noteq> 0 \<or> n \<noteq> capacity (chip f)) \<longrightarrow>
            (\<exists>st'. sfud_erase env f addr n st = Some (SFUD_ERR_WRITE, st')))
       \<and> (write_mode (chip f) AND SFUD_WM_PAGE_256B \<noteq> 0 \<longrightarrow>
            (\<exists>st'. sfud_write env f addr n data st = Some (SFUD_ERR_WRITE, st'))))"
proof -
  have read: "\<exists>st'. sfud_read env f addr n buf st = Some (SFUD_SUCCESS, replicate n 0 @ drop n buf, st')"
    if ok: "init_ok f" "\<not> out_of_bound f addr n" "n + 5 < 2 ^ 31" "n \<le> length buf" for buf
  proof -
    let ?tx = "0x03 # make_address_byte_array f addr"
    obtain st1 where st1: "wait_busy env f st = Some (SFUD_SUCCESS, st1)" using dead_wait [OF assms] by blast
    have "length ?tx + n < 2 ^ 31" using ok(3) by (simp add: make_address_length)
    with st1 ok dead_bus [OF assms this ok(4), of st1] show ?thesis by (simp add: sfud_read_def)
  qed
  have erase: "\<exists>st'. sfud_erase env f addr n st = Some (SFUD_ERR_WRITE, st')"
    if ok: "init_ok f" "\<not> out_of_bound f addr n" "0 < n" "erase_choice f addr n \<noteq> None" "addr \<noteq> 0 \<or> n \<noteq> capacity (chip f)"
  proof -
    obtain st1 where st1: "erase_loop env f addr n st = Some (SFUD_ERR_WRITE, st1)"
      using dead_erase_loop [OF assms ok(3,4)] by blast
    obtain st2 where "set_write_enabled env False st1 = Some (SFUD_SUCCESS, st2)"
      using dead_enable [OF assms, of False st1] by auto
    with st1 ok show ?thesis by (auto simp: sfud_erase_def)
  qed
  have wrote: "\<exists>st'. sfud_write env f addr n data st = Some (SFUD_ERR_WRITE, st')"
    if ok: "init_ok f" "\<not> out_of_bound f addr n" "0 < n" "write_mode (chip f) AND SFUD_WM_PAGE_256B \<noteq> 0"
  proof -
    obtain st1 where st1: "write_loop env f 256 addr n data st = Some (SFUD_ERR_WRITE, st1)"
      using dead_write_loop [OF assms ok(3), of 256 f addr data st] by auto
    obtain st2 where "set_write_enabled env False st1 = Some (SFUD_SUCCESS, st2)"
      using dead_enable [OF assms, of False st1] by auto
    with st1 ok show ?thesis by (auto simp: sfud_write_def page256_or_1_byte_write_def)
  qed
  show ?thesis using dead_init [OF assms] read erase wrote by blast
qed

section \<open>A size that is larger than the buffer\<close>

text \<open>Wherever the page program lands, the chip takes it.\<close>

lemma program_step_any: "\<exists>m'. nor_step (0x02 # tx) (c\<lparr>n_wel := True\<rparr>) = c\<lparr>n_mem := m', n_wel := False, n_busy := n_delay c (0x02 # tx)\<rparr>"
  if "n_busy c = 0" and "3 < length tx"
  using that by (intro exI [of _ "nor_program (nor_addr tx) (drop 3 tx) (n_mem c)"]) (simp add: nor_step_def)

lemma write_step_any:
  fixes addr :: nat
  assumes "on_chip env c0 b st c" and "n_busy c = 0" and "fits f c" and "0 < n"
  defines "k \<equiv> min n (256 - addr mod 256)"
  shows "(length data < k \<longrightarrow> write_step env f 256 addr n data st = None)
    \<and> (k \<le> length data \<longrightarrow> (\<exists>st' m'. write_step env f 256 addr n data st = Some (SFUD_SUCCESS, k, st')
         \<and> on_chip env c0 b st' (c\<lparr>n_mem := m', n_wel := False\<rparr>)))"
proof -
  let ?ds = "take k data" and ?a = "make_address_byte_array f addr"
  let ?tx = "0x02 # ?a @ ?ds"
  have a3: "\<not> addr_in_4_byte f" and dl: "n_delay c tx \<le> retry_times f" for tx
    using assms(3) by (simp_all add: fits_def)
  obtain st1 where st1: "set_write_enabled env True st = Some (SFUD_SUCCESS, st1)" "on_chip env c0 b st1 (c\<lparr>n_wel := True\<rparr>)"
    using enable_on_chip [OF assms(1,2)] by blast
  have ds: "(if addr mod 256 \<noteq> 0 then (if n > 256 - addr mod 256 then 256 - addr mod 256 else n) else (if n > 256 then 256 else n)) = k"
    by (simp add: k_def min_def)
  have "addr mod 256 < 256" by simp
  then have k: "0 < k" "k \<le> 256" using assms(4) unfolding k_def by linarith+
  have short: "write_step env f 256 addr n data st = None" if "length data < k"
    using st1(1) that ds unfolding write_step_def Let_def by simp
  have "\<exists>st' m'. write_step env f 256 addr n data st = Some (SFUD_SUCCESS, k, st')
      \<and> on_chip env c0 b st' (c\<lparr>n_mem := m', n_wel := False\<rparr>)" if len: "k \<le> length data"
  proof -
    have l: "length ?a = 3" "length ?ds = k" using make_address_3 [OF a3] len by simp_all
    have "3 < length (?a @ ?ds)" using l k(1) by (simp only: length_append)
    then obtain m' where m': "nor_step ?tx (c\<lparr>n_wel := True\<rparr>) = c\<lparr>n_mem := m', n_wel := False, n_busy := n_delay c ?tx\<rparr>"
      using program_step_any [OF assms(2), of "?a @ ?ds"] by blast
    with command_on_chip [OF st1(2), of ?tx] l k obtain st2 where
      st2: "spi_write_read env ?tx [] 0 st1 = Some (SFUD_SUCCESS, [], st2)"
        "on_chip env c0 b st2 (c\<lparr>n_mem := m', n_wel := False, n_busy := n_delay c ?tx\<rparr>)" by auto
    have "\<exists>st3. wait_busy env f st2 = Some (SFUD_SUCCESS, st3)
        \<and> on_chip env c0 b st3 (c\<lparr>n_mem := m', n_wel := False, n_busy := 0\<rparr>)"
      using wait_on_chip [OF st2(2), of f] dl by simp
    then obtain st3 where st3: "wait_busy env f st2 = Some (SFUD_SUCCESS, st3)"
        "on_chip env c0 b st3 (c\<lparr>n_mem := m', n_wel := False, n_busy := 0\<rparr>)" by blast
    have same: "c\<lparr>n_mem := m', n_wel := False, n_busy := 0\<rparr> = c\<lparr>n_mem := m', n_wel := False\<rparr>" using assms(2) by (cases c) simp
    have "write_step env f 256 addr n data st = Some (SFUD_SUCCESS, k, st3)"
      using st1(1) st2(1) st3(1) len ds unfolding write_step_def Let_def by simp
    with st3(2) same show ?thesis by auto
  qed
  with short show ?thesis by blast
qed

lemma write_loop_short:
  "on_chip env c0 b st c \<Longrightarrow> n_busy c = 0 \<Longrightarrow> fits f c \<Longrightarrow> length data < n \<Longrightarrow>
   write_loop env f 256 addr n data st = None"
proof (induction n arbitrary: addr data st c rule: less_induct)
  case (less n)
  define k where "k = min n (256 - addr mod 256)"
  have n: "0 < n" using less.prems(4) by linarith
  note step = write_step_any [OF less.prems(1-3) n, where addr = addr and data = data, folded k_def]
  have "addr mod 256 < 256" by simp
  then have k: "0 < k" using n unfolding k_def by linarith
  show ?case
  proof (cases "length data < k")
    case True
    with step n show ?thesis by (subst write_loop.simps) simp
  next
    case False
    with step obtain st' m' where s: "write_step env f 256 addr n data st = Some (SFUD_SUCCESS, k, st')"
      "on_chip env c0 b st' (c\<lparr>n_mem := m', n_wel := False\<rparr>)" by force
    have c': "n_busy (c\<lparr>n_mem := m', n_wel := False\<rparr>) = 0" "fits f (c\<lparr>n_mem := m', n_wel := False\<rparr>)"
      using less.prems(2,3) by (auto intro: fits_same)
    have "n - k < n" "length (drop k data) < n - k" "n \<noteq> k" using False less.prems(4) k n by auto
    with less.IH [OF _ s(2) c'] s(1) n show ?thesis by (subst write_loop.simps) simp
  qed
qed

section \<open>Witnesses\<close>

definition dead_spi :: spi_env where
  "dead_spi = demo_bus\<lparr>s_transfer := (\<lambda>_ _ _ _. (- 1, 5, []))\<rparr>"

lemma dead_spi_dead: "dead dead_spi"
  by (simp add: dead_def dead_spi_def)

lemma w25q128_mode: "write_mode (chip w25q128) AND SFUD_WM_PAGE_256B \<noteq> 0" "init_ok w25q128" "capacity (chip w25q128) = 2 ^ 24"
  by (simp_all add: w25q128_def chip_row_def write_modes)

theorem flash_keeps_data_witness:
  "\<exists>st st'. sfud_erase_write demo_bus w25q128 0x400000 3 [1, 2, 3] st = Some (SFUD_SUCCESS, st')
     \<and> (\<exists>st''. sfud_read demo_bus w25q128 0x400001 2 [0, 0] st' = Some (SFUD_SUCCESS, [2, 3], st''))"
proof -
  obtain st where st: "on_chip demo_bus demo_nor 4096 st demo_nor" using demo_init by blast
  have idle: "n_busy demo_nor = 0" by (simp add: demo_nor_def)
  have "[1, 2, 3 :: u8] \<noteq> []" "0x400000 + length [1, 2, 3 :: u8] \<le> 2 ^ 24" by simp_all
  from flash_keeps_data [OF st idle demo_fits w25q128_mode(1) this] obtain st' c' where
    w: "sfud_erase_write demo_bus w25q128 0x400000 (length [1, 2, 3 :: u8]) [1, 2, 3] st = Some (SFUD_SUCCESS, st')" and
    r: "\<forall>i n buf. i + n \<le> length [1, 2, 3 :: u8] \<and> n + 4 \<le> 4096 \<and> n \<le> length buf \<longrightarrow>
         (\<exists>st''. sfud_read demo_bus w25q128 (0x400000 + i) n buf st' = Some (SFUD_SUCCESS, take n (drop i [1, 2, 3]) @ drop n buf, st'')
           \<and> on_chip demo_bus demo_nor 4096 st'' c')"
    by (elim exE conjE) (rule that)
  have "\<exists>st''. sfud_read demo_bus w25q128 0x400001 2 [0, 0] st' = Some (SFUD_SUCCESS, [2, 3], st'')"
    using r [THEN spec [of _ 1], THEN spec [of _ 2], THEN spec [of _ "[0, 0]"]] by auto
  moreover have "length [1, 2, 3 :: u8] = 3" by simp
  ultimately show ?thesis using w by metis
qed

theorem flash_dead_bus_witness:
  "\<exists>st'. sfud_read dead_spi w25q128 0 1 [7] (\<lparr>fd = 3, c_errno = 0, errmsg = []\<rparr>, []) = Some (SFUD_SUCCESS, [0], st')"
proof -
  have "\<not> out_of_bound w25q128 0 1" by (simp add: out_of_bound_def w25q128_mode)
  then show ?thesis
    using flash_dead_bus [OF dead_spi_dead, of undefined w25q128 0 1 "(\<lparr>fd = 3, c_errno = 0, errmsg = []\<rparr>, [])" "[]"]
      w25q128_mode(2) by (auto dest: spec [of _ "[7]"])
qed

text \<open>Two files in neighbouring sectors, behind a sector that holds zeros.\<close>

theorem flash_keeps_files_witness:
  "\<exists>st st'. put_all (sfud_erase_write demo_bus w25q128) [(4096, [1, 2]), (8192, [3])] st = Some st'
     \<and> (\<exists>st''. sfud_read demo_bus w25q128 4096 2 [9, 9, 9] st' = Some (SFUD_SUCCESS, [1, 2, 9], st''))
     \<and> (\<exists>st''. sfud_read demo_bus w25q128 4095 1 [9] st' = Some (SFUD_SUCCESS, [0], st''))"
proof -
  obtain st where st: "on_chip demo_bus demo_nor 4096 st demo_nor" using demo_init by blast
  have "n_busy demo_nor = 0" by (simp add: demo_nor_def)
  then have ready: "chip_ready demo_bus demo_nor 4096 w25q128 (n_mem demo_nor) st"
    using st demo_fits w25q128_mode(1) by (intro chip_readyI) simp_all
  let ?files = "[(4096, [1, 2]), (8192, [3])] :: region list" and ?old = "(4095, [0]) :: region"
  have unit: "erase_unit w25q128 = 4096"
    by (simp add: erase_unit_def w25q128_def flash_table0_def chip_row_def)
  have files: "\<forall>r \<in> set ?files. inside (2 ^ 24) r" "sorted_wrt (apart (erase_unit w25q128)) ?files"
    "inside (2 ^ 24) ?old" "holds (n_mem demo_nor) (fst ?old) (snd ?old)"
    "\<forall>r \<in> set ?files. apart (erase_unit w25q128) r ?old"
    by (simp_all add: inside_def unit apart_def holds_def demo_nor_def)
  from flash_keeps_files [OF ready files] obtain st' m' where
    w: "put_all (sfud_erase_write demo_bus w25q128) ?files st = Some st'" and
    r: "\<forall>(addr, data) \<in> set (?old # ?files). \<forall>i n buf. i + n \<le> length data \<and> n + 4 \<le> 4096 \<and> n \<le> length buf \<longrightarrow>
         (\<exists>st''. sfud_read demo_bus w25q128 (addr + i) n buf st' = Some (SFUD_SUCCESS, take n (drop i data) @ drop n buf, st'')
           \<and> chip_ready demo_bus demo_nor 4096 w25q128 m' st'')"
    by (elim exE conjE) (rule that)
  have "\<exists>st''. sfud_read demo_bus w25q128 (4096 + 0) 2 [9, 9, 9] st' = Some (SFUD_SUCCESS, [1, 2, 9], st'')"
    using r [THEN bspec [of _ _ "(4096, [1, 2])"], simplified, THEN spec [of _ 0], THEN spec [of _ 2], THEN spec [of _ "[9, 9, 9]"]]
    by auto
  moreover have "\<exists>st''. sfud_read demo_bus w25q128 (4095 + 0) 1 [9] st' = Some (SFUD_SUCCESS, [0], st'')"
    using r [THEN bspec [of _ _ ?old], simplified, THEN spec [of _ 0], THEN spec [of _ 1], THEN spec [of _ "[9]"]]
    by auto
  ultimately show ?thesis using w by (intro exI [of _ st] exI [of _ st']) simp
qed

end
