(* ===== verification/FlashTools.thy ===== *)
theory FlashTools
  imports SfudFlash CdrawTime
begin

text \<open>
  The two programs that copy a bit file into the flash and back: \<^verbatim>\<open>test_sfud_c.c\<close> and \<^verbatim>\<open>main.cc\<close>. The
  two contain the same code; in \<^verbatim>\<open>main.cc\<close> its parts are switched by macros, which are all commented
  out there.

  The bit file is the parameter \<open>bin\<close>: \<open>None\<close> when it cannot be opened, \<open>Some None\<close> when reading it
  fails, else the bytes read, at most a gibibyte. \<open>junk\<close> is the content of the allocated block
  before that. The result has the contents of the second file, to which everything is written when
  \<open>out_ok\<close> says that it could be opened. Descriptors and messages are left out.
\<close>

section \<open>Writing and reading back\<close>

definition BIT_FILE_ADDR :: nat where "BIT_FILE_ADDR = 0x400000"

text \<open>\<open>Inl\<close> the exit code when the file cannot be opened, \<open>Inr\<close> the number of bytes read.\<close>

definition write_bit_file ::
  "spi_env \<Rightarrow> sfud_flash \<Rightarrow> u8 list option option \<Rightarrow> u8 list \<Rightarrow> spi_st \<Rightarrow> (int + int \<times> spi_st) option" where
  "write_bit_file env f bin junk st =
     (case bin of
        None \<Rightarrow> Some (Inl (- 1))
      | Some r \<Rightarrow>
          let read_len = (case r of None \<Rightarrow> - 1 | Some bs \<Rightarrow> int (length bs));
              bin_data = (case r of None \<Rightarrow> junk | Some bs \<Rightarrow> bs @ drop (length bs) junk)
          in do { (_, st) \<leftarrow> sfud_erase_write env f BIT_FILE_ADDR (nat (to_u64 read_len)) bin_data st;
                  Some (Inr (read_len, st)) })"

text \<open>
  One part of the file: read into the array of 103 bytes, then written out; writing more bytes than
  the array has is undefined.
\<close>

definition read_part ::
  "spi_env \<Rightarrow> sfud_flash \<Rightarrow> bool \<Rightarrow> int \<Rightarrow> int \<Rightarrow> u8 list \<times> u8 list \<times> spi_st \<Rightarrow> (u8 list \<times> u8 list \<times> spi_st) option" where
  "read_part env f out_ok read_len i = (\<lambda>(read_flash_data, out, st).
     let addr = nat ((int BIT_FILE_ADDR + i * 100) mod 2 ^ 32);
         (n, m) = (if i * 100 < read_len - 100 then (104, 100)
                   else (nat (to_u64 (read_len - i * 100)), nat (to_u64 (read_len - i * 100))))
     in do { (_, read_flash_data, st) \<leftarrow> sfud_read env f addr n read_flash_data st;
             if length read_flash_data < m then None
             else Some (read_flash_data, if out_ok then out @ take m read_flash_data else out, st) })"

definition read_bit_file ::
  "spi_env \<Rightarrow> sfud_flash \<Rightarrow> bool \<Rightarrow> int \<Rightarrow> spi_st \<Rightarrow> (u8 list \<times> spi_st) option" where
  "read_bit_file env f out_ok read_len st =
     do { q \<leftarrow> cdiv read_len 100;
          (_, out, st) \<leftarrow> for_range 0 (q + 1) (read_part env f out_ok read_len) (replicate 103 0, [], st);
          Some (out, st) }"

section \<open>The programs\<close>

definition test_sfud_c ::
  "spi_env \<Rightarrow> bool \<Rightarrow> u8 list option option \<Rightarrow> u8 list \<Rightarrow> bool \<Rightarrow> spi_hist \<Rightarrow> (int \<times> u8 list) option" where
  "test_sfud_c env calloc_ok bin junk out_ok h =
     do { (_, f, st) \<leftarrow> sfud_init env calloc_ok h;
          r \<leftarrow> write_bit_file env f bin junk st;
          (case r of
             Inl code \<Rightarrow> Some (code, [])
           | Inr (read_len, st) \<Rightarrow> do {
               (out, _) \<leftarrow> read_bit_file env f out_ok read_len st;
               Some (0, out) }) }"

text \<open>
  The macros of \<^verbatim>\<open>main.cc\<close>. Creating the file, when \<open>create_ok\<close> says that this is possible, overwrites
  the first ten bytes of one that is there; the clock readings are those of the constructor and the
  two calls of the stopwatch.
\<close>

record main_conf =
  CREATE_FILE :: bool
  WRITE_SPI_FLASH :: bool
  READ_SPI_FLASH_100 :: bool

definition main_cc_conf :: main_conf where
  "main_cc_conf = \<lparr>CREATE_FILE = False, WRITE_SPI_FLASH = False, READ_SPI_FLASH_100 = False\<rparr>"

definition created :: "bool \<Rightarrow> u8 list option option \<Rightarrow> u8 list option option" where
  "created create_ok bin =
     (let buf = [0x5a, 0x5a, 0x5a, 0x5a, 0x11, 0x22, 0x33, 0x44, 0x55, 0x66]
      in if \<not> create_ok then bin
         else case bin of None \<Rightarrow> Some (Some buf) | Some r \<Rightarrow> Some (map_option (\<lambda>old. buf @ drop 10 old) r))"

definition cdraw_main ::
  "main_conf \<Rightarrow> bool \<Rightarrow> spi_env \<Rightarrow> bool \<Rightarrow> u8 list option option \<Rightarrow> u8 list \<Rightarrow> bool \<Rightarrow> int \<Rightarrow> int \<Rightarrow> int \<Rightarrow> spi_hist
    \<Rightarrow> (int \<times> u8 list \<times> ctime) option" where
  "cdraw_main conf create_ok env calloc_ok bin0 junk out_ok now0 now1 now2 h =
     (let time1 = time_new now0
      in do {
        (_, f, st) \<leftarrow> sfud_init env calloc_ok h;
        let time1 = snd (getTimeDiff True True now1 time1);
        let bin = (if CREATE_FILE conf then created create_ok bin0 else bin0);
        r \<leftarrow> (if WRITE_SPI_FLASH conf then write_bit_file env f bin junk st else Some (Inr (0, st)));
        (case r of
           Inl code \<Rightarrow> Some (code, [], time1)
         | Inr (read_len, st) \<Rightarrow> do {
             (out, st) \<leftarrow> (if READ_SPI_FLASH_100 conf then read_bit_file env f out_ok read_len st else Some ([], st));
             Some (0, out, snd (getTimeDiff True True now2 time1)) }) })"

text \<open>As it stands, \<^verbatim>\<open>main.cc\<close> only initialises the flash and takes the time.\<close>

lemma main_as_configured:
  "cdraw_main main_cc_conf create_ok env calloc_ok bin junk out_ok now0 now1 now2 h =
     map_option (\<lambda>_. (0, [], \<lparr>current_time = now2, last_time = now2\<rparr>)) (sfud_init env calloc_ok h)"
  by (cases "sfud_init env calloc_ok h")
    (auto simp: cdraw_main_def main_cc_conf_def getTimeDiff_default Let_def)

text \<open>With writing and reading switched on, it does what \<^verbatim>\<open>test_sfud_c.c\<close> does.\<close>

lemma main_as_test:
  "map_option (\<lambda>(code, out, _). (code, out))
     (cdraw_main \<lparr>CREATE_FILE = False, WRITE_SPI_FLASH = True, READ_SPI_FLASH_100 = True\<rparr>
        create_ok env calloc_ok bin junk out_ok now0 now1 now2 h)
   = test_sfud_c env calloc_ok bin junk out_ok h"
  by (auto simp: cdraw_main_def test_sfud_c_def Let_def split: bind_splits sum.splits)

section \<open>Properties\<close>

lemma chip_ready_params:
  assumes "chip_ready env c0 b f m st"
  shows "init_ok f" and "capacity (chip f) = 2 ^ 24" and "256 \<le> b - 4"
  using assms by (auto simp: chip_ready_def fits_def on_chip_def)

lemma read_short_buffer:
  assumes "chip_ready env c0 b f m st" and "\<not> out_of_bound f addr n" and "length buf < n"
  shows "sfud_read env f addr n buf st = None"
proof -
  obtain c where c: "on_chip env c0 b st c" "n_busy c = 0" "fits f c" using assms(1) by (auto simp: chip_ready_def)
  then have "n_busy c \<le> retry_times f" by simp
  from wait_on_chip [OF c(1) this] obtain st1 where "wait_busy env f st = Some (SFUD_SUCCESS, st1)" by blast
  moreover have "spi_write_read env tx buf n st1 = None" for tx
    using assms(3) by (simp add: spi_write_read_def Let_def split: prod.split)
  ultimately show ?thesis using chip_ready_params(1) [OF assms(1)] assms(2) by (simp add: sfud_read_def)
qed

text \<open>After writing a file, the chip is still there, and holds the file when there is room for it.\<close>

lemma write_bit_file_on_chip:
  assumes "chip_ready env c0 b f m st" and "bs \<noteq> []" and "length bs \<le> 2 ^ 30"
  shows "\<exists>st' m'. write_bit_file env f (Some (Some bs)) junk st = Some (Inr (int (length bs), st'))
    \<and> chip_ready env c0 b f m' st' \<and> (BIT_FILE_ADDR + length bs \<le> 2 ^ 24 \<longrightarrow> holds m' BIT_FILE_ADDR bs)"
proof -
  let ?data = "bs @ drop (length bs) junk"
  have len: "nat (to_u64 (int (length bs))) = length bs"
    using assms(3) by (simp add: to_u64_id)
  show ?thesis
  proof (cases "BIT_FILE_ADDR + length bs \<le> 2 ^ 24")
    case True
    have "0 < length bs" "length bs \<le> length ?data" using assms(2) by simp_all
    from chip_flash.put_law [OF assms(1) this True] obtain st' m' where
      "sfud_erase_write env f BIT_FILE_ADDR (length bs) ?data st = Some (SFUD_SUCCESS, st')"
      "chip_ready env c0 b f m' st'" "holds m' BIT_FILE_ADDR bs" by auto
    with len show ?thesis by (intro exI [of _ st'] exI [of _ m']) (simp add: write_bit_file_def)
  next
    case False
    note cap = chip_ready_params [OF assms(1)]
    have "(BIT_FILE_ADDR + length bs) mod 2 ^ 64 = BIT_FILE_ADDR + length bs"
      using assms(3) by (intro mod_less) (simp add: BIT_FILE_ADDR_def)
    then have "out_of_bound f BIT_FILE_ADDR (length bs)" using False cap(2) by (simp add: out_of_bound_def)
    then have "sfud_erase_write env f BIT_FILE_ADDR (length bs) ?data st = Some (SFUD_ERR_ADDR_OUT_OF_BOUND, st)"
      using cap(1) by (simp add: sfud_erase_write_def sfud_erase_def)
    with len False assms(1) show ?thesis
      by (intro exI [of _ st] exI [of _ m]) (simp add: write_bit_file_def)
  qed
qed

lemma part_addr: "0 \<le> i \<Longrightarrow> i < 2 \<Longrightarrow> nat ((int BIT_FILE_ADDR + i * 100) mod 2 ^ 32) = BIT_FILE_ADDR + nat (i * 100)"
  by (simp add: BIT_FILE_ADDR_def nat_add_distrib)

text \<open>A part of a file that fits the array.\<close>

lemma read_part_on_chip:
  assumes "chip_ready env c0 b f m st" and "holds m BIT_FILE_ADDR bs" and "length bs \<le> 100"
    and "i = 0 \<or> i = 1 \<and> length bs = 100" and "length buf = 103"
  shows "\<exists>buf' st'. read_part env f True (int (length bs)) i (buf, out, st)
      = Some (buf', out @ drop (nat (i * 100)) bs, st') \<and> length buf' = 103 \<and> chip_ready env c0 b f m st'"
proof -
  let ?s = "nat (i * 100)" and ?k = "length bs - nat (i * 100)"
  have i: "0 \<le> i" "i < 2" "?s \<le> length bs" using assms(4) by auto
  have len: "nat (to_u64 (int (length bs) - i * 100)) = ?k"
    using assms(3,4) i by (subst to_u64_id) auto
  have last: "\<not> i * 100 < int (length bs) - 100" using assms(3) i(1) by linarith
  have "BIT_FILE_ADDR + length bs \<le> 2 ^ 24" "?s + ?k \<le> length bs" "?k \<le> length buf" "?k \<le> b - 4"
    using assms(3,5) i(3) chip_ready_params(3) [OF assms(1)] by (simp_all add: BIT_FILE_ADDR_def)
  from chip_flash.fetch_part [OF assms(1,2) this(1,2,4,3)] obtain st' where
    r: "sfud_read env f (BIT_FILE_ADDR + ?s) ?k buf st = Some (SFUD_SUCCESS, take ?k (drop ?s bs) @ drop ?k buf, st')"
      "chip_ready env c0 b f m st'" by blast
  have "take ?k (drop ?s bs) = drop ?s bs" by simp
  with r(1) have r': "sfud_read env f (BIT_FILE_ADDR + ?s) ?k buf st = Some (SFUD_SUCCESS, drop ?s bs @ drop ?k buf, st')" by simp
  have "length (drop ?s bs @ drop ?k buf) = 103" using assms(3,5) i(3) by simp
  moreover have "take ?k (drop ?s bs @ drop ?k buf) = drop ?s bs" by simp
  moreover have "\<not> 103 < ?k" using assms(3) by simp
  ultimately show ?thesis
    using r(2) r' assms(3,5) len last part_addr [OF i(1,2)] by (cases st') (simp add: read_part_def)
qed

lemma read_bit_file_on_chip:
  assumes "chip_ready env c0 b f m st" and "holds m BIT_FILE_ADDR bs" and "length bs \<le> 100"
  shows "\<exists>st'. read_bit_file env f True (int (length bs)) st = Some (bs, st')"
proof -
  let ?part = "read_part env f True (int (length bs))"
  obtain b1 st1 where p0: "?part 0 (replicate 103 0, [], st) = Some (b1, bs, st1)" "length b1 = 103"
    "chip_ready env c0 b f m st1"
    using read_part_on_chip [OF assms, of 0 "replicate 103 0" "[]"] by auto
  show ?thesis
  proof (cases "length bs = 100")
    case True
    obtain b2 st2 where p1: "?part 1 (b1, bs, st1) = Some (b2, bs, st2)"
      using read_part_on_chip [OF p0(3) assms(2,3) _ p0(2), of 1 bs] True by auto
    have "cdiv (int (length bs)) 100 = Some 1" using True by (simp add: cdiv_pos)
    with p0(1) p1 show ?thesis by (simp add: read_bit_file_def for_range_first)
  next
    case False
    then have "cdiv (int (length bs)) 100 = Some 0" using assms(3) by (simp add: cdiv_pos)
    with p0(1) show ?thesis by (simp add: read_bit_file_def for_range_first)
  qed
qed

lemma read_bit_file_overflow:
  assumes "chip_ready env c0 b f m st" and "100 < read_len"
  shows "read_bit_file env f out_ok read_len st = None"
proof -
  have "(BIT_FILE_ADDR + 104) mod 2 ^ 64 = BIT_FILE_ADDR + 104" by (simp add: BIT_FILE_ADDR_def)
  then have "\<not> out_of_bound f BIT_FILE_ADDR 104"
    using chip_ready_params(2) [OF assms(1)] by (simp add: out_of_bound_def BIT_FILE_ADDR_def)
  then have "sfud_read env f BIT_FILE_ADDR 104 (replicate 103 0) st = None"
    by (intro read_short_buffer [OF assms(1)]) simp_all
  then have "read_part env f out_ok read_len 0 (replicate 103 0, [], st) = None"
    using assms(2) part_addr [of 0] by (simp add: read_part_def)
  moreover have "0 < read_len div 100 + 1" "cdiv read_len 100 = Some (read_len div 100)"
    using assms(2) by (simp_all add: cdiv_pos)
  ultimately show ?thesis by (simp add: read_bit_file_def for_range_first)
qed

text \<open>
  C11: The copy through the flash. When the driver finds a chip that fits it, a file of at most 100
  bytes is written, read back and copied unchanged. A longer file is never copied: the first part is
  read with 104 bytes into an array of 103, whatever the size of the file and of the chip's free
  space, which is undefined.
\<close>

theorem flash_tool_copies:
  assumes "sfud_init env calloc_ok h = Some (r, f, st)"
    and "on_chip env c0 b st c" and "n_busy c = 0" and "fits f c"
    and "write_mode (chip f) AND SFUD_WM_PAGE_256B \<noteq> 0" and "bs \<noteq> []" and "length bs \<le> 2 ^ 30"
  shows "test_sfud_c env calloc_ok (Some (Some bs)) junk True h = (if length bs \<le> 100 then Some (0, bs) else None)"
proof -
  from write_bit_file_on_chip [OF chip_readyI [OF assms(2-5) refl] assms(6,7)] obtain st' m' where
    w: "write_bit_file env f (Some (Some bs)) junk st = Some (Inr (int (length bs), st'))"
      "chip_ready env c0 b f m' st'" "BIT_FILE_ADDR + length bs \<le> 2 ^ 24 \<longrightarrow> holds m' BIT_FILE_ADDR bs" by blast
  show ?thesis
  proof (cases "length bs \<le> 100")
    case True
    then have "holds m' BIT_FILE_ADDR bs" using w(3) by (simp add: BIT_FILE_ADDR_def)
    from read_bit_file_on_chip [OF w(2) this True] assms(1) w(1) True show ?thesis by (auto simp: test_sfud_c_def)
  next
    case False
    then have "read_bit_file env f True (int (length bs)) st' = None"
      by (intro read_bit_file_overflow [OF w(2)]) simp
    with assms(1) w(1) False show ?thesis by (simp add: test_sfud_c_def)
  qed
qed

lemma erase_everything:
  assumes "erased g addr n m m'" and "addr \<le> 2 ^ 24" and "2 ^ 25 \<le> n" and "x < 2 ^ 24"
  shows "m' x = 0xFF"
proof -
  have "x + 2 ^ 24 - addr < n" using assms(2-4) by simp
  moreover have "addr + (x + 2 ^ 24 - addr) = x + 2 ^ 24" using assms(2) by simp
  then have "(addr + (x + 2 ^ 24 - addr)) mod 2 ^ 24 = x" using assms(4) by simp
  ultimately show ?thesis using assms(1) unfolding erased_def by metis
qed

text \<open>
  C12: What goes wrong without a word. When the file can be opened but not read, the size is the
  largest of 64 bits, the bounds check wraps and accepts it, every byte of the whole chip is erased,
  and the write that follows runs past the buffer. When no transfer on the bus succeeds, so that the
  device is not found, the program never ends, unless the file cannot be opened.
\<close>

theorem flash_tool_failures:
  assumes "length junk \<le> 2 ^ 30"
  shows "(sfud_init env calloc_ok h = Some (r, f, st) \<and> on_chip env c0 b st c \<and> n_busy c = 0 \<and> fits f c
        \<and> write_mode (chip f) AND SFUD_WM_PAGE_256B \<noteq> 0 \<longrightarrow>
          (\<exists>st' c'. sfud_erase env f BIT_FILE_ADDR (nat (to_u64 (- 1))) st = Some (SFUD_SUCCESS, st')
             \<and> on_chip env c0 b st' c' \<and> (\<forall>x < 2 ^ 24. n_mem c' x = 0xFF))
          \<and> test_sfud_c env calloc_ok (Some None) junk out_ok h = None)
    \<and> (dead env \<longrightarrow> test_sfud_c env True bin junk out_ok h = (if bin = None then Some (- 1, []) else None))"
proof (intro conjI impI)
  assume a: "sfud_init env calloc_ok h = Some (r, f, st) \<and> on_chip env c0 b st c \<and> n_busy c = 0 \<and> fits f c
        \<and> write_mode (chip f) AND SFUD_WM_PAGE_256B \<noteq> 0"
  let ?n = "nat (to_u64 (- 1))"
  have n: "?n = 2 ^ 64 - 1" by (simp add: to_u64_def)
  have cap: "init_ok f" "capacity (chip f) = 2 ^ 24" using a by (simp_all add: fits_def)
  have "(BIT_FILE_ADDR + ?n) mod 2 ^ 64 = 0x3FFFFF" by (simp add: n BIT_FILE_ADDR_def)
  then have inb: "\<not> out_of_bound f BIT_FILE_ADDR ?n" using cap by (simp add: out_of_bound_def)
  have pos: "0 < ?n" and low: "BIT_FILE_ADDR < 2 ^ 32" by (simp_all add: n BIT_FILE_ADDR_def)
  have chip: "on_chip env c0 b st c" "n_busy c = 0" "fits f c" using a by simp_all
  obtain st' m' where e: "sfud_erase env f BIT_FILE_ADDR ?n st = Some (SFUD_SUCCESS, st')"
    "on_chip env c0 b st' (c\<lparr>n_mem := m', n_wel := False\<rparr>)" "erased (erase_unit f) BIT_FILE_ADDR ?n (n_mem c) m'"
    using erase_on_chip [OF chip pos low inb] by blast
  let ?c = "c\<lparr>n_mem := m', n_wel := False\<rparr>"
  have "\<forall>x < 2 ^ 24. n_mem ?c x = 0xFF"
    using erase_everything [OF e(3)] by (simp add: n BIT_FILE_ADDR_def)
  with e(1,2) show "\<exists>st' c'. sfud_erase env f BIT_FILE_ADDR ?n st = Some (SFUD_SUCCESS, st')
      \<and> on_chip env c0 b st' c' \<and> (\<forall>x < 2 ^ 24. n_mem c' x = 0xFF)" by blast
  have "n_busy ?c = 0" "fits f ?c" using a by (auto intro: fits_same)
  moreover have "length junk < ?n" using assms by (simp add: n)
  ultimately have "write_loop env f 256 BIT_FILE_ADDR ?n junk st' = None"
    by (intro write_loop_short [OF e(2)])
  then have "sfud_write env f BIT_FILE_ADDR ?n junk st' = None"
    using a cap inb by (simp add: sfud_write_def page256_or_1_byte_write_def)
  then have "sfud_erase_write env f BIT_FILE_ADDR ?n junk st = None" using e(1) by (simp add: sfud_erase_write_def)
  with a show "test_sfud_c env calloc_ok (Some None) junk out_ok h = None"
    by (simp add: test_sfud_c_def write_bit_file_def Let_def)
next
  assume "dead env"
  then obtain f' st' where "sfud_init env True h = Some (SFUD_ERR_NOT_FOUND, f', st')" "\<not> init_ok f'"
    using dead_init by blast
  then show "test_sfud_c env True bin junk out_ok h = (if bin = None then Some (- 1, []) else None)"
    by (auto simp: test_sfud_c_def write_bit_file_def sfud_erase_write_def sfud_erase_def Let_def split: option.split)
qed

section \<open>Witnesses\<close>

theorem flash_tool_copies_witness:
  "test_sfud_c demo_bus True (Some (Some [1, 2, 3])) [] True [] = Some (0, [1, 2, 3])"
proof -
  obtain st where st: "sfud_init demo_bus True [] = Some (SFUD_SUCCESS, w25q128, st)" "on_chip demo_bus demo_nor 4096 st demo_nor"
    using demo_init by blast
  have "n_busy demo_nor = 0" by (simp add: demo_nor_def)
  from flash_tool_copies [OF st this demo_fits w25q128_mode(1), of "[1, 2, 3]" "[]"] show ?thesis by simp
qed

theorem flash_tool_failures_witness:
  "test_sfud_c demo_bus True (Some None) [] True [] = None \<and> test_sfud_c dead_spi True (Some (Some [1])) [] True [] = None"
proof -
  obtain st where st: "sfud_init demo_bus True [] = Some (SFUD_SUCCESS, w25q128, st)" "on_chip demo_bus demo_nor 4096 st demo_nor"
    using demo_init by blast
  have "n_busy demo_nor = 0" by (simp add: demo_nor_def)
  with st flash_tool_failures [of "[]" demo_bus True "[]" SFUD_SUCCESS w25q128 st demo_nor 4096 demo_nor True]
    have "test_sfud_c demo_bus True (Some None) [] True [] = None"
    using demo_fits w25q128_mode(1) by auto
  moreover have "test_sfud_c dead_spi True (Some (Some [1])) [] True [] = None"
    using flash_tool_failures [of "[]" dead_spi] dead_spi_dead by simp
  ultimately show ?thesis by blast
qed

end
