(* ===== verification/JsonHex.thy ===== *)
theory JsonHex
  imports JsonSample CFormat
begin

text \<open>
  The members that \<^verbatim>\<open>3rdparty/cxz_json/include/sjb_struct_api.h\<close> keeps as hexadecimal text: 64-bit
  words, which JSON numbers cannot hold, and blocks of bytes. The conversions \<^verbatim>\<open>strtol\<close> and
  \<^verbatim>\<open>strtoull\<close> of the C library are modelled for base 16, on a C string: what follows a NUL is not
  looked at.

  Shown: both are read back as they were written, so they satisfy the contract \<open>codec\<close>; but where a
  plain \<^verbatim>\<open>char\<close> is signed, a byte from \<open>0x80\<close> up is printed with eight digits into a buffer of four
  characters.
\<close>

section \<open>Reading a hexadecimal number\<close>

definition hex_value :: "char \<Rightarrow> nat option" where
  "hex_value c = (let n = of_char c :: nat in
     if 48 \<le> n \<and> n \<le> 57 then Some (n - 48) else if 65 \<le> n \<and> n \<le> 70 then Some (n - 55)
     else if 97 \<le> n \<and> n \<le> 102 then Some (n - 87) else None)"

definition is_space :: "char \<Rightarrow> bool" where
  "is_space c = (let n = of_char c :: nat in n = 32 \<or> (9 \<le> n \<and> n \<le> 13))"

fun sign_of :: "string \<Rightarrow> bool \<times> string" where
  "sign_of (c # s) = (if c = CHR ''-'' then (True, s) else if c = CHR ''+'' then (False, s) else (False, c # s))"
| "sign_of [] = (False, [])"

text \<open>The prefix counts only in front of a digit.\<close>

fun without_0x :: "string \<Rightarrow> string" where
  "without_0x (a # b # c # s) =
     (if a = CHR ''0'' \<and> (b = CHR ''x'' \<or> b = CHR ''X'') \<and> hex_value c \<noteq> None then c # s else a # b # c # s)"
| "without_0x s = s"

definition hex_number :: "string \<Rightarrow> nat" where
  "hex_number s = foldl (\<lambda>n c. n * 16 + the (hex_value c)) 0 s"

definition strto16 :: "string \<Rightarrow> bool \<times> nat" where
  "strto16 s =
     (let (neg, s) = sign_of (dropWhile is_space s)
      in (neg, hex_number (takeWhile (\<lambda>c. hex_value c \<noteq> None) (without_0x s))))"

definition strtoull :: "string \<Rightarrow> u64" where
  "strtoull s = (let (neg, n) = strto16 s
     in if n \<ge> 2 ^ 64 then - 1 else if neg then - word_of_nat n else word_of_nat n)"

definition strtol :: "string \<Rightarrow> int" where
  "strtol s = (let (neg, n) = strto16 s
     in if neg then max (- (2 ^ 63)) (- int n) else min (2 ^ 63 - 1) (int n))"

section \<open>The bind functions\<close>

definition sjb_bind_uint64 :: "u64 bind" where
  "sjb_bind_uint64 m json str =
     (if m \<noteq> 0 then (case json of Some (JString s) \<Rightarrow> Some (json, strtoull s) | _ \<Rightarrow> Some (json, str))
      else map_option (\<lambda>_. (Some (JString (hex 1 (unat str))), str)) json)"

definition upper :: "char \<Rightarrow> char" where
  "upper c = (let n = of_char c :: nat in if 97 \<le> n \<and> n \<le> 122 then char_of (n - 32) else c)"

text \<open>One byte, printed as an \<^verbatim>\<open>unsigned int\<close> into \<^verbatim>\<open>char t[4]\<close>.\<close>

definition hex_byte :: "bool \<Rightarrow> u8 \<Rightarrow> string option" where
  "hex_byte char_signed c =
     (let t = map upper (hex 2 (nat (char_value char_signed c mod 2 ^ 32))) in if length t < 4 then Some t else None)"

text \<open>
  A text that is too short is read beyond its terminator, the character behind \<open>s\<close>.
\<close>

definition sjb_bind_binary :: "bool \<Rightarrow> nat \<Rightarrow> u8 list bind" where
  "sjb_bind_binary char_signed sz m json str =
     (if m \<noteq> 0 then
        (case json of
           Some (JString s) \<Rightarrow> map_option (Pair json)
             (foldM (\<lambda>j str. do { t0 \<leftarrow> rd (s @ [NUL]) (int (2 * j)); t1 \<leftarrow> rd (s @ [NUL]) (int (2 * j + 1));
                                  wr str (int j) (word_of_int (strtol [t0, t1])) }) [0..<sz] str)
         | _ \<Rightarrow> Some (json, str))
      else
        (case json of
           None \<Rightarrow> None
         | Some _ \<Rightarrow> map_option (\<lambda>e. (Some (JString e), str))
             (foldM (\<lambda>j e. do { c \<leftarrow> rd str (int j); t \<leftarrow> hex_byte char_signed c; Some (e @ t) }) [0..<sz] [])))"

text \<open>
  The macro \<^verbatim>\<open>BINARY\<close>: the text decides how many bytes are read. A member of another type has no
  text, and its null pointer is used.
\<close>

definition BINARY :: "cjson_lib \<Rightarrow> bool \<Rightarrow> string \<Rightarrow> nat \<Rightarrow> u8 list bind" where
  "BINARY lib char_signed holder sz m json str =
     (if m \<noteq> 0 then
        (case json of
           None \<Rightarrow> Some (json, str)
         | Some j \<Rightarrow>
             (case cJSON_GetObjectItem lib j holder of
                None \<Rightarrow> Some (json, str)
              | Some (JString s) \<Rightarrow>
                  (let n = min (length (takeWhile (\<lambda>c. c \<noteq> NUL) s) div 2) sz
                   in map_option (\<lambda>(_, v). (json, v)) (sjb_bind_binary char_signed n m (Some (JString s)) str))
              | Some _ \<Rightarrow> None))
      else
        (case (sjb_bind_binary char_signed sz m (Some (JObject [])) str, json) of
           (Some (Some jani, v), Some j) \<Rightarrow> Some (Some (cJSON_AddItemToObject lib j holder jani), v)
         | _ \<Rightarrow> None))"

section \<open>What is written is read back\<close>

lemma hex_value_class:
  assumes "hex_value c \<noteq> None"
  shows "\<not> is_space c" and "c \<notin> {CHR ''-'', CHR ''+'', CHR ''x'', CHR ''X'', NUL}"
proof -
  have "hex_value (CHR ''-'') = None" "hex_value (CHR ''+'') = None" "hex_value (CHR ''x'') = None"
    "hex_value (CHR ''X'') = None" "hex_value NUL = None"
    by code_simp (code_simp, code_simp, code_simp, code_simp)
  with assms show "c \<notin> {CHR ''-'', CHR ''+'', CHR ''x'', CHR ''X'', NUL}" by auto
  show "\<not> is_space c"
    using assms by (simp add: hex_value_def is_space_def Let_def split: if_splits)
qed

lemma strto16_digits:
  assumes "\<forall>c \<in> set s. hex_value c \<noteq> None"
  shows "strto16 s = (False, hex_number s)"
proof -
  have plain: "\<not> is_space c \<and> c \<notin> {CHR ''-'', CHR ''+'', CHR ''x'', CHR ''X'', NUL}" if "c \<in> set s" for c
    using assms that hex_value_class [of c] by blast
  have "dropWhile is_space s = s" using plain by (cases s) simp_all
  moreover have "sign_of s = (False, s)" using plain by (cases s) simp_all
  moreover have "without_0x s = s" using plain by (cases s rule: without_0x.cases) simp_all
  moreover have "takeWhile (\<lambda>c. hex_value c \<noteq> None) s = s"
    using assms by (simp add: takeWhile_eq_all_conv)
  ultimately show ?thesis by (simp only: strto16_def split_conv Let_def)
qed

lemma hex_value_digit:
  assumes "d < 16"
  shows "hex_value (digit d) = Some d" "hex_value (upper (digit d)) = Some d"
proof -
  have "\<forall>d \<in> set [0..<16]. hex_value (digit d) = Some d \<and> hex_value (upper (digit d)) = Some d"
    by code_simp
  with assms show "hex_value (digit d) = Some d" "hex_value (upper (digit d)) = Some d" by simp_all
qed

text \<open>The digits of a number in either case: they are digits, and their value is the number.\<close>

lemma hex_number_digits:
  assumes "\<And>d. d < 16 \<Longrightarrow> hex_value (f (digit d)) = Some d"
  shows "(\<forall>c \<in> set (map f (hex w n)). hex_value c \<noteq> None) \<and> hex_number (map f (hex w n)) = n"
proof -
  have digits: "(\<forall>c \<in> set (map f (digits 16 n)). hex_value c \<noteq> None) \<and> hex_number (map f (digits 16 n)) = n"
  proof (induction n rule: less_induct)
    case (less n)
    show ?case
    proof (cases "n < 16")
      case True
      then show ?thesis using assms by (simp add: digits.simps hex_number_def)
    next
      case False
      then have "hex_number (map f (digits 16 (n div 16))) = n div 16"
        "\<forall>c \<in> set (map f (digits 16 (n div 16))). hex_value c \<noteq> None" using less.IH [of "n div 16"] by auto
      then show ?thesis
        using False assms [of "n mod 16"]
        by (subst (1 2) digits.simps) (auto simp: hex_number_def)
    qed
  qed
  have zero: "hex_value (f (CHR ''0'')) = Some 0" using assms [of 0] by (simp add: digit_def)
  have "hex_number (map f (replicate k (CHR ''0'') @ s)) = hex_number (map f s)" for k s
  proof -
    have "foldl (\<lambda>n c. n * 16 + the (hex_value c)) 0 (replicate k (f (CHR ''0''))) = 0"
      using zero by (induction k) simp_all
    then show ?thesis by (simp add: hex_number_def)
  qed
  with digits zero show ?thesis by (auto simp: hex_def Let_def)
qed

lemma strtoull_hex: "strtoull (hex w (unat (x :: u64))) = x"
  using hex_number_digits [of id w "unat x"] hex_value_digit(1) strto16_digits [of "hex w (unat x)"]
    unsigned_less [of x, where ?'a = nat]
  by (simp add: strtoull_def)

lemma hex_text:
  assumes "\<And>d. d < 16 \<Longrightarrow> hex_value (f (digit d)) = Some d"
  shows "NUL \<notin> set (map f (hex w n))"
  using hex_number_digits [of f w n] assms hex_value_class(2) by blast

interpretation uint64_codec: codec "\<lambda>_. sjb_bind_uint64" "\<lambda>_. True"
proof
  fix lib and s :: u64
  have "printable (JString (hex 1 (unat s)))"
    using hex_text [of id 1 "unat s"] hex_value_digit(1) by simp
  then show "\<exists>j. sjb_bind_uint64 0 (Some (JObject [])) s = Some (Some j, s) \<and> printable j
      \<and> (\<forall>t. True \<longrightarrow> sjb_bind_uint64 1 (Some j) t = Some (Some j, s))"
    by (auto simp: sjb_bind_uint64_def strtoull_hex)
qed (simp add: sjb_bind_uint64_def)

section \<open>Blocks of bytes\<close>

definition byte_text :: "u8 \<Rightarrow> string" where
  "byte_text c = map upper (hex 2 (unat c))"

lemma digits_longer: "16 ^ k \<le> n \<Longrightarrow> k < length (digits 16 n)"
proof (induction k arbitrary: n)
  case (Suc k)
  have "(1 :: nat) \<le> 16 ^ k" by simp
  with Suc.prems have "\<not> n < 16" unfolding power_Suc by linarith
  moreover have "16 ^ k \<le> n div 16"
    using Suc.prems by (simp add: less_eq_div_iff_mult_less_eq mult.commute)
  ultimately show ?case using Suc.IH [of "n div 16"] by (subst digits.simps) simp
qed simp

lemma u8_bounds: "uint c = int (unat c)" "unat (c :: u8) < 256" "uint c < 256"
  using unsigned_less [of c, where ?'a = nat] unsigned_less [of c, where ?'a = int] by simp_all

lemma char_value_eq:
  "char_value char_signed c = (if char_signed \<and> 128 \<le> unat c then int (unat c) - 256 else int (unat c))"
proof -
  have shift: "(k + 128) mod 256 - 128 = (if 128 \<le> k then k - 256 else k)" if "0 \<le> k" "k < 256" for k :: int
    using that int_mod_pos_eq [of "k + 128" 256 1 "k - 128"] mod_pos_pos_trivial [of "k + 128" 256] by auto
  have "sint c = (int (unat c) + 128) mod 256 - 128"
    by (simp add: sint_uint signed_take_bit_eq_take_bit_shift take_bit_eq_mod)
  then have "sint c = (if 128 \<le> int (unat c) then int (unat c) - 256 else int (unat c))"
    using shift [of "int (unat c)"] u8_bounds(2) [of c] by linarith
  moreover have "128 \<le> int (unat c) \<longleftrightarrow> 128 \<le> unat c" by linarith
  ultimately show ?thesis unfolding char_value_def u8_bounds(1) by argo
qed

lemma hex_byte_eq: "hex_byte char_signed c = (if char_signed \<and> 128 \<le> unat c then None else Some (byte_text c))"
proof (cases "char_signed \<and> 128 \<le> unat c")
  case True
  have "(int (unat c) - 256) mod 2 ^ 32 = int (unat c) + 4294967040"
    using u8_bounds(3) [of c] by (intro int_mod_pos_eq [of _ _ "- 1"]) simp_all
  then have "nat (char_value char_signed c mod 2 ^ 32) = unat c + 4294967040"
    using True unfolding char_value_eq by (simp only: simp_thms if_True)
  moreover have "3 < length (hex 2 (unat c + 4294967040))"
    using digits_longer [of 4 "unat c + 4294967040"] by (simp add: hex_def Let_def)
  ultimately show ?thesis using True by (simp add: hex_byte_def)
next
  case False
  have "int (unat c) mod 2 ^ 32 = int (unat c)"
    using u8_bounds(3) [of c] by (intro mod_pos_pos_trivial) simp_all
  then have "nat (char_value char_signed c mod 2 ^ 32) = unat c"
    using False unfolding char_value_eq by (simp only: if_False nat_int)
  with False show ?thesis
    using hex_length [of "unat c" 2] u8_bounds(2) [of c] by (auto simp: hex_byte_def byte_text_def)
qed

lemma byte_text:
  "length (byte_text c) = 2" "NUL \<notin> set (byte_text c)" "word_of_int (strtol (byte_text c)) = c"
proof -
  have len: "length (byte_text c) = 2"
    using hex_length [of "unat c" 2] u8_bounds(2) [of c] by (simp add: byte_text_def)
  have digits: "\<forall>d \<in> set (byte_text c). hex_value d \<noteq> None" "hex_number (byte_text c) = unat c"
    using hex_number_digits [of upper 2 "unat c"] hex_value_digit(2) unfolding byte_text_def by blast+
  have "int (unat c) \<le> 2 ^ 63 - 1" using u8_bounds(3) [of c] by simp
  then have "strtol (byte_text c) = int (unat c)"
    unfolding strtol_def strto16_digits [OF digits(1)] digits(2) by simp
  then show "word_of_int (strtol (byte_text c)) = c" by simp
  show "length (byte_text c) = 2" by (rule len)
  show "NUL \<notin> set (byte_text c)"
    using hex_text [of upper 2 "unat c"] hex_value_digit(2) unfolding byte_text_def by blast
qed

definition block_text :: "u8 list \<Rightarrow> string" where
  "block_text xs = concat (map byte_text xs)"

lemma block_text_props: "length (block_text xs) = 2 * length xs" "NUL \<notin> set (block_text xs)"
  by (induction xs) (auto simp: block_text_def byte_text)

lemma block_text_nth:
  "j < length xs \<Longrightarrow> [(block_text xs @ r) ! (2 * j), (block_text xs @ r) ! Suc (2 * j)] = byte_text (xs ! j)"
proof (induction xs arbitrary: j)
  case (Cons x xs)
  obtain a b where ab: "byte_text x = [a, b]"
    using byte_text(1) [of x] by (auto simp: numeral_2_eq_2 length_Suc_conv)
  show ?case
  proof (cases j)
    case 0
    with ab show ?thesis by (simp add: block_text_def)
  next
    case (Suc i)
    with Cons ab show ?thesis by (simp add: block_text_def)
  qed
qed simp

text \<open>Writing a block, and reading one back over what was there.\<close>

lemma binary_write:
  assumes "n \<le> length xs"
  shows "sjb_bind_binary char_signed n 0 (Some j) xs =
    (if char_signed \<and> (\<exists>x \<in> set (take n xs). 128 \<le> unat x) then None else Some (Some (JString (block_text (take n xs))), xs))"
proof -
  have "foldM (\<lambda>j e. do { c \<leftarrow> rd xs (int j); t \<leftarrow> hex_byte char_signed c; Some (e @ t) }) [0..<k] [] =
      (if char_signed \<and> (\<exists>x \<in> set (take k xs). 128 \<le> unat x) then None else Some (block_text (take k xs)))"
    if "k \<le> length xs" for k
    using that
  proof (induction k)
    case (Suc k)
    then show ?case
      by (auto simp: foldM_append rd_in hex_byte_eq take_Suc_conv_app_nth block_text_def)
  qed (simp add: block_text_def)
  from this [OF assms] show ?thesis by (simp add: sjb_bind_binary_def)
qed

lemma binary_read:
  assumes "n = length xs" and "n \<le> length ys"
  shows "sjb_bind_binary char_signed n 1 (Some (JString (block_text xs))) ys
    = Some (Some (JString (block_text xs)), xs @ drop n ys)"
proof -
  let ?s = "block_text xs @ [NUL]"
  have len: "length ?s = Suc (2 * length xs)" by (simp add: block_text_props)
  have "foldM (\<lambda>j str. do { t0 \<leftarrow> rd ?s (int (2 * j)); t1 \<leftarrow> rd ?s (int (2 * j + 1));
        wr str (int j) (word_of_int (strtol [t0, t1])) }) [0..<k] ys = Some (take k xs @ drop k ys)"
    if "k \<le> n" for k
    using that
  proof (induction k)
    case (Suc k)
    then have k: "k < length xs" "k < length ys" using assms by auto
    have "(take k xs @ drop k ys)[k := xs ! k] = take (Suc k) xs @ drop (Suc k) ys"
      using k by (simp add: list_update_append take_Suc_conv_app_nth Cons_nth_drop_Suc [symmetric])
    moreover have "wr (take k xs @ drop k ys) (int k) (xs ! k) = Some ((take k xs @ drop k ys)[k := xs ! k])"
      using k by (simp add: wr_in)
    moreover have "rd ?s (int (2 * k)) = Some (?s ! (2 * k))" "rd ?s (int (2 * k + 1)) = Some (?s ! Suc (2 * k))"
      using k(1) len by (simp_all add: rd_in nat_add_distrib nat_mult_distrib)
    ultimately show ?case
      using Suc block_text_nth [OF k(1), of "[NUL]"] byte_text(3) [of "xs ! k"] by (simp add: foldM_append)
  qed simp
  from this [of n] assms show ?thesis by (simp add: sjb_bind_binary_def)
qed

interpretation binary_codec:
  codec "\<lambda>_. sjb_bind_binary char_signed n" "\<lambda>xs. length xs = n \<and> (char_signed \<longrightarrow> (\<forall>x \<in> set xs. unat x < 128))"
  for char_signed n
proof
  fix lib and xs :: "u8 list"
  assume xs: "length xs = n \<and> (char_signed \<longrightarrow> (\<forall>x \<in> set xs. unat x < 128))"
  then have "sjb_bind_binary char_signed n 0 (Some (JObject [])) xs = Some (Some (JString (block_text xs)), xs)"
    using binary_write [of n xs char_signed "JObject []"] by auto
  with xs show "\<exists>j. sjb_bind_binary char_signed n 0 (Some (JObject [])) xs = Some (Some j, xs) \<and> printable j
      \<and> (\<forall>t. length t = n \<and> (char_signed \<longrightarrow> (\<forall>x \<in> set t. unat x < 128)) \<longrightarrow> sjb_bind_binary char_signed n 1 (Some j) t = Some (Some j, xs))"
    by (intro exI [of _ "JString (block_text xs)"]) (simp add: block_text_props binary_read)
qed (simp add: sjb_bind_binary_def)

text \<open>
  C40: A block of bytes in a parameter file. Writing a \<^verbatim>\<open>BINARY\<close> member is defined for every block where
  a plain \<^verbatim>\<open>char\<close> is unsigned; where it is signed, exactly the blocks with a byte of \<open>0x80\<close> or more
  overflow a buffer. A block that was written is read back byte by byte into any array that is long
  enough, and what the array holds behind it stays.
\<close>

theorem binary_round_trip:
  assumes "cjson_tree lib" and "is_object j" and "cJSON_GetObjectItem lib j holder = None" and "length xs = n"
  shows "case BINARY lib char_signed holder n 0 (Some j) xs of
      None \<Rightarrow> char_signed \<and> (\<exists>x \<in> set xs. 128 \<le> unat x)
    | Some (j', xs') \<Rightarrow> xs' = xs \<and> \<not> (char_signed \<and> (\<exists>x \<in> set xs. 128 \<le> unat x))
        \<and> (\<forall>ys. n \<le> length ys \<longrightarrow> BINARY lib char_signed holder n 1 j' ys = Some (j', xs @ drop n ys))"
proof (cases "char_signed \<and> (\<exists>x \<in> set xs. 128 \<le> unat x)")
  case True
  with assms(4) binary_write [of n xs char_signed "JObject []"] show ?thesis by (auto simp: BINARY_def)
next
  case False
  let ?j = "cJSON_AddItemToObject lib j holder (JString (block_text xs))"
  have w: "BINARY lib char_signed holder n 0 (Some j) xs = Some (Some ?j, xs)"
    using False assms(4) binary_write [of n xs char_signed "JObject []"] by (auto simp: BINARY_def)
  have get: "cJSON_GetObjectItem lib ?j holder = Some (JString (block_text xs))"
    using get_add [OF assms(1,2)] assms(3) by (simp add: same_name_def)
  have n: "min (length (takeWhile (\<lambda>c. c \<noteq> NUL) (block_text xs)) div 2) n = n"
    using assms(4) by (simp add: takeWhile_text block_text_props)
  have "BINARY lib char_signed holder n 1 (Some ?j) ys = Some (Some ?j, xs @ drop n ys)" if "n \<le> length ys" for ys
    using binary_read [of n xs ys char_signed] that assms(4) by (simp add: BINARY_def get n Let_def)
  with w False show ?thesis by simp
qed

theorem binary_round_trip_witness:
  "BINARY sample_lib True ''key'' 3 0 (Some (JObject [])) [0x0A, 0x7F, 0x80] = None
   \<and> (\<exists>j. BINARY sample_lib False ''key'' 3 0 (Some (JObject [])) [0x0A, 0x7F, 0x80] = Some (j, [0x0A, 0x7F, 0x80])
        \<and> BINARY sample_lib False ''key'' 3 1 j [1, 2, 3, 4] = Some (j, [0x0A, 0x7F, 0x80, 4]))"
proof -
  let ?xs = "[0x0A, 0x7F, 0x80] :: u8 list"
  have "cJSON_GetObjectItem sample_lib (JObject []) ''key'' = None" "is_object (JObject [])"
    by (simp_all add: get_empty [OF sample_tree])
  note trip = binary_round_trip [OF sample_tree this(2,1), of ?xs 3]
  from trip [of True] have "BINARY sample_lib True ''key'' 3 0 (Some (JObject [])) ?xs = None"
    by (simp split: option.splits)
  moreover from trip [of False] obtain j where "BINARY sample_lib False ''key'' 3 0 (Some (JObject [])) ?xs = Some (j, ?xs)"
    "BINARY sample_lib False ''key'' 3 1 j [1, 2, 3, 4] = Some (j, ?xs @ drop 3 [1, 2, 3, 4])"
    by (auto split: option.splits)
  ultimately show ?thesis by simp
qed

end
