(* ===== verification/JsonNested.thy ===== *)
theory JsonNested
  imports JsonHex
begin

text \<open>
  Arrays of any number of dimensions, and tagged unions: the rest of
  \<^verbatim>\<open>3rdparty/cxz_json/include/sjb_struct_api.h\<close>. The array is the flat block it is in C, and
  \<^verbatim>\<open>sjb_bind_array\<close> calls itself for each sub-array, at the offset that \<^verbatim>\<open>ARR_SKIP\<close> computes from the
  dimensions below. \<open>JsonBind\<close> has the one-dimensional case that the program uses. For an array of
  texts the last dimension is the length of a text, which the callback deals with: an element is a text.

  Shown: with one dimension this is the function of \<open>JsonBind\<close>; and an array of any dimensions, of
  elements that satisfy the contract \<open>codec\<close>, is read back as it was written, wherever it is in its
  block, and nothing beside it changes.
\<close>

section \<open>The bind function\<close>

text \<open>
  \<open>bind_levels cb m ds node off block\<close> binds the array with the dimensions \<open>ds\<close> at \<open>off\<close>; without
  dimensions it is an element, which the callback binds.
\<close>

definition ARR_SKIP :: "nat list \<Rightarrow> nat" where
  "ARR_SKIP ds = fold (*) ds 1"

fun bind_levels :: "cjson_lib \<Rightarrow> 'a bind \<Rightarrow> int \<Rightarrow> nat list \<Rightarrow> json option \<Rightarrow> nat \<Rightarrow> 'a list \<Rightarrow> (json option \<times> 'a list) option" where
  "bind_levels lib cb m [] json off str =
     do { x \<leftarrow> rd str (int off); (json', x') \<leftarrow> cb m json x; str' \<leftarrow> wr str (int off) x'; Some (json', str') }"
| "bind_levels lib cb m (n # ds) json off str =
     (if m \<noteq> 0 then
        (case json of
           Some (JArray js) \<Rightarrow> map_option (Pair json)
             (foldM (\<lambda>j str. map_option snd (bind_levels lib cb m ds (cJSON_GetArrayItem lib (JArray js) j) (off + j * ARR_SKIP ds) str))
                [0..<n] str)
         | _ \<Rightarrow> Some (json, str))
      else
        (case json of
           None \<Rightarrow> None
         | Some a \<Rightarrow> map_option (\<lambda>a'. (Some a', str))
             (foldM (\<lambda>j a. do { (jani, _) \<leftarrow> bind_levels lib cb m ds (Some (if ds = [] then JObject [] else JArray []))
                                              (off + j * ARR_SKIP ds) str;
                                map_option (cJSON_AddItemToArray lib a) jani }) [0..<n] a)))"

text \<open>
  The macros \<^verbatim>\<open>ARRAY\<close>, \<^verbatim>\<open>ARRAY2\<close> and \<^verbatim>\<open>ARRAY3\<close>: at most as many sub-arrays are read as the node has.
\<close>

definition ARRAYS :: "cjson_lib \<Rightarrow> 'a bind \<Rightarrow> string \<Rightarrow> nat \<Rightarrow> nat list \<Rightarrow> 'a list bind" where
  "ARRAYS lib cb holder sz ds m json str =
     (if m \<noteq> 0 then
        (case json of
           None \<Rightarrow> Some (json, str)
         | Some j \<Rightarrow>
             (case cJSON_GetObjectItem lib j holder of
                None \<Rightarrow> Some (json, str)
              | Some jani \<Rightarrow> map_option (\<lambda>(_, v). (json, v))
                  (bind_levels lib cb m (min (cJSON_GetArraySize lib jani) sz # ds) (Some jani) 0 str)))
      else
        (case (bind_levels lib cb m (sz # ds) (Some (JArray [])) 0 str, json) of
           (Some (Some jani, v), Some j) \<Rightarrow> Some (Some (cJSON_AddItemToObject lib j holder jani), v)
         | _ \<Rightarrow> None))"

text \<open>
  \<^verbatim>\<open>UNION_B\<close>, \<^verbatim>\<open>UNION_C\<close>, \<^verbatim>\<open>UNION_S\<close> and \<^verbatim>\<open>UNION_E\<close>: the selector, a member that is bound before, chooses
  the field or text that is bound; without a case for it, or for \<open>- 1\<close>, nothing is.
\<close>

definition UNION :: "(int \<times> 'a bind) list \<Rightarrow> int \<Rightarrow> 'a bind" where
  "UNION cases sel m json str =
     (if sel \<noteq> - 1 then (case map_of cases sel of Some cb \<Rightarrow> cb m json str | None \<Rightarrow> Some (json, str))
      else Some (json, str))"

section \<open>Writing beside other data\<close>

definition splice :: "nat \<Rightarrow> 'a list \<Rightarrow> 'a list \<Rightarrow> 'a list" where
  "splice off seg str = take off str @ seg @ drop (off + length seg) str"

lemma splice_length [simp]: "off + length seg \<le> length str \<Longrightarrow> length (splice off seg str) = length str"
  by (simp add: splice_def)

lemma splice_set: "set (splice off seg str) \<subseteq> set seg \<union> set str"
  by (auto simp: splice_def dest: in_set_takeD in_set_dropD)

lemma splice_Nil [simp]: "splice off [] str = str"
  by (simp add: splice_def)

lemma splice_append:
  "off + length xs + length ys \<le> length str \<Longrightarrow> splice (off + length xs) ys (splice off xs str) = splice off (xs @ ys) str"
  by (cases xs) (auto simp: splice_def min_def add.commute add.left_commute)

lemma splice_one: "off < length str \<Longrightarrow> str[off := x] = splice off [x] str"
  by (simp add: splice_def upd_conv_take_nth_drop)

lemma ARR_SKIP_simps [simp]: "ARR_SKIP [] = 1" "ARR_SKIP (n # ds) = n * ARR_SKIP ds"
proof -
  have "fold (*) ds (k * n) = fold (*) ds k * n" for k n :: nat
    by (induction ds arbitrary: k) (simp_all flip: mult.assoc)
  from this [of 1 n] show "ARR_SKIP (n # ds) = n * ARR_SKIP ds" by (simp add: ARR_SKIP_def mult.commute)
qed (simp add: ARR_SKIP_def)

text \<open>One dimension is the array of the program's structures.\<close>

lemma one_level: "bind_levels lib cb m [n] json 0 str = sjb_bind_array lib cb n m json str"
proof -
  have item: "bind_levels lib cb k [] jani j xs = do { x \<leftarrow> rd xs (int j); (jani', x') \<leftarrow> cb k jani x; xs' \<leftarrow> wr xs (int j) x'; Some (jani', xs') }"
    for k jani j xs by simp
  have "(\<lambda>j a. do { (jani, _) \<leftarrow> bind_levels lib cb m [] (Some (JObject [])) j str; map_option (cJSON_AddItemToArray lib a) jani })
      = (\<lambda>j a. do { x \<leftarrow> rd str (int j); (jani, _) \<leftarrow> cb m (Some (JObject [])) x; map_option (cJSON_AddItemToArray lib a) jani })"
    unfolding item by (intro ext) (auto simp: rd_def wr_def split: bind_splits)
  moreover have "(\<lambda>j str. map_option snd (bind_levels lib cb m [] (cJSON_GetArrayItem lib a j) j str))
      = (\<lambda>j xs. do { x \<leftarrow> rd xs (int j); (_, x') \<leftarrow> cb m (cJSON_GetArrayItem lib a j) x; wr xs (int j) x' })" for a
    unfolding item by (intro ext) (auto simp: rd_def wr_def split: bind_splits)
  ultimately show ?thesis
    by (cases "m = 0") (auto simp del: bind_levels.simps(1) simp: sjb_bind_array_def split: option.splits json.splits)
qed

section \<open>What is written is read back\<close>

abbreviation segment :: "nat \<Rightarrow> nat \<Rightarrow> 'a list \<Rightarrow> 'a list" where
  "segment off n str \<equiv> take n (drop off str)"

lemma segment_add: "segment off (m + n) str = segment off m str @ segment (off + m) n str"
  by (simp add: take_add drop_drop add.commute)

definition new_node :: "nat list \<Rightarrow> json" where
  "new_node ds = (if ds = [] then JObject [] else JArray [])"

context codec
begin

definition reads_block :: "cjson_lib \<Rightarrow> nat list \<Rightarrow> json \<Rightarrow> 'a list \<Rightarrow> bool" where
  "reads_block lib ds j seg \<longleftrightarrow> (\<forall>off str. (\<forall>x \<in> set str. ok x) \<longrightarrow> off + ARR_SKIP ds \<le> length str \<longrightarrow>
     bind_levels lib (bnd lib) 1 ds (Some j) off str = Some (Some j, splice off seg str))"

text \<open>The items of an array, given that one item of it is read back.\<close>

lemma items_write:
  assumes laws: "cjson_tree lib"
    and item: "\<And>j. j < n \<Longrightarrow> \<exists>t. bind_levels lib (bnd lib) 0 ds (Some (new_node ds)) (off + j * ARR_SKIP ds) str = Some (Some t, str)
        \<and> printable t \<and> reads_block lib ds t (segment (off + j * ARR_SKIP ds) (ARR_SKIP ds) str)"
    and "k \<le> n"
  shows "\<exists>a. foldM (\<lambda>j a. do { (jani, _) \<leftarrow> bind_levels lib (bnd lib) 0 ds (Some (new_node ds)) (off + j * ARR_SKIP ds) str;
                              map_option (cJSON_AddItemToArray lib a) jani }) [0..<k] (JArray []) = Some a
    \<and> is_array a \<and> printable a \<and> cJSON_GetArraySize lib a = k
    \<and> (\<forall>i < k. \<exists>t. cJSON_GetArrayItem lib a i = Some t
         \<and> reads_block lib ds t (segment (off + i * ARR_SKIP ds) (ARR_SKIP ds) str))"
  using assms(3)
proof (induction k)
  case 0
  then show ?case by (simp add: size_empty [OF laws])
next
  case (Suc k)
  then obtain a where a: "foldM (\<lambda>j a. do { (jani, _) \<leftarrow> bind_levels lib (bnd lib) 0 ds (Some (new_node ds)) (off + j * ARR_SKIP ds) str;
      map_option (cJSON_AddItemToArray lib a) jani }) [0..<k] (JArray []) = Some a"
    "is_array a" "printable a" "cJSON_GetArraySize lib a = k"
    "\<forall>i < k. \<exists>t. cJSON_GetArrayItem lib a i = Some t
       \<and> reads_block lib ds t (segment (off + i * ARR_SKIP ds) (ARR_SKIP ds) str)" by auto
  from item [of k] Suc.prems obtain t where
    t: "bind_levels lib (bnd lib) 0 ds (Some (new_node ds)) (off + k * ARR_SKIP ds) str = Some (Some t, str)"
      "printable t" "reads_block lib ds t (segment (off + k * ARR_SKIP ds) (ARR_SKIP ds) str)" by auto
  note add = array_add [OF laws a(2), of t]
  show ?case
    by (rule exI [of _ "cJSON_AddItemToArray lib a t"]) (use a t add in \<open>auto simp: foldM_append less_Suc_eq\<close>)
qed

lemma items_read:
  assumes "\<forall>x \<in> set str. ok x" and "\<forall>x \<in> set src. ok x"
    and "off + n * ARR_SKIP ds \<le> length str" and "at + n * ARR_SKIP ds \<le> length src"
    and items: "\<forall>i < n. \<exists>t. cJSON_GetArrayItem lib a i = Some t
        \<and> reads_block lib ds t (segment (at + i * ARR_SKIP ds) (ARR_SKIP ds) src)"
    and "k \<le> n"
  shows "foldM (\<lambda>j str. map_option snd (bind_levels lib (bnd lib) 1 ds (cJSON_GetArrayItem lib a j) (off + j * ARR_SKIP ds) str)) [0..<k] str
    = Some (splice off (segment at (k * ARR_SKIP ds) src) str)"
  using assms(6)
proof (induction k)
  case (Suc k)
  let ?q = "ARR_SKIP ds"
  let ?old = "segment at (k * ?q) src" and ?new = "segment (at + k * ?q) ?q src"
  let ?str = "splice off ?old str"
  have fit: "Suc k * ?q \<le> n * ?q" using Suc.prems by (rule mult_le_mono1)
  have len: "length ?old = k * ?q" "length ?new = ?q" using fit assms(4) by auto
  from items Suc.prems obtain t where t: "cJSON_GetArrayItem lib a k = Some t" "reads_block lib ds t ?new"
    using Suc_le_lessD by blast
  have "length ?str = length str" using fit assms(3) len(1) by (intro splice_length) simp
  moreover have "\<forall>x \<in> set ?str. ok x"
    using assms(1,2) splice_set [of off ?old str] by (auto dest!: in_set_takeD in_set_dropD)
  ultimately have "bind_levels lib (bnd lib) 1 ds (Some t) (off + k * ?q) ?str = Some (Some t, splice (off + k * ?q) ?new ?str)"
    using t(2) fit assms(3) unfolding reads_block_def by simp
  moreover have "splice (off + k * ?q) ?new ?str = splice off (?old @ ?new) str"
    using splice_append [of off ?old ?new str] fit assms(3) unfolding len by simp
  moreover have "?old @ ?new = segment at (Suc k * ?q) src"
    by (simp only: mult_Suc add.commute [of ?q "k * ?q"] segment_add)
  ultimately show ?case using Suc t(1) by (simp add: foldM_append)
qed simp

lemma levels_round_trip:
  assumes laws: "cjson_tree lib" and "\<forall>x \<in> set str. ok x" and "off + ARR_SKIP ds \<le> length str"
  shows "\<exists>j. bind_levels lib (bnd lib) 0 ds (Some (new_node ds)) off str = Some (Some j, str)
    \<and> printable j \<and> reads_block lib ds j (segment off (ARR_SKIP ds) str)
    \<and> (\<forall>n ds'. ds = n # ds' \<longrightarrow> cJSON_GetArraySize lib j = n)"
  using assms(3)
proof (induction ds arbitrary: off)
  case Nil
  then have off: "off < length str" by simp
  with assms(2) obtain j where j: "bnd lib 0 (Some (JObject [])) (str ! off) = Some (Some j, str ! off)" "printable j"
    "\<forall>t. ok t \<longrightarrow> bnd lib 1 (Some j) t = Some (Some j, str ! off)"
    using write_read [OF laws, of "str ! off"] by auto
  have one: "segment off 1 str = [str ! off]" using off by (simp add: take_Suc hd_drop_conv_nth)
  have "reads_block lib [] j [str ! off]"
    unfolding reads_block_def using j(3) by (auto simp: rd_in wr_in splice_one)
  with off j one show ?case by (auto simp: new_node_def rd_in wr_in)
next
  case (Cons n ds)
  have item: "\<exists>t. bind_levels lib (bnd lib) 0 ds (Some (new_node ds)) (off + j * ARR_SKIP ds) str = Some (Some t, str)
        \<and> printable t \<and> reads_block lib ds t (segment (off + j * ARR_SKIP ds) (ARR_SKIP ds) str)" if "j < n" for j
  proof -
    have "Suc j * ARR_SKIP ds \<le> n * ARR_SKIP ds" using that by (intro mult_le_mono1) simp
    with Cons.prems Cons.IH [of "off + j * ARR_SKIP ds"] show ?thesis by auto
  qed
  have "\<exists>a. foldM (\<lambda>j a. do { (jani, _) \<leftarrow> bind_levels lib (bnd lib) 0 ds (Some (new_node ds)) (off + j * ARR_SKIP ds) str;
          map_option (cJSON_AddItemToArray lib a) jani }) [0..<n] (JArray []) = Some a
      \<and> is_array a \<and> printable a \<and> cJSON_GetArraySize lib a = n
      \<and> (\<forall>i < n. \<exists>t. cJSON_GetArrayItem lib a i = Some t
         \<and> reads_block lib ds t (segment (off + i * ARR_SKIP ds) (ARR_SKIP ds) str))"
    by (rule items_write [OF laws _ order_refl]) (rule item)
  then obtain a where
    a: "foldM (\<lambda>j a. do { (jani, _) \<leftarrow> bind_levels lib (bnd lib) 0 ds (Some (new_node ds)) (off + j * ARR_SKIP ds) str;
          map_option (cJSON_AddItemToArray lib a) jani }) [0..<n] (JArray []) = Some a"
      "is_array a" "printable a" "cJSON_GetArraySize lib a = n"
      "\<forall>i < n. \<exists>t. cJSON_GetArrayItem lib a i = Some t
         \<and> reads_block lib ds t (segment (off + i * ARR_SKIP ds) (ARR_SKIP ds) str)" by blast
  from a(2) obtain js where js: "a = JArray js" by (cases a rule: is_array.cases) auto
  have "reads_block lib (n # ds) a (segment off (ARR_SKIP (n # ds)) str)"
    unfolding reads_block_def
    using items_read [OF _ assms(2), of _ _ n ds off lib a n] a(5) Cons.prems js by simp
  with a(1,3,4) show ?case by (auto simp: new_node_def)
qed

text \<open>An array as the member of a structure.\<close>

lemma member_round_trip:
  assumes laws: "cjson_tree lib" and "is_object j" and "cJSON_GetObjectItem lib j holder = None"
    and "length xs = ARR_SKIP (n # ds)" and "\<forall>x \<in> set xs. ok x"
  shows "\<exists>j'. ARRAYS lib (bnd lib) holder n ds 0 (Some j) xs = Some (Some j', xs)
    \<and> (\<forall>ys. length ys = length xs \<and> (\<forall>y \<in> set ys. ok y) \<longrightarrow> ARRAYS lib (bnd lib) holder n ds 1 (Some j') ys = Some (Some j', xs))"
proof -
  from levels_round_trip [OF laws assms(5), of 0 "n # ds"] assms(4) obtain a where
    a: "bind_levels lib (bnd lib) 0 (n # ds) (Some (JArray [])) 0 xs = Some (Some a, xs)"
      "reads_block lib (n # ds) a xs" "cJSON_GetArraySize lib a = n"
    by (auto simp: new_node_def simp del: bind_levels.simps)
  let ?j = "cJSON_AddItemToObject lib j holder a"
  have get: "cJSON_GetObjectItem lib ?j holder = Some a"
    using get_add [OF assms(1,2)] assms(3) by (simp add: same_name_def)
  have "ARRAYS lib (bnd lib) holder n ds 1 (Some ?j) ys = Some (Some ?j, xs)"
    if "length ys = length xs \<and> (\<forall>y \<in> set ys. ok y)" for ys
  proof -
    have "bind_levels lib (bnd lib) 1 (n # ds) (Some a) 0 ys = Some (Some a, splice 0 xs ys)"
      using a(2) that assms(4) unfolding reads_block_def by simp
    moreover have "splice 0 xs ys = xs" using that by (simp add: splice_def)
    ultimately show ?thesis by (simp add: ARRAYS_def get a(3) del: bind_levels.simps)
  qed
  with a(1) show ?thesis by (simp add: ARRAYS_def del: bind_levels.simps)
qed

end

interpretation uint32_codec: codec "\<lambda>_. sjb_bind_uint32" "\<lambda>_. True"
  by unfold_locales (auto simp: sjb_bind_uint32_def sint_i32)

interpretation text_codec: codec "\<lambda>_. sjb_bind_string n" "\<lambda>s. length s < n \<and> NUL \<notin> set s" for n
  by unfold_locales (auto simp: bind_text, simp add: sjb_bind_string_def)

text \<open>
  Tables in a parameter file. An array of any number of dimensions of words, and one of texts that end
  within their length, is written under its name and read back into any array of the same shape.
\<close>

theorem arrays_round_trip:
  assumes "cjson_tree lib" and "is_object j" and "cJSON_GetObjectItem lib j holder = None"
  shows "length ws = ARR_SKIP (n # ds) \<longrightarrow>
      (\<exists>j'. ARRAYS lib sjb_bind_uint32 holder n ds 0 (Some j) ws = Some (Some j', ws)
        \<and> (\<forall>ys. length ys = length ws \<longrightarrow> ARRAYS lib sjb_bind_uint32 holder n ds 1 (Some j') ys = Some (Some j', ws)))"
    and "length ts = ARR_SKIP (n # ds) \<and> (\<forall>t \<in> set ts. length t < len \<and> NUL \<notin> set t) \<longrightarrow>
      (\<exists>j'. ARRAYS lib (sjb_bind_string len) holder n ds 0 (Some j) ts = Some (Some j', ts)
        \<and> (\<forall>ys. length ys = length ts \<and> (\<forall>t \<in> set ys. length t < len \<and> NUL \<notin> set t) \<longrightarrow>
              ARRAYS lib (sjb_bind_string len) holder n ds 1 (Some j') ys = Some (Some j', ts)))"
  using uint32_codec.member_round_trip [OF assms, of ws n ds] text_codec.member_round_trip [OF assms, of ts n ds len]
  by auto

text \<open>A union keeps the field that its selector names, given that the field is read back.\<close>

lemma union_round_trip:
  assumes "sel \<noteq> - 1" and "map_of cases sel = Some cb"
    and "cb 0 json v = Some (json', v)" and "cb 1 json' w = Some (json', v)"
  shows "UNION cases sel 0 json v = Some (json', v) \<and> UNION cases sel 1 json' w = Some (json', v)"
  using assms by (simp add: UNION_def)

theorem arrays_round_trip_witness:
  "\<exists>j'. ARRAYS sample_lib sjb_bind_uint32 ''m'' 2 [2] 0 (Some (JObject [])) [1, 2, 3, 4] = Some (Some j', [1, 2, 3, 4])
    \<and> ARRAYS sample_lib sjb_bind_uint32 ''m'' 2 [2] 1 (Some j') [0, 0, 0, 0] = Some (Some j', [1, 2, 3, 4])"
proof -
  have "cJSON_GetObjectItem sample_lib (JObject []) ''m'' = None" "is_object (JObject [])"
    by (simp_all add: get_empty [OF sample_tree])
  from arrays_round_trip(1) [OF sample_tree this(2,1), of "[1, 2, 3, 4]" 2 "[2]"] show ?thesis
    by (auto elim!: allE [where x = "[0, 0, 0, 0]"])
qed

end
