(* ===== verification/Spec2Isabelle.thy ===== *)
theory Spec2Isabelle
  imports QueueThreads CommonTool CdrawTime OsdDraw TextRender Modeset SpiDev NetUdp UartDev DrawLoop Pcie OsdOpenCL FlashTools JsonNested
begin

text \<open>
  Verification of the codeDrawing library: a C and C++ library for an embedded board (fonts and shapes
  drawn over a video image with OpenCL, a thread-safe queue, UDP, serial port, SPI bus, serial flash,
  PCIe, parameter files) and the programs that use it. Paths are relative to the repository.

  \<^bold>\<open>The program and the theories\<close>

  The library's classes are independent of each other; the programs put them together.
  \<^verbatim>\<open>test-drm-full.cc\<close> is the largest: it prepares a card for mode setting, then draws a status line, a
  moving box and a rule into font slots of \<^verbatim>\<open>COSD_OpenCL\<close>, renders them over an image and copies the
  result to every framebuffer. \<^verbatim>\<open>test_sfud_c.c\<close> and \<^verbatim>\<open>main.cc\<close> copy a file into a flash over SPI and
  back. The classes of the network, the serial port and the display keep their parameters in JSON files.

  \<^item> \<open>Prelude\<close>: machine types and conversions, checked memory, failing loops, and the locale
    \<open>accounting\<close> of what is acquired and released. \<open>CFormat\<close>: the conversions of \<^verbatim>\<open>printf\<close>.
  \<^item> \<open>FifoSpec\<close>, \<open>CdrawQueue\<close>, \<open>QueueThreads\<close> (\<^verbatim>\<open>cdrawStruct/queue/CdrawQueue.h\<close>): the contract of a
    bounded queue, the ring buffer, and the same methods called by any number of threads that share the
    mutex, as the step relation \<open>qstep\<close>.
  \<^item> \<open>CommonTool\<close> (\<^verbatim>\<open>cdrawTools/common/CommonTool.h\<close>): checksum, assertion macro, progress bar.
    \<open>CdrawTime\<close> (\<^verbatim>\<open>cdrawTools/runTime\<close>): the stopwatch.
  \<^item> \<open>Canvas\<close> (what drawing loops do to a block), \<open>OsdDraw\<close> (shapes), \<open>OsdFont\<close> (slots, clipped
    copy), \<open>TextRender\<close> (\<^verbatim>\<open>text_render.cl\<close>, \<^verbatim>\<open>process_font\<close>), \<open>OsdOpenCL\<close> (life of the OpenCL and FreeType
    objects): \<^verbatim>\<open>cdrawTools/OSD\<close>.
  \<^item> \<open>Modeset\<close> (opening, preparation, cleanup) and \<open>DrawLoop\<close> (the drawing loop, and \<^verbatim>\<open>main\<close> with it):
    \<^verbatim>\<open>test-drm-full.cc\<close>.
  \<^item> \<open>SpiDev\<close>: \<^verbatim>\<open>cdrawTools/spi/spi.c\<close>. \<open>UartDev\<close>: \<^verbatim>\<open>cdrawTools/uart\<close>. \<open>NetUdp\<close>: \<^verbatim>\<open>cdrawTools/net\<close>.
    \<open>Pcie\<close>: \<^verbatim>\<open>cdrawTools/PCIe-rc\<close>, \<^verbatim>\<open>cdrawTools/PCIe-ep\<close> and their test programs.
  \<^item> \<open>SfudBus\<close> (port, register commands), \<open>SfudSfdp\<close> (parameter tables, erasers), \<open>SfudInit\<close>
    (initialisation), \<open>Sfud\<close> (read, erase, write): \<^verbatim>\<open>3rdparty/sfud\<close>, the driver that the repository
    ports to its SPI class. \<open>FlashStore\<close> is the contract of a flash for its users, \<open>NorChip\<close> the
    documented behaviour of the chip, \<open>SfudFlash\<close> the driver on the chip, \<open>FlashTools\<close> the two programs.
  \<^item> \<open>JsonBind\<close> (the macros of \<^verbatim>\<open>3rdparty/cxz_json\<close>), \<open>CdrawJSON\<close> (\<^verbatim>\<open>cdrawTools/json\<close>), \<open>JsonParams\<close>
    (the bound structures and \<^verbatim>\<open>init_by_json\<close> of three classes), \<open>JsonSample\<close> (a printer and a
    parser of JSON text that satisfy the laws assumed of cJSON); \<open>JsonHex\<close> and \<open>JsonNested\<close> are the macros for 64-bit words, blocks of bytes,
    tables and unions, which no structure of the program uses yet.

  \<^bold>\<open>How the code is modelled\<close>

  A class or structure is a record with the fields of the source, a method a definition of the
  same name that takes and returns the record. Where a name clashes with one of the logic it has a
  suffix or prefix (\<^verbatim>\<open>reset\<close> is \<open>reset_flash\<close>).

  \<^item> \<open>None\<close> is an execution without a defined result: an access outside of a block or array, signed
    overflow, a division by zero, a null pointer, an unset handle or a freed object that is used, a
    failing assertion (which loops), or a wait that never ends. That an operation returns \<open>Some\<close> is therefore a claim of memory safety and
    termination. Error results of the source are values (\<open>- 1\<close>, a \<^verbatim>\<open>sfud_err\<close>, \<open>Inl\<close> an error number).
  \<^item> Words of 8, 16, 32 and 64 bits wrap as in C. A C \<^verbatim>\<open>int\<close> is an integer whose range is checked.
    Sizes of the flash driver are natural numbers with the wrap-around at 32 or 64 bits written out.
  \<^item> The kernel, libdrm, OpenCL, FreeType, the PCIe library and cJSON are parameters. Where their
    results depend on what was done before, a parameter is a record of functions of the history of calls,
    newest first (\<open>drm_env\<close>, \<open>spi_env\<close>, \<open>uart_env\<close>, \<open>cl_env\<close>, \<open>pcie_env\<close>), and the history is part of the
    state. Resources (descriptors, buffers, mappings, handles) are counted from the history.
  \<^item> Loops over a range are \<open>foldM\<close> or \<open>for_range\<close>. A wait is a \<open>partial_function\<close>, with the value
    \<open>None\<close> when it does not end. The busy wait of the flash driver has the source's bound of 10000
    retries. The workers of the network class never return: a run of \<open>k\<close> iterations is a fold over a list
    of \<open>k\<close> entries, which say what other threads or the network do meanwhile, and theorems hold for
    lists of any length. The animation of the drawing loop is indexed by the iteration likewise.
    There is no fuel.
  \<^item> Work items of an OpenCL kernel run in any order: the order is a parameter.
  \<^item> Memory that the source does not initialise is a parameter (\<open>mem\<close>, \<open>junk\<close>, \<open>de_box_mem\<close>). Every
    allocation succeeds: the sources test none of them.

  \<^bold>\<open>Interfaces\<close>

  \<^item> \<open>bounded_fifo\<close>: invariant, contents and capacity of a queue; provided by \<open>CdrawQueue\<close>, used for
    the threads and the network workers.
  \<^item> \<open>accounting\<close>: what a history leaves live; provided by the calls of \<open>Modeset\<close>, \<open>SpiDev\<close>,
    \<open>UartDev\<close>, \<open>OsdOpenCL\<close> and \<open>Pcie\<close>.
  \<^item> \<open>burst_memory\<close> and its extension \<open>rewritable_memory\<close>: reading a memory in bursts, and rewriting
    ranges of it at the expense of the rest of the erase blocks; provided by the flash driver on a chip,
    used by the programs.
  \<^item> \<open>codec\<close>: a structure written to a JSON node is read back; provided by the four bound structures and by
    the scalars, texts and blocks. Every
    codec is a \<open>param_file\<close> (a sublocale): what is saved in a file is what any object on the path reads.

  \<^bold>\<open>What is shown\<close>

  \<^item> Queue: each method is the list operation it stands for; first-in first-out order under every
    interleaving, elements that \<^verbatim>\<open>clear\<close> throws away apart; that a blocking dequeue on the empty queue
    blocks all threads for ever, because it sleeps with the mutex; and that \<^verbatim>\<open>isEmpty\<close> and \<^verbatim>\<open>isFull\<close>,
    which take no lock, race with the others. Nothing else stops a thread.
  \<^item> Mode setting: no two devices share a CRTC; the search for a CRTC finds one exactly when there is
    one; the devices in the list hold exactly what is live, heap blocks included, on every error path;
    the cleanup releases everything; a run of \<^verbatim>\<open>main\<close> ends only with the error of its preparation, since
    the drawing has no defined run.
  \<^item> Drawing: the exact picture that each shape, the clipped copy, the kernel and \<^verbatim>\<open>process_font\<close> leave,
    and exactly when they leave their block; the drawing loop
    has no defined run, since it fills in slots that do not exist.
  \<^item> Flash: reading gives what was written, other files survive, the programs give back the file; the
    eraser chosen for a range is the largest that fits, or the smallest there is; what the programs do on errors. SPI: opening is
    all or nothing, what was configured is read back, each setter's effect on every
    bit of the 32-bit mode word.
  \<^item> Serial port, OpenCL objects, PCIe: which descriptors and handles are live after every sequence
    of operations, what happens to a display when FreeType fails, and the settings of the port that
    opening prepares.
  \<^item> Network: which elements the send worker sends, and what the receive worker puts into its queue
    byte by byte, with failing calls, short and oversized datagrams.
  \<^item> Parameter files: what is saved is read back by any object with the same path, after any
    sequence of saves, if a NUL happens to follow the text that is read without its terminator; every
    kind of bad file; the round trip of every kind of member, and where writing
    a block of bytes is undefined.

  Theorems that end in \<open>_witness\<close> apply a theorem at concrete values that satisfy its hypotheses.

  \<^bold>\<open>Hypotheses on the environment\<close>

  \<^item> \<open>cjson_tree\<close>: what the comments of \<^verbatim>\<open>cJSON.h\<close> say of building and reading objects and arrays;
    \<open>cjson_text\<close>, where files are saved and read: a rendered tree, as a C string, is parsed to that
    tree. \<open>sample_lib\<close> satisfies both.
  \<^item> \<open>spidev_ok\<close>: the kernel stores the settings of the bus and gives them back; for the 32-bit mode
    \<open>g_keep\<close> says which upper bits an 8-bit request leaves to the driver.
  \<^item> \<open>nor_ok\<close>, \<open>on_chip\<close>, \<open>fits\<close>, \<open>chip_ready\<close>: the device on the bus behaves as the data sheet of a
    serial NOR flash says (program clears bits, erase sets a block, a busy chip becomes idle), it is idle,
    and the parameters of the driver agree with it. Witnesses use a concrete chip.
  \<^item> \<open>glyphs_ok\<close>: FreeType returns bitmaps of the size that it states. \<open>errno_ok\<close>: a failing call sets
    a nonzero error number.

  \<^bold>\<open>Not modelled\<close>

  \<^item> Logging and messages (\<^verbatim>\<open>3rdparty/glog\<close>, the \<^verbatim>\<open>LOG_WITH_MODULE\<close> lines, \<^verbatim>\<open>SFUD_INFO\<close>): output only.
  \<^item> The bind functions of \<^verbatim>\<open>3rdparty/cxz_json\<close> for \<^verbatim>\<open>float\<close> and \<^verbatim>\<open>double\<close>, since a number node is its
    integer value here, a one-dimensional array of the type \<^verbatim>\<open>string\<close>, whose elements are bound as
    texts of one character, and cJSON, which is binary.
  \<^item> The parts of the sources that are switched off: QSPI and fast read in the flash driver, the SPI
    ioctls for older kernels.
  \<^item> Time: sleeping changes nothing; what matters is that a sleeping thread keeps its mutex.
  \<^item> Declarations, include guards and empty destructors. Memory that is only freed is counted where
    leaks are at issue (the OpenCL class, mode setting) and left out elsewhere.
\<close>

end
